(* ===== verification/Loader_Prelude.thy ===== *)
theory Loader_Prelude
  imports Complex_Main "HOL-Library.AList" "HOL-Library.Char_ord" "HOL-Library.List_Lexorder"
begin

text \<open>
  The shared vocabulary of the development.

  \<^item> Python effects: a computation takes the state and returns its outcome (\<open>Inl\<close> an exception,
    \<open>Inr\<close> a value) together with the state it leaves, so that what happened before a raise is kept,
    as it is in Python.  \<open>ret\<close>, \<open>raise\<close>, \<open>bnd\<close>, \<open>seqs\<close> and \<open>for_each\<close> compose them.
  \<^item> Exceptions: the classes the loader distinguishes, with the class name and the SQLSTATE.
  \<^item> Python strings: lists of code points below 256 with \<open>strip\<close>, \<open>replace\<close> and \<open>int()\<close>.
  \<^item> Keyed tables: rows in a list, a key function and a conflict rule; the locale \<open>keyed_table\<close> has
    the laws of \<open>INSERT ... ON CONFLICT\<close> that every table of the loader is an instance of.
\<close>

named_theorems eff_simps \<open>unfolding of effect combinators\<close>
named_theorems table_simps \<open>laws of keyed tables\<close>

section \<open>Exceptions\<close>

text \<open>
  The exception classes the loader tells apart (the psycopg classes and the runtime's
  \<open>DatabaseUnavailableError\<close> are pairwise disjoint); every other class is \<open>OtherError\<close>.
\<close>

datatype exn_class =
    InterfaceError | OperationalError | DatabaseUnavailableError
  | DataError | IntegrityError | OtherError

record exn =
  exn_class :: exn_class
  exn_name :: string
  exn_sqlstate :: "string option"

definition py_error :: "string \<Rightarrow> exn" where
  "py_error n = \<lparr>exn_class = OtherError, exn_name = n, exn_sqlstate = None\<rparr>"

section \<open>Effects\<close>

type_synonym ('s, 'a) eff = "'s \<Rightarrow> (exn + 'a) \<times> 's"

definition ret :: "'a \<Rightarrow> ('s, 'a) eff" where
  "ret x s = (Inr x, s)"

definition raise :: "exn \<Rightarrow> ('s, 'a) eff" where
  "raise e s = (Inl e, s)"

definition bnd :: "('s, 'a) eff \<Rightarrow> ('a \<Rightarrow> ('s, 'b) eff) \<Rightarrow> ('s, 'b) eff" where
  "bnd m f s = (case m s of (Inl e, s') \<Rightarrow> (Inl e, s') | (Inr x, s') \<Rightarrow> f x s')"

definition andthen :: "('s, unit) eff \<Rightarrow> ('s, 'b) eff \<Rightarrow> ('s, 'b) eff" where
  "andthen m k = bnd m (\<lambda>_. k)"

definition of_result :: "exn + 'a \<Rightarrow> ('s, 'a) eff" where
  "of_result r s = (r, s)"

definition modify :: "('s \<Rightarrow> 's) \<Rightarrow> ('s, unit) eff" where
  "modify f s = (Inr (), f s)"

definition get_state :: "('s, 's) eff" where
  "get_state s = (Inr s, s)"

fun for_each :: "('a \<Rightarrow> ('s, unit) eff) \<Rightarrow> 'a list \<Rightarrow> ('s, unit) eff" where
  "for_each f [] = ret ()"
| "for_each f (x # xs) = andthen (f x) (for_each f xs)"

text \<open>\<open>try: m except Exception: h(e)\<close>.\<close>

definition try_catch :: "('s, 'a) eff \<Rightarrow> (exn \<Rightarrow> ('s, 'a) eff) \<Rightarrow> ('s, 'a) eff" where
  "try_catch m h s = (case m s of (Inl e, s') \<Rightarrow> h e s' | (Inr x, s') \<Rightarrow> (Inr x, s'))"

text \<open>Results without state: \<open>Inl\<close> short-circuits.\<close>

definition rbind :: "exn + 'a \<Rightarrow> ('a \<Rightarrow> exn + 'b) \<Rightarrow> exn + 'b" where
  "rbind r f = (case r of Inl e \<Rightarrow> Inl e | Inr x \<Rightarrow> f x)"

fun rmap :: "('a \<Rightarrow> exn + 'b) \<Rightarrow> 'a list \<Rightarrow> exn + 'b list" where
  "rmap f [] = Inr []"
| "rmap f (x # xs) = rbind (f x) (\<lambda>y. rbind (rmap f xs) (\<lambda>ys. Inr (y # ys)))"

section \<open>Python strings\<close>

text \<open>
  A Python string is modelled by the list of its code points, restricted to the range below 256
  that a \<open>char\<close> holds.  \<open>is_space\<close> is \<open>str.isspace\<close> on that range.
\<close>

definition is_space :: "char \<Rightarrow> bool" where
  "is_space c \<longleftrightarrow> (let n = of_char c :: nat in (9 \<le> n \<and> n \<le> 13) \<or> (28 \<le> n \<and> n \<le> 32) \<or> n = 133 \<or> n = 160)"

definition strip_by :: "(char \<Rightarrow> bool) \<Rightarrow> string \<Rightarrow> string" where
  "strip_by p s = rev (dropWhile p (rev (dropWhile p s)))"

definition strip :: "string \<Rightarrow> string" where
  "strip s = strip_by is_space s"

text \<open>\<open>s.replace(old, '')\<close> for a non-empty \<open>old\<close>: leftmost, non-overlapping occurrences.\<close>

fun remove_all :: "string \<Rightarrow> string \<Rightarrow> string" where
  "remove_all old [] = []"
| "remove_all old (c # cs) =
     (if old \<noteq> [] \<and> take (length old) (c # cs) = old
      then remove_all old (drop (length old - 1) cs) else c # remove_all old cs)"

definition digit_value :: "char \<Rightarrow> nat option" where
  "digit_value c = (let n = of_char c :: nat in
     if 48 \<le> n \<and> n \<le> 57 then Some (n - 48)
     else if 97 \<le> n \<and> n \<le> 102 then Some (n - 87)
     else if 65 \<le> n \<and> n \<le> 70 then Some (n - 55)
     else None)"

text \<open>A digit of \<open>%x\<close>.\<close>

definition hex_char :: "nat \<Rightarrow> char" where
  "hex_char d = char_of (if d < 10 then 48 + d else 87 + d)"

text \<open>
  The digits of an \<open>int(s, base)\<close> literal for bases up to sixteen: at least one digit, digits
  separated by at most one underscore, none at either end.
\<close>

fun parse_digits :: "nat \<Rightarrow> nat \<Rightarrow> bool \<Rightarrow> string \<Rightarrow> nat option" where
  "parse_digits base acc after_digit [] = (if after_digit then Some acc else None)"
| "parse_digits base acc after_digit (c # cs) =
     (if c = CHR ''_'' then (if after_digit then parse_digits base acc False cs else None)
      else (case digit_value c of
              None \<Rightarrow> None
            | Some d \<Rightarrow> if d < base then parse_digits base (acc * base + d) True cs else None))"

definition parse_unsigned :: "nat \<Rightarrow> string \<Rightarrow> nat option" where
  "parse_unsigned base s =
     (if base = 16 \<and> (take 2 s = ''0x'' \<or> take 2 s = ''0X'')
      then parse_digits base 0 False (if take 1 (drop 2 s) = ''_'' then drop 3 s else drop 2 s)
      else parse_digits base 0 False s)"

definition py_int :: "nat \<Rightarrow> string \<Rightarrow> int option" where
  "py_int base s = (case strip s of
     [] \<Rightarrow> None
   | c # cs \<Rightarrow>
       if c = CHR ''-'' then map_option (\<lambda>n. - int n) (parse_unsigned base cs)
       else if c = CHR ''+'' then map_option int (parse_unsigned base cs)
       else map_option int (parse_unsigned base (c # cs)))"

fun show_nat :: "nat \<Rightarrow> string" where
  "show_nat n = (if n < 10 then [char_of (48 + n)] else show_nat (n div 10) @ [char_of (48 + n mod 10)])"

declare show_nat.simps [simp del]

definition show_int :: "int \<Rightarrow> string" where
  "show_int i = (if i < 0 then CHR ''-'' # show_nat (nat (- i)) else show_nat (nat i))"

section \<open>Ordered sets and tables\<close>

text \<open>\<open>sorted(set)\<close> over the elements of a list.\<close>

definition sorted_distinct :: "'a::linorder list \<Rightarrow> 'a list" where
  "sorted_distinct xs = sort (remdups xs)"

text \<open>
  A table is the list of its rows.  \<open>upsert_row\<close> is \<open>INSERT ... ON CONFLICT (key)\<close>: a new key is
  appended, a present one is resolved by \<open>merge old excluded\<close>.
\<close>

definition find_row :: "('r \<Rightarrow> 'k) \<Rightarrow> 'k \<Rightarrow> 'r list \<Rightarrow> 'r option" where
  "find_row key k t = find (\<lambda>r. key r = k) t"

definition upsert_row :: "('r \<Rightarrow> 'k) \<Rightarrow> ('r \<Rightarrow> 'r \<Rightarrow> 'r) \<Rightarrow> 'r \<Rightarrow> 'r list \<Rightarrow> 'r list" where
  "upsert_row key merge new t =
     (if key new \<in> set (map key t)
      then map (\<lambda>r. if key r = key new then merge r new else r) t
      else t @ [new])"

definition keyed :: "('r \<Rightarrow> 'k) \<Rightarrow> 'r list \<Rightarrow> bool" where
  "keyed key t \<longleftrightarrow> distinct (map key t)"

section \<open>Lemmas on effects\<close>

lemma ret_apply [simp]: "ret x s = (Inr x, s)"
  by (simp add: ret_def)

lemma raise_apply [simp]: "raise e s = (Inl e, s)"
  by (simp add: raise_def)

lemma modify_apply [simp]: "modify f s = (Inr (), f s)"
  by (simp add: modify_def)

lemma get_state_apply [simp]: "get_state s = (Inr s, s)"
  by (simp add: get_state_def)

lemma of_result_apply [simp]: "of_result r s = (r, s)"
  by (simp add: of_result_def)

lemma bnd_Inr [simp]: "m s = (Inr x, s') \<Longrightarrow> bnd m f s = f x s'"
  by (simp add: bnd_def)

lemma bnd_Inl [simp]: "m s = (Inl e, s') \<Longrightarrow> bnd m f s = (Inl e, s')"
  by (simp add: bnd_def)

lemma andthen_Inr [simp]: "m s = (Inr x, s') \<Longrightarrow> andthen m k s = k s'"
  by (simp add: andthen_def bnd_def)

lemma andthen_Inl [simp]: "m s = (Inl e, s') \<Longrightarrow> andthen m k s = (Inl e, s')"
  by (simp add: andthen_def bnd_def)

lemma bnd_of_result [simp]: "bnd (of_result (Inr x)) f = f x" "bnd (of_result (Inl e)) f = raise e"
  by (rule ext; simp add: bnd_def)+

lemma bnd_InrE:
  assumes "bnd m f s = (Inr y, s'')"
  obtains x s' where "m s = (Inr x, s')" and "f x s' = (Inr y, s'')"
  using assms by (auto simp: bnd_def split: prod.splits sum.splits)

lemma andthen_InrE:
  assumes "andthen m k s = (Inr y, s'')"
  obtains s' where "m s = (Inr (), s')" and "k s' = (Inr y, s'')"
  using assms by (auto simp: andthen_def elim: bnd_InrE)

lemma rbind_Inr_iff [simp]: "rbind r f = Inr y \<longleftrightarrow> (\<exists>x. r = Inr x \<and> f x = Inr y)"
  by (auto simp: rbind_def split: sum.splits)

lemma rbind_Inr [simp]: "rbind (Inr x) f = f x"
  by (simp add: rbind_def)

lemma rbind_Inl [simp]: "rbind (Inl e) f = Inl e"
  by (simp add: rbind_def)

lemma rmap_Inr_length: "rmap f xs = Inr ys \<Longrightarrow> length ys = length xs"
  by (induction xs arbitrary: ys) auto

lemma rmap_Inr_set: "rmap f xs = Inr ys \<Longrightarrow> y \<in> set ys \<Longrightarrow> \<exists>x \<in> set xs. f x = Inr y"
  by (induction xs arbitrary: ys) fastforce+

lemma rmap_total: "(\<And>x. x \<in> set xs \<Longrightarrow> f x = Inr (g x)) \<Longrightarrow> rmap f xs = Inr (map g xs)"
  by (induction xs) auto

text \<open>
  A state predicate that every effect in a family keeps: the shape of every frame and invariant
  argument about an effectful operation, whether it raises or not.
\<close>

definition keeps :: "('s \<Rightarrow> 's \<Rightarrow> bool) \<Rightarrow> ('s, 'a) eff \<Rightarrow> bool" where
  "keeps R m \<longleftrightarrow> (\<forall>s. R s (snd (m s)))"

lemma keepsD: "keeps R m \<Longrightarrow> m s = (r, s') \<Longrightarrow> R s s'"
  by (auto simp: keeps_def dest: spec [of _ s])

lemma keeps_ret [intro]: "reflp R \<Longrightarrow> keeps R (ret x)"
  by (simp add: keeps_def reflpD)

lemma keeps_raise [intro]: "reflp R \<Longrightarrow> keeps R (raise e)"
  by (simp add: keeps_def reflpD)

lemma keeps_of_result [intro]: "reflp R \<Longrightarrow> keeps R (of_result r)"
  by (simp add: keeps_def reflpD)

lemma keeps_get_state [intro]: "reflp R \<Longrightarrow> keeps R get_state"
  by (simp add: keeps_def reflpD)

lemma keeps_bnd [intro]:
  assumes "transp R" and m: "keeps R m" and f: "\<And>x. keeps R (f x)"
  shows "keeps R (bnd m f)"
  unfolding keeps_def
proof
  fix s
  obtain r s' where ms: "m s = (r, s')" by fastforce
  from m ms have 1: "R s s'" by (rule keepsD)
  show "R s (snd (bnd m f s))"
  proof (cases r)
    case (Inl e)
    with ms 1 show ?thesis by simp
  next
    case (Inr x)
    from f [of x] have "R s' (snd (f x s'))" by (simp add: keeps_def)
    with 1 have "R s (snd (f x s'))" using \<open>transp R\<close> by (blast dest: transpD)
    with ms Inr show ?thesis by simp
  qed
qed

lemma keeps_andthen [intro]: "transp R \<Longrightarrow> keeps R m \<Longrightarrow> keeps R k \<Longrightarrow> keeps R (andthen m k)"
  by (simp add: andthen_def keeps_bnd)

lemma keeps_for_each [intro]:
  assumes "reflp R" and "transp R" and "\<And>x. x \<in> set xs \<Longrightarrow> keeps R (f x)"
  shows "keeps R (for_each f xs)"
  using assms(3) by (induction xs) (auto intro: assms(1,2))

lemma keeps_try_catch [intro]:
  assumes "transp R" and m: "keeps R m" and h: "\<And>e. keeps R (h e)"
  shows "keeps R (try_catch m h)"
  unfolding keeps_def
proof
  fix s
  obtain r s' where ms: "m s = (r, s')" by fastforce
  from m ms have 1: "R s s'" by (rule keepsD)
  from h have "R s' (snd (h e s'))" for e by (simp add: keeps_def)
  with 1 ms \<open>transp R\<close> show "R s (snd (try_catch m h s))"
    by (cases r) (auto simp: try_catch_def dest: transpD)
qed

text \<open>The frame of an invariant: what held before holds after.\<close>

definition preserves :: "('s \<Rightarrow> bool) \<Rightarrow> 's \<Rightarrow> 's \<Rightarrow> bool" where
  "preserves P s s' \<longleftrightarrow> (P s \<longrightarrow> P s')"

lemma preserves_orders [intro, simp]: "reflp (preserves P)" "transp (preserves P)"
  by (auto simp: reflp_def transp_def preserves_def)

lemma keeps_modify: "(\<And>s. R s (f s)) \<Longrightarrow> keeps R (modify f)"
  by (simp add: keeps_def)

lemma preservesD: "keeps (preserves P) m \<Longrightarrow> m s = (r, s') \<Longrightarrow> P s \<Longrightarrow> P s'"
  by (drule keepsD) (auto simp: preserves_def)

lemma keeps_mono: "keeps R m \<Longrightarrow> (\<And>s s'. R s s' \<Longrightarrow> R' s s') \<Longrightarrow> keeps R' m"
  by (simp add: keeps_def)

text \<open>Effects that return from every state.\<close>

definition succeeds :: "('s, 'a) eff \<Rightarrow> bool" where
  "succeeds m \<longleftrightarrow> (\<forall>s. \<exists>x s'. m s = (Inr x, s'))"

lemma succeeds_ret [intro, simp]: "succeeds (ret x)"
  by (simp add: succeeds_def)

lemma succeeds_modify [intro, simp]: "succeeds (modify f)"
  by (simp add: succeeds_def)

lemma succeeds_get_state [intro, simp]: "succeeds get_state"
  by (simp add: succeeds_def)

lemma succeeds_of_result [intro]: "r = Inr x \<Longrightarrow> succeeds (of_result r)"
  by (simp add: succeeds_def)

lemma succeeds_bnd [intro]: "succeeds m \<Longrightarrow> (\<And>x. succeeds (f x)) \<Longrightarrow> succeeds (bnd m f)"
  unfolding succeeds_def by (metis bnd_Inr)

lemma succeeds_andthen [intro]: "succeeds m \<Longrightarrow> succeeds k \<Longrightarrow> succeeds (andthen m k)"
  by (auto simp: andthen_def)

lemma succeeds_for_each [intro]: "(\<And>x. x \<in> set xs \<Longrightarrow> succeeds (f x)) \<Longrightarrow> succeeds (for_each f xs)"
  by (induction xs) auto

lemma succeeds_try_catch [intro]: "succeeds m \<Longrightarrow> succeeds (try_catch m h)"
  unfolding succeeds_def try_catch_def by (metis (no_types, lifting) case_prod_conv sum.simps(6))

section \<open>Keyed tables\<close>

lemma find_row_None_iff: "find_row key k t = None \<longleftrightarrow> k \<notin> set (map key t)"
  by (auto simp: find_row_def find_None_iff)

lemma find_row_SomeD: "find_row key k t = Some r \<Longrightarrow> r \<in> set t \<and> key r = k"
  by (auto simp: find_row_def find_Some_iff)

lemma find_row_append:
  "find_row key k (xs @ ys) = (case find_row key k xs of None \<Rightarrow> find_row key k ys | Some r \<Rightarrow> Some r)"
  by (induction xs) (auto simp: find_row_def)

lemma find_row_Cons [simp]:
  "find_row key k [] = None"
  "find_row key k (r # t) = (if key r = k then Some r else find_row key k t)"
  by (simp_all add: find_row_def)

lemma find_row_keyed: "keyed key t \<Longrightarrow> r \<in> set t \<Longrightarrow> find_row key (key r) t = Some r"
  by (induction t) (auto simp: keyed_def)

lemma keyed_filter: "keyed key t \<Longrightarrow> keyed key (filter p t)"
  by (simp add: keyed_def distinct_map_filter)

text \<open>
  The contract of \<open>INSERT ... ON CONFLICT\<close>: the conflict rule keeps the key it conflicts on.
\<close>

locale keyed_table =
  fixes key :: "'r \<Rightarrow> 'k" and merge :: "'r \<Rightarrow> 'r \<Rightarrow> 'r"
  assumes merge_key: "key r = key n \<Longrightarrow> key (merge r n) = key n"
begin

lemma map_key_upsert:
  "map key (upsert_row key merge n t) =
     (if key n \<in> set (map key t) then map key t else map key t @ [key n])"
  by (auto simp: upsert_row_def merge_key)

lemma keyed_upsert: "keyed key t \<Longrightarrow> keyed key (upsert_row key merge n t)"
  by (simp add: keyed_def map_key_upsert)

lemma find_upsert_same:
  "find_row key (key n) (upsert_row key merge n t) =
     Some (case find_row key (key n) t of None \<Rightarrow> n | Some r \<Rightarrow> merge r n)"
proof (cases "key n \<in> set (map key t)")
  case True
  then show ?thesis
    by (induction t) (auto simp: upsert_row_def merge_key split: option.splits)
next
  case False
  then have "find_row key (key n) t = None"
    by (simp add: find_row_None_iff)
  with False show ?thesis
    by (simp add: upsert_row_def find_row_append)
qed

lemma find_upsert_other:
  assumes "k \<noteq> key n"
  shows "find_row key k (upsert_row key merge n t) = find_row key k t"
proof -
  have "find_row key k (map (\<lambda>r. if key r = key n then merge r n else r) t) = find_row key k t"
    using assms by (induction t) (auto simp: merge_key)
  with assms show ?thesis
    by (auto simp: upsert_row_def find_row_append split: option.splits)
qed

lemma upsert_length:
  "length (upsert_row key merge n t) = (if key n \<in> set (map key t) then length t else Suc (length t))"
  by (simp add: upsert_row_def)

lemma mem_upsert_other: "r \<in> set t \<Longrightarrow> key r \<noteq> key n \<Longrightarrow> r \<in> set (upsert_row key merge n t)"
  by (auto simp: upsert_row_def)

lemma find_fold_upsert_other:
  "k \<notin> key ` set ns \<Longrightarrow> find_row key k (fold (upsert_row key merge) ns t) = find_row key k t"
  by (induction ns arbitrary: t) (auto simp: find_upsert_other)

lemma keyed_fold_upsert: "keyed key t \<Longrightarrow> keyed key (fold (upsert_row key merge) ns t)"
  by (induction ns arbitrary: t) (auto simp: keyed_upsert)

lemma keys_fold_upsert:
  "set (map key (fold (upsert_row key merge) ns t)) = set (map key t) \<union> key ` set ns"
proof (induction ns arbitrary: t)
  case Nil
  then show ?case by simp
next
  case (Cons n ns)
  have "set (map key (upsert_row key merge n t)) = insert (key n) (set (map key t))"
    by (simp add: map_key_upsert insert_absorb)
  with Cons show ?case by auto
qed

text \<open>What the conflict rule establishes, every key of a batch has afterwards.\<close>

lemma fold_upsert_establishes:
  assumes merge: "\<And>r n. key r = key n \<Longrightarrow> P n \<Longrightarrow> P (merge r n)" and ns: "\<And>n. n \<in> set ns \<Longrightarrow> P n"
    and "n \<in> set ns"
  shows "\<exists>r. find_row key (key n) (fold (upsert_row key merge) ns t) = Some r \<and> P r"
  using ns \<open>n \<in> set ns\<close>
proof (induction ns arbitrary: t n)
  case Nil
  then show ?case by simp
next
  case (Cons m ns)
  show ?case
  proof (cases "key n \<in> key ` set ns")
    case True
    then obtain n' where "n' \<in> set ns" and "key n' = key n" by auto
    with Cons.IH [of n' "upsert_row key merge m t"] Cons.prems(1) show ?thesis by auto
  next
    case False
    with Cons.prems have "n = m" by auto
    moreover from False have "find_row key (key n) (fold (upsert_row key merge) (m # ns) t) =
        find_row key (key n) (upsert_row key merge m t)"
      by (simp add: find_fold_upsert_other)
    ultimately show ?thesis
      using Cons.prems(1) by (auto simp: find_upsert_same intro: merge dest: find_row_SomeD split: option.splits)
  qed
qed

end

section \<open>Lists and ordered sets\<close>

lemma mem_map_filter: "y \<in> set (List.map_filter f xs) \<longleftrightarrow> (\<exists>x \<in> set xs. f x = Some y)"
  by (force simp: List.map_filter_def)

lemma set_sorted_distinct [simp]: "set (sorted_distinct xs) = set xs"
  by (simp add: sorted_distinct_def)

lemma sorted_sorted_distinct [simp]: "sorted (sorted_distinct xs)"
  by (simp add: sorted_distinct_def)

lemma distinct_sorted_distinct [simp]: "distinct (sorted_distinct xs)"
  by (simp add: sorted_distinct_def)

end
