(* ===== verification/Py_Values.thy ===== *)
theory Py_Values
  imports Loader_Prelude
begin

text \<open>
  The Python values a decoded message is made of, and the operations of the language the loader
  applies to them: truth, \<open>isinstance\<close>, \<open>.get\<close> with and without a default, iteration, \<open>str()\<close> and
  hashability.  Nothing is assumed about a field's type: an operation that Python would refuse
  returns the exception it raises.

  An object is the association list of a \<open>dict\<close> in insertion order, with one entry per key.  A float
  is the rational it denotes (the decoder produces finite doubles only).
\<close>

datatype json =
    JNull
  | JBool bool
  | JInt int
  | JFloat rat
  | JStr string
  | JList "json list"
  | JObj "(string \<times> json) list"

type_synonym obj = "(string \<times> json) list"

fun truthy :: "json \<Rightarrow> bool" where
  "truthy JNull = False"
| "truthy (JBool b) = b"
| "truthy (JInt i) = (i \<noteq> 0)"
| "truthy (JFloat q) = (q \<noteq> 0)"
| "truthy (JStr s) = (s \<noteq> [])"
| "truthy (JList xs) = (xs \<noteq> [])"
| "truthy (JObj d) = (d \<noteq> [])"

text \<open>\<open>d.get(k, default)\<close> and \<open>d.get(k)\<close> on a \<open>dict\<close>.\<close>

definition get_default :: "obj \<Rightarrow> string \<Rightarrow> json \<Rightarrow> json" where
  "get_default d k def = (case map_of d k of None \<Rightarrow> def | Some v \<Rightarrow> v)"

definition get_none :: "obj \<Rightarrow> string \<Rightarrow> json" where
  "get_none d k = get_default d k JNull"

text \<open>The attribute access \<open>x.get\<close> on a value that may be no \<open>dict\<close>.\<close>

definition as_dict :: "json \<Rightarrow> exn + obj" where
  "as_dict v = (case v of JObj d \<Rightarrow> Inr d | _ \<Rightarrow> Inl (py_error ''AttributeError''))"

text \<open>Iteration: a list's elements, a \<open>dict\<close>'s keys, a string's characters.\<close>

fun py_iter :: "json \<Rightarrow> exn + json list" where
  "py_iter (JList xs) = Inr xs"
| "py_iter (JObj d) = Inr (map (JStr \<circ> fst) d)"
| "py_iter (JStr s) = Inr (map (\<lambda>c. JStr [c]) s)"
| "py_iter _ = Inl (py_error ''TypeError'')"

fun hashable :: "json \<Rightarrow> bool" where
  "hashable (JList _) = False"
| "hashable (JObj _) = False"
| "hashable _ = True"

text \<open>
  \<open>str(x)\<close>.  The text of a float or of a container is the interpreter's \<open>repr\<close>, which stays a
  parameter: identifiers and versions are strings or integers.
\<close>

fun py_str :: "(json \<Rightarrow> string) \<Rightarrow> json \<Rightarrow> string" where
  "py_str repr JNull = ''None''"
| "py_str repr (JBool b) = (if b then ''True'' else ''False'')"
| "py_str repr (JInt i) = show_int i"
| "py_str repr (JStr s) = s"
| "py_str repr v = repr v"

text \<open>\<open>x or y\<close>.\<close>

definition py_or :: "json \<Rightarrow> json \<Rightarrow> json" where
  "py_or x y = (if truthy x then x else y)"

section \<open>Lemmas\<close>

lemma get_default_Nil [simp]: "get_default [] k v = v"
  by (simp add: get_default_def)

lemma get_default_Cons [simp]:
  "get_default ((k', v') # d) k v = (if k = k' then v' else get_default d k v)"
  by (simp add: get_default_def)

lemma get_none_Nil [simp]: "get_none [] k = JNull"
  by (simp add: get_none_def)

lemma get_none_Cons [simp]: "get_none ((k', v') # d) k = (if k = k' then v' else get_none d k)"
  by (simp add: get_none_def)

lemma as_dict_Inr_iff [simp]: "as_dict v = Inr d \<longleftrightarrow> v = JObj d"
  by (auto simp: as_dict_def split: json.splits)

lemma as_dict_JObj [simp]: "as_dict (JObj d) = Inr d"
  by simp

lemma show_nat_nonempty: "show_nat n \<noteq> []"
  by (subst show_nat.simps) simp

end
