(* ===== verification/Catalog_Names.thy ===== *)
theory Catalog_Names
  imports Py_Values
begin

text \<open>
  The names of the broker objects: the generated contract binding
  (\<open>brainztableinator/catalog_contract.py\<close>) and its local adapter (\<open>queue_names.py\<close>).
  \<open>EXCHANGE_PREFIX\<close> is read from the environment, so every name takes it as an argument.
\<close>

definition ENTITY_TYPES :: "string list" where
  "ENTITY_TYPES = [''artists'', ''labels'', ''release-groups'', ''releases'']"

definition CONSUMERS :: "string list" where
  "CONSUMERS = [''brainzgraphinator'', ''brainztableinator'']"

definition SOURCE :: string where
  "SOURCE = ''musicbrainz''"

definition DEFAULT_EXCHANGE_PREFIX :: string where
  "DEFAULT_EXCHANGE_PREFIX = ''groovemap-musicbrainz''"

definition EXCHANGE_PREFIX :: "(string \<Rightarrow> string option) \<Rightarrow> string" where
  "EXCHANGE_PREFIX getenv =
     (case getenv ''MUSICBRAINZ_EXCHANGE_PREFIX'' of None \<Rightarrow> DEFAULT_EXCHANGE_PREFIX | Some p \<Rightarrow> p)"

definition exchange_name :: "string \<Rightarrow> string \<Rightarrow> exn + string" where
  "exchange_name prefix entity =
     (if entity \<notin> set ENTITY_TYPES then Inl (py_error ''ValueError'')
      else Inr (prefix @ ''-'' @ entity))"

definition queue_name :: "string \<Rightarrow> string \<Rightarrow> string \<Rightarrow> exn + string" where
  "queue_name prefix consumer entity =
     (if consumer \<notin> set CONSUMERS then Inl (py_error ''ValueError'')
      else if entity \<notin> set ENTITY_TYPES then Inl (py_error ''ValueError'')
      else Inr (prefix @ ''-'' @ consumer @ ''-'' @ entity))"

definition dead_letter_exchange_name :: "string \<Rightarrow> string \<Rightarrow> string \<Rightarrow> exn + string" where
  "dead_letter_exchange_name prefix consumer entity =
     rbind (queue_name prefix consumer entity) (\<lambda>q. Inr (q @ ''.dlx''))"

definition dead_letter_queue_name :: "string \<Rightarrow> string \<Rightarrow> string \<Rightarrow> exn + string" where
  "dead_letter_queue_name prefix consumer entity =
     rbind (queue_name prefix consumer entity) (\<lambda>q. Inr (q @ ''.dlq''))"

definition MUSICBRAINZ_DATA_TYPES :: "string list" where
  "MUSICBRAINZ_DATA_TYPES = ENTITY_TYPES"

definition CONSUMER_SOURCES :: "(string \<times> (string \<times> string) list) list" where
  "CONSUMER_SOURCES = map (\<lambda>consumer. (consumer, [(''source'', SOURCE)])) CONSUMERS"

text \<open>Every name the two consumers and the producer use, in one list.\<close>

definition consumer_entities :: "(string \<times> string) list" where
  "consumer_entities = concat (map (\<lambda>c. map (Pair c) ENTITY_TYPES) CONSUMERS)"

definition all_broker_names :: "string \<Rightarrow> (exn + string) list" where
  "all_broker_names prefix =
     map (exchange_name prefix) ENTITY_TYPES
     @ map (\<lambda>(c, e). queue_name prefix c e) consumer_entities
     @ map (\<lambda>(c, e). dead_letter_exchange_name prefix c e) consumer_entities
     @ map (\<lambda>(c, e). dead_letter_queue_name prefix c e) consumer_entities"

section \<open>Lemmas\<close>

lemma distinct_data_types: "distinct MUSICBRAINZ_DATA_TYPES"
  by (simp add: MUSICBRAINZ_DATA_TYPES_def ENTITY_TYPES_def)

lemma set_data_types:
  "set MUSICBRAINZ_DATA_TYPES = {''artists'', ''labels'', ''release-groups'', ''releases''}"
  by (simp add: MUSICBRAINZ_DATA_TYPES_def ENTITY_TYPES_def)

text \<open>What the names add to the prefix.\<close>

definition name_suffixes :: "string list" where
  "name_suffixes =
     map (\<lambda>e. ''-'' @ e) ENTITY_TYPES
     @ map (\<lambda>(c, e). ''-'' @ c @ ''-'' @ e) consumer_entities
     @ map (\<lambda>(c, e). ''-'' @ c @ ''-'' @ e @ ''.dlx'') consumer_entities
     @ map (\<lambda>(c, e). ''-'' @ c @ ''-'' @ e @ ''.dlq'') consumer_entities"

lemma all_broker_names_suffixes: "all_broker_names prefix = map (\<lambda>s. Inr (prefix @ s)) name_suffixes"
  by (simp add: all_broker_names_def name_suffixes_def consumer_entities_def exchange_name_def
      queue_name_def dead_letter_exchange_name_def dead_letter_queue_name_def ENTITY_TYPES_def CONSUMERS_def)

lemma distinct_name_suffixes: "distinct name_suffixes"
  by code_simp

section \<open>Properties\<close>

text \<open>
  C39.  Under any exchange prefix the loader can be configured with, the exchanges, the live
  queues, the dead-letter exchanges and the dead-letter queues of both consumers and all four
  entity types exist (no name is refused) and are pairwise different: a dead letter never lands on
  a live queue, and the two consumers never share a queue.
\<close>

theorem broker_names_distinct:
  "distinct (all_broker_names prefix) \<and>
   map isl (all_broker_names prefix) = replicate (length (all_broker_names prefix)) False"
proof -
  have "inj_on (\<lambda>s. Inr (prefix @ s) :: exn + string) (set name_suffixes)"
    by (simp add: inj_on_def)
  then have "distinct (all_broker_names prefix)"
    by (simp only: all_broker_names_suffixes distinct_map distinct_name_suffixes simp_thms)
  then show ?thesis
    by (simp add: all_broker_names_suffixes comp_def map_replicate_const)
qed

end
