(* ===== verification/Persistence.thy ===== *)
theory Persistence
  imports Py_Values
begin

text \<open>
  The PostgreSQL writes: the tables the loader touches, one constructor of \<open>stmt\<close> per SQL statement
  of \<open>_persistence.py\<close>, \<open>_reconciliation.py\<close> and \<open>_purge_veto.py\<close>, what each statement does to the
  tables, and the methods of \<open>PostgreSQLMusicBrainzWriter\<close>.

  PostgreSQL and the schema are not part of the repository.  What the statements depend on is the
  record \<open>pg\<close>: how a column stores a bound value, the schema's \<open>relationship_key\<close> function, the
  transaction's \<open>NOW()\<close>, the text collation, and \<open>pg_fault\<close>, by which any statement, connection or
  commit may fail with any error.  Every table is a list of rows; a transaction sees and changes
  the list, and \<open>transaction\<close> puts the old one back when its block or its commit fails.
\<close>

section \<open>Rows\<close>

type_synonym uuid = string
type_synonym timestamp = int

record artist_values =
  a_mbid :: json
  a_name :: json
  a_sort_name :: json
  a_type :: json
  a_gender :: json
  a_begin_date :: json
  a_end_date :: json
  a_ended :: json
  a_area :: json
  a_begin_area :: json
  a_end_area :: json
  a_disambiguation :: json
  a_discogs_artist_id :: json
  a_aliases :: json
  a_tags :: json
  a_data :: json
  a_gm_item_id :: "uuid option"

record artist_row = artist_values +
  a_updated_at :: timestamp

record label_values =
  l_mbid :: json
  l_name :: json
  l_type :: json
  l_label_code :: json
  l_begin_date :: json
  l_end_date :: json
  l_ended :: json
  l_area :: json
  l_disambiguation :: json
  l_discogs_label_id :: json
  l_data :: json
  l_gm_item_id :: "uuid option"

record label_row = label_values +
  l_updated_at :: timestamp

record release_values =
  r_mbid :: json
  r_name :: json
  r_barcode :: json
  r_status :: json
  r_release_group_mbid :: json
  r_discogs_release_id :: json
  r_media :: json
  r_data :: json
  r_gm_item_id :: "uuid option"

record release_row = release_values +
  r_updated_at :: timestamp

record release_group_values =
  g_mbid :: json
  g_name :: json
  g_type :: json
  g_secondary_types :: json
  g_first_release_date :: json
  g_disambiguation :: json
  g_discogs_master_id :: json
  g_data :: json
  g_gm_item_id :: "uuid option"

record release_group_row = release_group_values +
  g_updated_at :: timestamp

record rel_params =
  rel_source_mbid :: json
  rel_source_entity_type :: json
  rel_target_mbid :: json
  rel_target_entity_type :: json
  rel_relationship_type :: json
  rel_attributes :: json
  rel_begin_date :: json
  rel_end_date :: json
  rel_ended :: json

record rel_row = rel_params +
  rel_updated_at :: timestamp

record link_params =
  link_mbid :: json
  link_entity_type :: json
  link_url :: json
  link_service_name :: json

record link_row = link_params +
  link_updated_at :: timestamp

datatype link_event_kind = LinkAdded | LinkRemoved | LinkChanged

record link_event =
  ev_provider :: string
  ev_entity_kind :: string
  ev_external_id :: json
  ev_event :: link_event_kind
  ev_discogs_id_before :: json
  ev_discogs_id_after :: json
  ev_event_at :: timestamp
  ev_dated_from :: string
  ev_source_ref :: string

record medium_row =
  med_medium_id :: string
  med_family :: string
  med_label :: string

record issued_row =
  iss_release_id :: string
  iss_medium_id :: string
  iss_source :: string
  iss_qty :: int

record latch_row =
  latch_loader :: string
  latch_version :: string
  latch_purge_vetoed :: "string list"

record alias_ref =
  ref_provider :: string
  ref_entity_kind :: string
  ref_external_id :: json

datatype child_table = Relationships | ExternalLinks

record db =
  db_artists :: "artist_row list"
  db_labels :: "label_row list"
  db_releases :: "release_row list"
  db_release_groups :: "release_group_row list"
  db_relationships :: "rel_row list"
  db_external_links :: "link_row list"
  db_link_events :: "link_event list"
  db_media_family :: "string list"
  db_medium :: "medium_row list"
  db_issued_on :: "issued_row list"
  db_aliases :: "(alias_ref \<times> uuid) list"
  db_latch :: "latch_row list"
  db_columns :: "((string \<times> string \<times> string) \<times> string) list"

section \<open>Statements\<close>

datatype stmt =
    Connect
  | Commit
  | UpsertArtist artist_values string
  | UpsertLabel label_values string
  | UpsertRelease release_values string
  | UpsertReleaseGroup release_group_values string
  | UpsertRelationship bool rel_params
  | UpsertExternalLink bool link_params
  | InsertMediaFamily string
  | InsertMedium string string string
  | LockReleaseMedia string string
  | DeleteIssuedOn string string
  | InsertIssuedOn string string string int
  | CountAll child_table
  | CountStale child_table timestamp
  | DeleteStale child_table timestamp
  | ReadColumnType string string string
  | RecordExtraction string "string list"
  | ReadVetoes string
  | ReadHistory

record pg =
  pg_store :: "string \<Rightarrow> json \<Rightarrow> json"
  pg_relationship_key :: "json list \<Rightarrow> string"
  pg_now :: timestamp
  pg_collate :: "string \<Rightarrow> int"
  pg_fault :: "stmt \<Rightarrow> db \<Rightarrow> exn option"

section \<open>Entity upserts and link events\<close>

text \<open>The row each entity's \<open>VALUES\<close> list stores.\<close>

definition artist_row_of :: "pg \<Rightarrow> artist_values \<Rightarrow> artist_row" where
  "artist_row_of p v = \<lparr>
     a_mbid = pg_store p ''artists.mbid'' (a_mbid v),
     a_name = pg_store p ''artists.name'' (a_name v),
     a_sort_name = pg_store p ''artists.sort_name'' (a_sort_name v),
     a_type = pg_store p ''artists.type'' (a_type v),
     a_gender = pg_store p ''artists.gender'' (a_gender v),
     a_begin_date = pg_store p ''artists.begin_date'' (a_begin_date v),
     a_end_date = pg_store p ''artists.end_date'' (a_end_date v),
     a_ended = pg_store p ''artists.ended'' (a_ended v),
     a_area = pg_store p ''artists.area'' (a_area v),
     a_begin_area = pg_store p ''artists.begin_area'' (a_begin_area v),
     a_end_area = pg_store p ''artists.end_area'' (a_end_area v),
     a_disambiguation = pg_store p ''artists.disambiguation'' (a_disambiguation v),
     a_discogs_artist_id = pg_store p ''artists.discogs_artist_id'' (a_discogs_artist_id v),
     a_aliases = pg_store p ''artists.aliases'' (a_aliases v),
     a_tags = pg_store p ''artists.tags'' (a_tags v),
     a_data = pg_store p ''artists.data'' (a_data v),
     a_gm_item_id = a_gm_item_id v,
     a_updated_at = pg_now p\<rparr>"

definition label_row_of :: "pg \<Rightarrow> label_values \<Rightarrow> label_row" where
  "label_row_of p v = \<lparr>
     l_mbid = pg_store p ''labels.mbid'' (l_mbid v),
     l_name = pg_store p ''labels.name'' (l_name v),
     l_type = pg_store p ''labels.type'' (l_type v),
     l_label_code = pg_store p ''labels.label_code'' (l_label_code v),
     l_begin_date = pg_store p ''labels.begin_date'' (l_begin_date v),
     l_end_date = pg_store p ''labels.end_date'' (l_end_date v),
     l_ended = pg_store p ''labels.ended'' (l_ended v),
     l_area = pg_store p ''labels.area'' (l_area v),
     l_disambiguation = pg_store p ''labels.disambiguation'' (l_disambiguation v),
     l_discogs_label_id = pg_store p ''labels.discogs_label_id'' (l_discogs_label_id v),
     l_data = pg_store p ''labels.data'' (l_data v),
     l_gm_item_id = l_gm_item_id v,
     l_updated_at = pg_now p\<rparr>"

definition release_row_of :: "pg \<Rightarrow> release_values \<Rightarrow> release_row" where
  "release_row_of p v = \<lparr>
     r_mbid = pg_store p ''releases.mbid'' (r_mbid v),
     r_name = pg_store p ''releases.name'' (r_name v),
     r_barcode = pg_store p ''releases.barcode'' (r_barcode v),
     r_status = pg_store p ''releases.status'' (r_status v),
     r_release_group_mbid = pg_store p ''releases.release_group_mbid'' (r_release_group_mbid v),
     r_discogs_release_id = pg_store p ''releases.discogs_release_id'' (r_discogs_release_id v),
     r_media = pg_store p ''releases.media'' (r_media v),
     r_data = pg_store p ''releases.data'' (r_data v),
     r_gm_item_id = r_gm_item_id v,
     r_updated_at = pg_now p\<rparr>"

definition release_group_row_of :: "pg \<Rightarrow> release_group_values \<Rightarrow> release_group_row" where
  "release_group_row_of p v = \<lparr>
     g_mbid = pg_store p ''release_groups.mbid'' (g_mbid v),
     g_name = pg_store p ''release_groups.name'' (g_name v),
     g_type = pg_store p ''release_groups.type'' (g_type v),
     g_secondary_types = pg_store p ''release_groups.secondary_types'' (g_secondary_types v),
     g_first_release_date = pg_store p ''release_groups.first_release_date'' (g_first_release_date v),
     g_disambiguation = pg_store p ''release_groups.disambiguation'' (g_disambiguation v),
     g_discogs_master_id = pg_store p ''release_groups.discogs_master_id'' (g_discogs_master_id v),
     g_data = pg_store p ''release_groups.data'' (g_data v),
     g_gm_item_id = g_gm_item_id v,
     g_updated_at = pg_now p\<rparr>"

text \<open>The \<open>DO UPDATE SET\<close> clauses: \<open>new\<close> is \<open>EXCLUDED\<close>, whose \<open>updated_at\<close> default is \<open>NOW()\<close>.\<close>

definition artist_merge :: "timestamp \<Rightarrow> artist_row \<Rightarrow> artist_row \<Rightarrow> artist_row" where
  "artist_merge now old new = old\<lparr>
     a_name := a_name new, a_sort_name := a_sort_name new, a_type := a_type new,
     a_gender := a_gender new, a_begin_date := a_begin_date new, a_end_date := a_end_date new,
     a_ended := a_ended new, a_area := a_area new, a_begin_area := a_begin_area new,
     a_end_area := a_end_area new, a_disambiguation := a_disambiguation new,
     a_discogs_artist_id := a_discogs_artist_id new, a_aliases := a_aliases new,
     a_tags := a_tags new, a_gm_item_id := a_gm_item_id new, a_data := a_data new,
     a_updated_at := now\<rparr>"

definition label_merge :: "timestamp \<Rightarrow> label_row \<Rightarrow> label_row \<Rightarrow> label_row" where
  "label_merge now old new = old\<lparr>
     l_name := l_name new, l_type := l_type new, l_label_code := l_label_code new,
     l_begin_date := l_begin_date new, l_end_date := l_end_date new, l_ended := l_ended new,
     l_area := l_area new, l_disambiguation := l_disambiguation new,
     l_discogs_label_id := l_discogs_label_id new, l_gm_item_id := l_gm_item_id new,
     l_data := l_data new, l_updated_at := now\<rparr>"

definition release_merge :: "timestamp \<Rightarrow> release_row \<Rightarrow> release_row \<Rightarrow> release_row" where
  "release_merge now old new = old\<lparr>
     r_name := r_name new, r_barcode := r_barcode new, r_status := r_status new,
     r_release_group_mbid := r_release_group_mbid new,
     r_discogs_release_id := r_discogs_release_id new, r_media := r_media new,
     r_gm_item_id := r_gm_item_id new, r_data := r_data new, r_updated_at := now\<rparr>"

definition release_group_merge ::
  "timestamp \<Rightarrow> release_group_row \<Rightarrow> release_group_row \<Rightarrow> release_group_row" where
  "release_group_merge now old new = old\<lparr>
     g_name := g_name new, g_type := g_type new, g_secondary_types := g_secondary_types new,
     g_first_release_date := g_first_release_date new, g_disambiguation := g_disambiguation new,
     g_discogs_master_id := g_discogs_master_id new, g_gm_item_id := g_gm_item_id new,
     g_data := g_data new, g_updated_at := now\<rparr>"

text \<open>
  The third part of each entity statement.  \<open>old\<close> is the \<open>old\<close> CTE: the id the row held before the
  statement, \<open>None\<close> when there was no row.  \<open>IS DISTINCT FROM\<close> is inequality with \<open>JNull\<close> for NULL.
\<close>

definition link_event_kind_of :: "json \<Rightarrow> json \<Rightarrow> link_event_kind" where
  "link_event_kind_of before after =
     (if before = JNull then LinkAdded else if after = JNull then LinkRemoved else LinkChanged)"

definition link_event_key ::
  "link_event \<Rightarrow> string \<times> string \<times> string \<times> string \<times> json \<times> link_event_kind \<times> timestamp" where
  "link_event_key e = (ev_dated_from e, ev_source_ref e, ev_provider e, ev_entity_kind e,
     ev_external_id e, ev_event e, ev_event_at e)"

definition record_link_event ::
  "timestamp \<Rightarrow> string \<Rightarrow> json \<Rightarrow> json option \<Rightarrow> json \<Rightarrow> string \<Rightarrow> link_event list \<Rightarrow> link_event list" where
  "record_link_event now kind mbid old after source_ref events =
     (case old of
        None \<Rightarrow> events
      | Some before \<Rightarrow>
          if before = after then events
          else upsert_row link_event_key (\<lambda>present _. present)
            \<lparr>ev_provider = ''musicbrainz'', ev_entity_kind = kind, ev_external_id = mbid,
             ev_event = link_event_kind_of before after,
             ev_discogs_id_before = before, ev_discogs_id_after = after,
             ev_event_at = now, ev_dated_from = ''groovemap_load'', ev_source_ref = source_ref\<rparr>
            events)"

definition run_upsert_artist :: "pg \<Rightarrow> artist_values \<Rightarrow> string \<Rightarrow> db \<Rightarrow> db" where
  "run_upsert_artist p v source_ref d =
     (let new = artist_row_of p v;
          old = map_option a_discogs_artist_id (find_row a_mbid (a_mbid new) (db_artists d))
      in d\<lparr>db_artists := upsert_row a_mbid (artist_merge (pg_now p)) new (db_artists d),
           db_link_events := record_link_event (pg_now p) ''artist'' (a_mbid new) old
             (a_discogs_artist_id new) source_ref (db_link_events d)\<rparr>)"

definition run_upsert_label :: "pg \<Rightarrow> label_values \<Rightarrow> string \<Rightarrow> db \<Rightarrow> db" where
  "run_upsert_label p v source_ref d =
     (let new = label_row_of p v;
          old = map_option l_discogs_label_id (find_row l_mbid (l_mbid new) (db_labels d))
      in d\<lparr>db_labels := upsert_row l_mbid (label_merge (pg_now p)) new (db_labels d),
           db_link_events := record_link_event (pg_now p) ''label'' (l_mbid new) old
             (l_discogs_label_id new) source_ref (db_link_events d)\<rparr>)"

definition run_upsert_release :: "pg \<Rightarrow> release_values \<Rightarrow> string \<Rightarrow> db \<Rightarrow> db" where
  "run_upsert_release p v source_ref d =
     (let new = release_row_of p v;
          old = map_option r_discogs_release_id (find_row r_mbid (r_mbid new) (db_releases d))
      in d\<lparr>db_releases := upsert_row r_mbid (release_merge (pg_now p)) new (db_releases d),
           db_link_events := record_link_event (pg_now p) ''release'' (r_mbid new) old
             (r_discogs_release_id new) source_ref (db_link_events d)\<rparr>)"

definition run_upsert_release_group :: "pg \<Rightarrow> release_group_values \<Rightarrow> string \<Rightarrow> db \<Rightarrow> db" where
  "run_upsert_release_group p v source_ref d =
     (let new = release_group_row_of p v;
          old = map_option g_discogs_master_id (find_row g_mbid (g_mbid new) (db_release_groups d))
      in d\<lparr>db_release_groups :=
             upsert_row g_mbid (release_group_merge (pg_now p)) new (db_release_groups d),
           db_link_events := record_link_event (pg_now p) ''master'' (g_mbid new) old
             (g_discogs_master_id new) source_ref (db_link_events d)\<rparr>)"

section \<open>Child rows\<close>

definition rel_row_of :: "pg \<Rightarrow> rel_params \<Rightarrow> rel_row" where
  "rel_row_of p v = \<lparr>
     rel_source_mbid = pg_store p ''relationships.source_mbid'' (rel_source_mbid v),
     rel_source_entity_type = pg_store p ''relationships.source_entity_type'' (rel_source_entity_type v),
     rel_target_mbid = pg_store p ''relationships.target_mbid'' (rel_target_mbid v),
     rel_target_entity_type = pg_store p ''relationships.target_entity_type'' (rel_target_entity_type v),
     rel_relationship_type = pg_store p ''relationships.relationship_type'' (rel_relationship_type v),
     rel_attributes = pg_store p ''relationships.attributes'' (rel_attributes v),
     rel_begin_date = pg_store p ''relationships.begin_date'' (rel_begin_date v),
     rel_end_date = pg_store p ''relationships.end_date'' (rel_end_date v),
     rel_ended = pg_store p ''relationships.ended'' (rel_ended v),
     rel_updated_at = pg_now p\<rparr>"

text \<open>The conflict target \<open>musicbrainz.relationship_key(...)\<close>, argument order included.\<close>

definition rel_key :: "pg \<Rightarrow> rel_row \<Rightarrow> string" where
  "rel_key p r = pg_relationship_key p
     [rel_source_mbid r, rel_target_mbid r, rel_source_entity_type r, rel_target_entity_type r,
      rel_relationship_type r, rel_begin_date r, rel_end_date r, rel_attributes r]"

text \<open>\<open>RELATIONSHIP_UPSERTS[refresh]\<close>: \<open>ended\<close> always, \<open>updated_at\<close> only with the refresh clause.\<close>

definition rel_merge :: "bool \<Rightarrow> timestamp \<Rightarrow> rel_row \<Rightarrow> rel_row \<Rightarrow> rel_row" where
  "rel_merge refresh now old new =
     (if refresh then old\<lparr>rel_ended := rel_ended new, rel_updated_at := now\<rparr>
      else old\<lparr>rel_ended := rel_ended new\<rparr>)"

definition link_row_of :: "pg \<Rightarrow> link_params \<Rightarrow> link_row" where
  "link_row_of p v = \<lparr>
     link_mbid = pg_store p ''external_links.mbid'' (link_mbid v),
     link_entity_type = pg_store p ''external_links.entity_type'' (link_entity_type v),
     link_url = pg_store p ''external_links.url'' (link_url v),
     link_service_name = pg_store p ''external_links.service_name'' (link_service_name v),
     link_updated_at = pg_now p\<rparr>"

definition link_key :: "link_row \<Rightarrow> json \<times> json \<times> json \<times> json" where
  "link_key r = (link_mbid r, link_entity_type r, link_service_name r, link_url r)"

definition link_merge :: "bool \<Rightarrow> timestamp \<Rightarrow> link_row \<Rightarrow> link_row \<Rightarrow> link_row" where
  "link_merge refresh now old new =
     (if refresh then old\<lparr>link_url := link_url new, link_updated_at := now\<rparr>
      else old\<lparr>link_url := link_url new\<rparr>)"

section \<open>The shared graph relations and the extraction latch\<close>

definition issued_key :: "issued_row \<Rightarrow> string \<times> string \<times> string" where
  "issued_key r = (iss_release_id r, iss_medium_id r, iss_source r)"

definition unique_violation :: exn where
  "unique_violation = \<lparr>exn_class = IntegrityError, exn_name = ''UniqueViolation'',
     exn_sqlstate = Some ''23505''\<rparr>"

definition LOADER :: string where
  "LOADER = ''musicbrainz''"

definition latch_key :: "latch_row \<Rightarrow> string \<times> string" where
  "latch_key r = (latch_loader r, latch_version r)"

text \<open>\<open>array_agg(DISTINCT vetoed ORDER BY vetoed)\<close> over both arrays.\<close>

definition latch_merge :: "(string \<Rightarrow> int) \<Rightarrow> latch_row \<Rightarrow> latch_row \<Rightarrow> latch_row" where
  "latch_merge collate old new = old\<lparr>latch_purge_vetoed :=
     sort_key collate (remdups (latch_purge_vetoed old @ latch_purge_vetoed new))\<rparr>"

definition table_timestamps :: "child_table \<Rightarrow> db \<Rightarrow> timestamp list" where
  "table_timestamps t d = (case t of
     Relationships \<Rightarrow> map rel_updated_at (db_relationships d)
   | ExternalLinks \<Rightarrow> map link_updated_at (db_external_links d))"

definition count_all :: "child_table \<Rightarrow> db \<Rightarrow> nat" where
  "count_all t d = length (table_timestamps t d)"

definition count_stale :: "child_table \<Rightarrow> timestamp \<Rightarrow> db \<Rightarrow> nat" where
  "count_stale t b d = length (filter (\<lambda>u. u < b) (table_timestamps t d))"

definition delete_stale :: "child_table \<Rightarrow> timestamp \<Rightarrow> db \<Rightarrow> db" where
  "delete_stale t b d = (case t of
     Relationships \<Rightarrow> d\<lparr>db_relationships := filter (\<lambda>r. \<not> rel_updated_at r < b) (db_relationships d)\<rparr>
   | ExternalLinks \<Rightarrow> d\<lparr>db_external_links := filter (\<lambda>r. \<not> link_updated_at r < b) (db_external_links d)\<rparr>)"

text \<open>What one statement does to the tables.  Reading statements leave them alone.\<close>

fun run_stmt :: "pg \<Rightarrow> stmt \<Rightarrow> db \<Rightarrow> exn + db" where
  "run_stmt p (UpsertArtist v src) d = Inr (run_upsert_artist p v src d)"
| "run_stmt p (UpsertLabel v src) d = Inr (run_upsert_label p v src d)"
| "run_stmt p (UpsertRelease v src) d = Inr (run_upsert_release p v src d)"
| "run_stmt p (UpsertReleaseGroup v src) d = Inr (run_upsert_release_group p v src d)"
| "run_stmt p (UpsertRelationship refresh v) d = Inr (d\<lparr>db_relationships :=
     upsert_row (rel_key p) (rel_merge refresh (pg_now p)) (rel_row_of p v) (db_relationships d)\<rparr>)"
| "run_stmt p (UpsertExternalLink refresh v) d = Inr (d\<lparr>db_external_links :=
     upsert_row link_key (link_merge refresh (pg_now p)) (link_row_of p v) (db_external_links d)\<rparr>)"
| "run_stmt p (InsertMediaFamily name) d = Inr (d\<lparr>db_media_family :=
     upsert_row id (\<lambda>present _. present) name (db_media_family d)\<rparr>)"
| "run_stmt p (InsertMedium medium_id family label) d = Inr (d\<lparr>db_medium :=
     upsert_row med_medium_id (\<lambda>present _. present)
       \<lparr>med_medium_id = medium_id, med_family = family, med_label = label\<rparr> (db_medium d)\<rparr>)"
| "run_stmt p (DeleteIssuedOn release_id source) d = Inr (d\<lparr>db_issued_on :=
     filter (\<lambda>r. \<not> (iss_release_id r = release_id \<and> iss_source r = source)) (db_issued_on d)\<rparr>)"
| "run_stmt p (InsertIssuedOn release_id medium_id source qty) d =
     (let r = \<lparr>iss_release_id = release_id, iss_medium_id = medium_id, iss_source = source, iss_qty = qty\<rparr>
      in if issued_key r \<in> set (map issued_key (db_issued_on d)) then Inl unique_violation
         else Inr (d\<lparr>db_issued_on := db_issued_on d @ [r]\<rparr>))"
| "run_stmt p (DeleteStale t b) d = Inr (delete_stale t b d)"
| "run_stmt p (RecordExtraction version vetoed) d = Inr (d\<lparr>db_latch :=
     upsert_row latch_key (latch_merge (pg_collate p))
       \<lparr>latch_loader = LOADER, latch_version = version, latch_purge_vetoed = vetoed\<rparr> (db_latch d)\<rparr>)"
| "run_stmt p _ d = Inr d"

section \<open>Sessions\<close>

text \<open>A connection inside a transaction: the tables as it sees them and the statements it has sent.\<close>

record sess =
  s_db :: db
  s_trace :: "stmt list"

definition exec :: "pg \<Rightarrow> stmt \<Rightarrow> ('z sess_scheme, unit) eff" where
  "exec p st s =
     (let s' = s\<lparr>s_trace := s_trace s @ [st]\<rparr> in
      case pg_fault p st (s_db s) of
        Some e \<Rightarrow> (Inl e, s')
      | None \<Rightarrow> (case run_stmt p st (s_db s) of
          Inl e \<Rightarrow> (Inl e, s')
        | Inr d \<Rightarrow> (Inr (), s'\<lparr>s_db := d\<rparr>)))"

text \<open>\<open>executemany\<close>: the statement once per parameter row, in order.\<close>

definition executemany :: "pg \<Rightarrow> ('r \<Rightarrow> stmt) \<Rightarrow> 'r list \<Rightarrow> ('z sess_scheme, unit) eff" where
  "executemany p st rows = for_each (\<lambda>r. exec p (st r)) rows"

text \<open>
  \<open>async with pool.connection() as conn: ... async with conn.transaction(): body\<close>.  A failed connect
  runs nothing; a failed body or commit leaves the tables as they were.
\<close>

definition transaction :: "pg \<Rightarrow> ('z sess_scheme, 'a) eff \<Rightarrow> ('z sess_scheme, 'a) eff" where
  "transaction p body s =
     (case andthen (exec p Connect) (bnd body (\<lambda>x. andthen (exec p Commit) (ret x))) s of
        (Inl e, s') \<Rightarrow> (Inl e, s'\<lparr>s_db := s_db s\<rparr>)
      | (Inr x, s') \<Rightarrow> (Inr x, s'))"

section \<open>PostgreSQLMusicBrainzWriter\<close>

record writer =
  w_refresh_updated_at :: bool

definition set_refresh_updated_at :: "bool \<Rightarrow> writer \<Rightarrow> writer" where
  "set_refresh_updated_at enabled w = w\<lparr>w_refresh_updated_at := enabled\<rparr>"

definition upsert_artist :: "pg \<Rightarrow> artist_values \<Rightarrow> string \<Rightarrow> ('z sess_scheme, unit) eff" where
  "upsert_artist p values source_ref = exec p (UpsertArtist values source_ref)"

definition upsert_label :: "pg \<Rightarrow> label_values \<Rightarrow> string \<Rightarrow> ('z sess_scheme, unit) eff" where
  "upsert_label p values source_ref = exec p (UpsertLabel values source_ref)"

definition upsert_release :: "pg \<Rightarrow> release_values \<Rightarrow> string \<Rightarrow> ('z sess_scheme, unit) eff" where
  "upsert_release p values source_ref = exec p (UpsertRelease values source_ref)"

definition upsert_release_group ::
  "pg \<Rightarrow> release_group_values \<Rightarrow> string \<Rightarrow> ('z sess_scheme, unit) eff" where
  "upsert_release_group p values source_ref = exec p (UpsertReleaseGroup values source_ref)"

definition writer_insert_relationships ::
  "pg \<Rightarrow> writer \<Rightarrow> rel_params list \<Rightarrow> ('z sess_scheme, unit) eff" where
  "writer_insert_relationships p w rows =
     executemany p (UpsertRelationship (w_refresh_updated_at w)) rows"

definition writer_insert_external_links ::
  "pg \<Rightarrow> writer \<Rightarrow> link_params list \<Rightarrow> ('z sess_scheme, unit) eff" where
  "writer_insert_external_links p w rows =
     executemany p (UpsertExternalLink (w_refresh_updated_at w)) rows"

definition upsert_media_families :: "pg \<Rightarrow> string list \<Rightarrow> ('z sess_scheme, unit) eff" where
  "upsert_media_families p names =
     (if names = [] then ret () else executemany p InsertMediaFamily names)"

definition upsert_media ::
  "pg \<Rightarrow> (string \<times> string \<times> string) list \<Rightarrow> ('z sess_scheme, unit) eff" where
  "upsert_media p rows =
     (if rows = [] then ret () else executemany p (\<lambda>(m, f, l). InsertMedium m f l) rows)"

definition lock_release_media :: "pg \<Rightarrow> string \<Rightarrow> string \<Rightarrow> ('z sess_scheme, unit) eff" where
  "lock_release_media p release_id source = exec p (LockReleaseMedia release_id source)"

definition replace_release_media_edges ::
  "pg \<Rightarrow> string \<Rightarrow> string \<Rightarrow> (string \<times> string \<times> string \<times> int) list \<Rightarrow> ('z sess_scheme, unit) eff" where
  "replace_release_media_edges p release_id source rows =
     andthen (lock_release_media p release_id source)
     (andthen (exec p (DeleteIssuedOn release_id source))
       (if rows = [] then ret ()
        else executemany p (\<lambda>(r, m, s, q). InsertIssuedOn r m s q) rows))"

section \<open>Every table is a keyed table\<close>

text \<open>
  The invariant of the store: one row per conflict key in every table the loader writes, which is
  what the schema's primary keys and unique indexes declare.
\<close>

definition db_wf :: "pg \<Rightarrow> db \<Rightarrow> bool" where
  "db_wf p d \<longleftrightarrow>
     keyed a_mbid (db_artists d) \<and> keyed l_mbid (db_labels d) \<and> keyed r_mbid (db_releases d)
   \<and> keyed g_mbid (db_release_groups d) \<and> keyed (rel_key p) (db_relationships d)
   \<and> keyed link_key (db_external_links d) \<and> keyed link_event_key (db_link_events d)
   \<and> keyed id (db_media_family d) \<and> keyed med_medium_id (db_medium d)
   \<and> keyed issued_key (db_issued_on d) \<and> keyed latch_key (db_latch d)"

interpretation artists_t: keyed_table a_mbid "artist_merge now" for now
  by unfold_locales (simp add: artist_merge_def)

interpretation labels_t: keyed_table l_mbid "label_merge now" for now
  by unfold_locales (simp add: label_merge_def)

interpretation releases_t: keyed_table r_mbid "release_merge now" for now
  by unfold_locales (simp add: release_merge_def)

interpretation groups_t: keyed_table g_mbid "release_group_merge now" for now
  by unfold_locales (simp add: release_group_merge_def)

interpretation rels_t: keyed_table "rel_key p" "rel_merge refresh now" for p refresh now
  by unfold_locales (simp add: rel_merge_def rel_key_def)

interpretation links_t: keyed_table link_key "link_merge refresh now" for refresh now
  by unfold_locales (simp add: link_merge_def link_key_def)

interpretation events_t: keyed_table link_event_key "\<lambda>present _. present"
  by unfold_locales simp

interpretation families_t: keyed_table id "\<lambda>present _. present"
  by unfold_locales simp

interpretation media_t: keyed_table med_medium_id "\<lambda>present _. present"
  by unfold_locales simp

interpretation latch_t: keyed_table latch_key "latch_merge collate" for collate
  by unfold_locales (simp add: latch_merge_def latch_key_def)

lemmas keyed_upserts =
  artists_t.keyed_upsert labels_t.keyed_upsert releases_t.keyed_upsert groups_t.keyed_upsert
  rels_t.keyed_upsert links_t.keyed_upsert events_t.keyed_upsert families_t.keyed_upsert
  media_t.keyed_upsert latch_t.keyed_upsert

lemma keyed_record_link_event:
  "keyed link_event_key es \<Longrightarrow> keyed link_event_key (record_link_event now k m old after src es)"
  by (auto simp: record_link_event_def events_t.keyed_upsert split: option.splits)

lemmas run_upsert_defs =
  run_upsert_artist_def run_upsert_label_def run_upsert_release_def run_upsert_release_group_def

lemma keyed_snoc: "keyed key t \<Longrightarrow> key r \<notin> key ` set t \<Longrightarrow> keyed key (t @ [r])"
  by (simp add: keyed_def)

lemma run_stmt_wf: "run_stmt p st d = Inr d' \<Longrightarrow> db_wf p d \<Longrightarrow> db_wf p d'"
  by (cases st)
    (auto simp: db_wf_def run_upsert_defs Let_def keyed_upserts keyed_record_link_event keyed_filter
        delete_stale_def keyed_snoc split: if_splits child_table.splits)

section \<open>Statements in sequence\<close>

fun run_stmts :: "pg \<Rightarrow> stmt list \<Rightarrow> db \<Rightarrow> exn + db" where
  "run_stmts p [] d = Inr d"
| "run_stmts p (st # sts) d = rbind (run_stmt p st d) (run_stmts p sts)"

lemma run_stmts_append: "run_stmts p (xs @ ys) d = rbind (run_stmts p xs d) (run_stmts p ys)"
proof (induction xs arbitrary: d)
  case Nil
  then show ?case by simp
next
  case (Cons x xs)
  then show ?case by (cases "run_stmt p x d") auto
qed

lemma run_stmts_wf: "run_stmts p sts d = Inr d' \<Longrightarrow> db_wf p d \<Longrightarrow> db_wf p d'"
  by (induction sts arbitrary: d) (auto dest: run_stmt_wf)

text \<open>What a session did: the statements it sent and the tables they leave.\<close>

definition sent :: "pg \<Rightarrow> stmt list \<Rightarrow> 'z sess_scheme \<Rightarrow> 'z sess_scheme \<Rightarrow> bool" where
  "sent p sts s s' \<longleftrightarrow>
     (\<exists>d. run_stmts p sts (s_db s) = Inr d \<and> s' = s\<lparr>s_db := d, s_trace := s_trace s @ sts\<rparr>)"

lemma sess_update_id [simp]: "s\<lparr>s_db := s_db s\<rparr> = s" "s\<lparr>s_trace := s_trace s\<rparr> = s"
  by (cases s; simp)+

lemma sent_Nil [simp]: "sent p [] s s' \<longleftrightarrow> s' = s"
  by (auto simp: sent_def)

lemma sent_db: "sent p sts s s' \<Longrightarrow> run_stmts p sts (s_db s) = Inr (s_db s')"
  by (auto simp: sent_def)

lemma sent_trace: "sent p sts s s' \<Longrightarrow> s_trace s' = s_trace s @ sts"
  by (auto simp: sent_def)

lemma sent_trans: "sent p xs s s' \<Longrightarrow> sent p ys s' s'' \<Longrightarrow> sent p (xs @ ys) s s''"
  by (auto simp: sent_def run_stmts_append)

lemma exec_Inr: "exec p st s = (Inr x, s') \<Longrightarrow> sent p [st] s s'"
  by (auto simp: exec_def sent_def Let_def split: option.splits sum.splits)

lemma for_each_exec_Inr: "for_each (\<lambda>r. exec p (st r)) rows s = (Inr (), s') \<Longrightarrow> sent p (map st rows) s s'"
proof (induction rows arbitrary: s)
  case Nil
  then show ?case by simp
next
  case (Cons r rows)
  then obtain s1 where "exec p (st r) s = (Inr (), s1)"
    and "for_each (\<lambda>r. exec p (st r)) rows s1 = (Inr (), s')"
    by (auto elim: andthen_InrE)
  then have "sent p [st r] s s1" and "sent p (map st rows) s1 s'"
    by (blast dest: exec_Inr Cons.IH)+
  then show ?case using sent_trans by fastforce
qed

lemma executemany_Inr: "executemany p st rows s = (Inr x, s') \<Longrightarrow> sent p (map st rows) s s'"
  by (simp add: executemany_def for_each_exec_Inr)

text \<open>Without faults a statement succeeds exactly when the tables accept it.\<close>

lemma exec_no_fault:
  assumes "pg_fault p st (s_db s) = None" and "run_stmt p st (s_db s) = Inr d"
  shows "exec p st s = (Inr (), s\<lparr>s_db := d, s_trace := s_trace s @ [st]\<rparr>)"
  using assms by (simp add: exec_def)

lemma for_each_no_fault:
  assumes "\<And>st d. pg_fault p st d = None"
  shows "run_stmts p (map st rows) (s_db s) = Inr d \<Longrightarrow>
    for_each (\<lambda>r. exec p (st r)) rows s =
      (Inr (), s\<lparr>s_db := d, s_trace := s_trace s @ map st rows\<rparr>)"
proof (induction rows arbitrary: s)
  case Nil
  then show ?case by simp
next
  case (Cons r rows)
  then obtain d1 where d1: "run_stmt p (st r) (s_db s) = Inr d1" and
    rest: "run_stmts p (map st rows) d1 = Inr d" by auto
  from d1 have "exec p (st r) s = (Inr (), s\<lparr>s_db := d1, s_trace := s_trace s @ [st r]\<rparr>)"
    using assms by (simp add: exec_no_fault)
  then show ?case
    using Cons.IH [of "s\<lparr>s_db := d1, s_trace := s_trace s @ [st r]\<rparr>"] rest by simp
qed

section \<open>Transactions\<close>

lemma transaction_Inl_db:
  "transaction p body s = (Inl e, s') \<Longrightarrow> s_db s' = s_db s"
  by (auto simp: transaction_def split: prod.splits sum.splits)

lemma transaction_InrE:
  assumes "transaction p body s = (Inr x, s')"
  obtains s1 s2 where "sent p [Connect] s s1" and "body s1 = (Inr x, s2)" and "sent p [Commit] s2 s'"
proof -
  from assms have "andthen (exec p Connect) (bnd body (\<lambda>x. andthen (exec p Commit) (ret x))) s = (Inr x, s')"
    by (auto simp: transaction_def split: prod.splits sum.splits)
  then obtain s1 s2 where "exec p Connect s = (Inr (), s1)" and "body s1 = (Inr x, s2)"
    and "exec p Commit s2 = (Inr (), s')"
    by (auto elim!: andthen_InrE bnd_InrE)
  then show thesis by (blast intro: that dest: exec_Inr)
qed

lemma sent_Connect [simp]:
  "sent p [Connect] s s' \<longleftrightarrow> s' = s\<lparr>s_trace := s_trace s @ [Connect]\<rparr>"
  by (auto simp: sent_def)

lemma sent_Commit [simp]:
  "sent p [Commit] s s' \<longleftrightarrow> s' = s\<lparr>s_trace := s_trace s @ [Commit]\<rparr>"
  by (auto simp: sent_def)

section \<open>The contract of the four entity upserts\<close>

lemma artist_merge_all: "a_mbid r = a_mbid (artist_row_of p v) \<Longrightarrow>
    artist_merge (pg_now p) r (artist_row_of p v) = artist_row_of p v"
  by (cases r) (simp add: artist_merge_def artist_row_of_def)

lemma label_merge_all: "l_mbid r = l_mbid (label_row_of p v) \<Longrightarrow>
    label_merge (pg_now p) r (label_row_of p v) = label_row_of p v"
  by (cases r) (simp add: label_merge_def label_row_of_def)

lemma release_merge_all: "r_mbid r = r_mbid (release_row_of p v) \<Longrightarrow>
    release_merge (pg_now p) r (release_row_of p v) = release_row_of p v"
  by (cases r) (simp add: release_merge_def release_row_of_def)

lemma release_group_merge_all: "g_mbid r = g_mbid (release_group_row_of p v) \<Longrightarrow>
    release_group_merge (pg_now p) r (release_group_row_of p v) = release_group_row_of p v"
  by (cases r) (simp add: release_group_merge_def release_group_row_of_def)

text \<open>The CHECK the schema declares on an event's two ids (\<open>identity_link_events_link_matches_event\<close>).\<close>

definition link_matches_event :: "link_event \<Rightarrow> bool" where
  "link_matches_event e \<longleftrightarrow> (case ev_event e of
     LinkAdded \<Rightarrow> ev_discogs_id_before e = JNull \<and> ev_discogs_id_after e \<noteq> JNull
   | LinkRemoved \<Rightarrow> ev_discogs_id_before e \<noteq> JNull \<and> ev_discogs_id_after e = JNull
   | LinkChanged \<Rightarrow> ev_discogs_id_before e \<noteq> JNull \<and> ev_discogs_id_after e \<noteq> JNull
       \<and> ev_discogs_id_before e \<noteq> ev_discogs_id_after e)"

text \<open>
  The ledger's meaning: read in order, the events lead from the first stored id to the last, each
  one a real change of the kind it says.
\<close>

fun link_chain :: "json \<Rightarrow> link_event list \<Rightarrow> json \<Rightarrow> bool" where
  "link_chain x [] y = (x = y)"
| "link_chain x (e # es) y =
     (ev_discogs_id_before e = x \<and> link_matches_event e \<and> link_chain (ev_discogs_id_after e) es y)"

definition load_all :: "(pg \<Rightarrow> 'v \<Rightarrow> string \<Rightarrow> db \<Rightarrow> db) \<Rightarrow> (pg \<times> 'v \<times> string) list \<Rightarrow> db \<Rightarrow> db" where
  "load_all run loads d = fold (\<lambda>(p, v, src). run p v src) loads d"

text \<open>
  Over any sequence of loads in transactions with increasing timestamps, the events recorded for
  one stored row chain the id it held before to the id it holds after.
\<close>

definition ledger_faithful ::
  "(pg \<Rightarrow> 'v \<Rightarrow> string \<Rightarrow> db \<Rightarrow> db) \<Rightarrow> ('r \<Rightarrow> json) \<Rightarrow> ('r \<Rightarrow> json) \<Rightarrow> (db \<Rightarrow> 'r list) \<Rightarrow> string \<Rightarrow> bool" where
  "ledger_faithful run key did rows kind \<longleftrightarrow>
     (\<forall>loads d k x t.
        map_option did (find_row key k (rows d)) = Some x \<and>
        (\<forall>e \<in> set (db_link_events d). ev_event_at e \<le> t) \<and>
        sorted_wrt (<) (t # map (pg_now \<circ> fst) loads) \<longrightarrow>
        (\<exists>new y. db_link_events (load_all run loads d) = db_link_events d @ new \<and>
           link_chain x (filter (\<lambda>e. ev_external_id e = k) new) y \<and>
           list_all (\<lambda>e. ev_entity_kind e = kind) new \<and>
           map_option did (find_row key k (rows (load_all run loads d))) = Some y))"

lemma link_chain_append:
  "link_chain x (xs @ ys) z \<longleftrightarrow> (\<exists>y. link_chain x xs y \<and> link_chain y ys z)"
  by (induction xs arbitrary: x) auto

lemma link_event_kind_matches:
  "before \<noteq> after \<Longrightarrow> link_matches_event (e\<lparr>ev_event := link_event_kind_of before after,
     ev_discogs_id_before := before, ev_discogs_id_after := after\<rparr>)"
  by (auto simp: link_matches_event_def link_event_kind_of_def)

locale entity_upsert =
  fixes run :: "pg \<Rightarrow> 'v \<Rightarrow> string \<Rightarrow> db \<Rightarrow> db" and row_of :: "pg \<Rightarrow> 'v \<Rightarrow> 'r"
    and key :: "'r \<Rightarrow> json" and did :: "'r \<Rightarrow> json" and rows :: "db \<Rightarrow> 'r list" and kind :: string
  assumes find_run: "find_row key k (rows (run p v src d)) =
      (if k = key (row_of p v) then Some (row_of p v) else find_row key k (rows d))"
    and events_run: "db_link_events (run p v src d) =
      record_link_event (pg_now p) kind (key (row_of p v))
        (map_option did (find_row key (key (row_of p v)) (rows d))) (did (row_of p v)) src (db_link_events d)"
begin

lemma new_row_no_event:
  "find_row key (key (row_of p v)) (rows d) = None \<Longrightarrow> db_link_events (run p v src d) = db_link_events d"
  by (simp add: events_run record_link_event_def)

lemma redelivery_no_event:
  assumes "key (row_of p' v) = key (row_of p v)" and "did (row_of p' v) = did (row_of p v)"
  shows "db_link_events (run p' v src' (run p v src d)) = db_link_events (run p v src d)"
  using assms by (simp add: events_run [of p'] find_run record_link_event_def)

text \<open>One load, in a transaction later than every recorded event.\<close>

lemma events_step:
  assumes late: "\<And>e. e \<in> set (db_link_events d) \<Longrightarrow> ev_event_at e < pg_now p"
    and x: "map_option did (find_row key k (rows d)) = Some x"
  obtains new y where "db_link_events (run p v src d) = db_link_events d @ new"
    and "link_chain x (filter (\<lambda>e. ev_external_id e = k) new) y"
    and "list_all (\<lambda>e. ev_entity_kind e = kind \<and> ev_event_at e = pg_now p) new"
    and "map_option did (find_row key k (rows (run p v src d))) = Some y"
proof -
  let ?m = "key (row_of p v)" and ?after = "did (row_of p v)"
  let ?y = "if k = ?m then ?after else x"
  have stored: "map_option did (find_row key k (rows (run p v src d))) = Some ?y"
    using x by (simp add: find_run)
  show thesis
  proof (cases "\<exists>before. map_option did (find_row key ?m (rows d)) = Some before \<and> before \<noteq> ?after")
    case False
    then have "db_link_events (run p v src d) = db_link_events d"
      by (auto simp: events_run record_link_event_def split: option.splits)
    moreover from False x have "?y = x" by auto
    ultimately show thesis using stored that [of "[]" x] by auto
  next
    case True
    then obtain before where before: "map_option did (find_row key ?m (rows d)) = Some before"
      and neq: "before \<noteq> ?after" by blast
    define ev where "ev = \<lparr>ev_provider = ''musicbrainz'', ev_entity_kind = kind, ev_external_id = ?m,
      ev_event = link_event_kind_of before ?after, ev_discogs_id_before = before,
      ev_discogs_id_after = ?after, ev_event_at = pg_now p, ev_dated_from = ''groovemap_load'',
      ev_source_ref = src\<rparr>"
    have "link_event_key ev \<notin> link_event_key ` set (db_link_events d)"
      using late by (force simp: link_event_key_def ev_def)
    moreover from before obtain r where "find_row key ?m (rows d) = Some r" and "did r = before"
      by auto
    ultimately have evs: "db_link_events (run p v src d) = db_link_events d @ [ev]"
      using neq unfolding ev_def by (simp add: events_run record_link_event_def upsert_row_def)
    have ok: "link_matches_event ev"
      using neq link_event_kind_matches [of before ?after ev] by (simp add: ev_def)
    have "link_chain x (filter (\<lambda>e. ev_external_id e = k) [ev]) ?y"
      using ok x before by (auto simp: ev_def)
    with evs stored show thesis using that [of "[ev]" ?y] by (simp add: ev_def)
  qed
qed

lemma ledger: "ledger_faithful run key did rows kind"
  unfolding ledger_faithful_def
proof (intro allI impI, elim conjE)
  fix loads :: "(pg \<times> 'v \<times> string) list" and d k x t
  assume "map_option did (find_row key k (rows d)) = Some x"
    and "\<forall>e \<in> set (db_link_events d). ev_event_at e \<le> t"
    and "sorted_wrt (<) (t # map (pg_now \<circ> fst) loads)"
  then show "\<exists>new y. db_link_events (load_all run loads d) = db_link_events d @ new \<and>
           link_chain x (filter (\<lambda>e. ev_external_id e = k) new) y \<and>
           list_all (\<lambda>e. ev_entity_kind e = kind) new \<and>
           map_option did (find_row key k (rows (load_all run loads d))) = Some y"
  proof (induction loads arbitrary: d x t)
    case Nil
    then show ?case by (simp add: load_all_def)
  next
    case (Cons l loads)
    obtain p v src where l: "l = (p, v, src)" by (cases l) auto
    from Cons.prems l have late: "ev_event_at e < pg_now p" if "e \<in> set (db_link_events d)" for e
      using that by force
    obtain new y where
      new: "db_link_events (run p v src d) = db_link_events d @ new"
      and chain: "link_chain x (filter (\<lambda>e. ev_external_id e = k) new) y"
      and kinds: "list_all (\<lambda>e. ev_entity_kind e = kind \<and> ev_event_at e = pg_now p) new"
      and y: "map_option did (find_row key k (rows (run p v src d))) = Some y"
      by (rule events_step [OF late Cons.prems(1)])
    have at: "\<forall>e \<in> set (db_link_events (run p v src d)). ev_event_at e \<le> pg_now p"
      using kinds unfolding new list_all_iff by (auto dest: late)
    have srt: "sorted_wrt (<) (pg_now p # map (pg_now \<circ> fst) loads)"
      using Cons.prems(3) l by (simp add: comp_def)
    from Cons.IH [OF y at srt] obtain new' y' where
      "db_link_events (load_all run loads (run p v src d)) = db_link_events d @ new @ new'"
      and "link_chain y (filter (\<lambda>e. ev_external_id e = k) new') y'"
      and "list_all (\<lambda>e. ev_entity_kind e = kind) new'"
      and "map_option did (find_row key k (rows (load_all run loads (run p v src d)))) = Some y'"
      by (auto simp: new)
    then show ?case
      using chain kinds l
      by (intro exI [of _ "new @ new'"] exI [of _ y'])
        (auto simp: load_all_def link_chain_append list_all_iff)
  qed
qed

end

interpretation artist_up:
  entity_upsert run_upsert_artist artist_row_of a_mbid a_discogs_artist_id db_artists "''artist''"
  by unfold_locales
    (auto simp: run_upsert_artist_def Let_def artists_t.find_upsert_same artists_t.find_upsert_other
      dest: find_row_SomeD intro: artist_merge_all split: option.splits)

interpretation label_up:
  entity_upsert run_upsert_label label_row_of l_mbid l_discogs_label_id db_labels "''label''"
  by unfold_locales
    (auto simp: run_upsert_label_def Let_def labels_t.find_upsert_same labels_t.find_upsert_other
      dest: find_row_SomeD intro: label_merge_all split: option.splits)

interpretation release_up:
  entity_upsert run_upsert_release release_row_of r_mbid r_discogs_release_id db_releases "''release''"
  by unfold_locales
    (auto simp: run_upsert_release_def Let_def releases_t.find_upsert_same releases_t.find_upsert_other
      dest: find_row_SomeD intro: release_merge_all split: option.splits)

interpretation release_group_up:
  entity_upsert run_upsert_release_group release_group_row_of g_mbid g_discogs_master_id
    db_release_groups "''master''"
  by unfold_locales
    (auto simp: run_upsert_release_group_def Let_def groups_t.find_upsert_same groups_t.find_upsert_other
      dest: find_row_SomeD intro: release_group_merge_all split: option.splits)


section \<open>Batches\<close>

lemma run_relationship_batch:
  "run_stmts p (map (UpsertRelationship refresh) rows) d = Inr (d\<lparr>db_relationships :=
     fold (upsert_row (rel_key p) (rel_merge refresh (pg_now p))) (map (rel_row_of p) rows) (db_relationships d)\<rparr>)"
  by (induction rows arbitrary: d) simp_all

lemma run_link_batch:
  "run_stmts p (map (UpsertExternalLink refresh) rows) d = Inr (d\<lparr>db_external_links :=
     fold (upsert_row link_key (link_merge refresh (pg_now p))) (map (link_row_of p) rows) (db_external_links d)\<rparr>)"
  by (induction rows arbitrary: d) simp_all

lemma run_family_batch:
  "run_stmts p (map InsertMediaFamily names) d = Inr (d\<lparr>db_media_family :=
     fold (upsert_row id (\<lambda>present _. present)) names (db_media_family d)\<rparr>)"
  by (induction names arbitrary: d) simp_all

definition medium_row_of :: "string \<times> string \<times> string \<Rightarrow> medium_row" where
  "medium_row_of r = (case r of (m, f, l) \<Rightarrow> \<lparr>med_medium_id = m, med_family = f, med_label = l\<rparr>)"

lemma run_media_batch:
  "run_stmts p (map (\<lambda>(m, f, l). InsertMedium m f l) rows) d = Inr (d\<lparr>db_medium :=
     fold (upsert_row med_medium_id (\<lambda>present _. present)) (map medium_row_of rows) (db_medium d)\<rparr>)"
  by (induction rows arbitrary: d) (auto simp: medium_row_of_def)

definition issued_row_of :: "string \<times> string \<times> string \<times> int \<Rightarrow> issued_row" where
  "issued_row_of r = (case r of (rid, m, s, q) \<Rightarrow>
     \<lparr>iss_release_id = rid, iss_medium_id = m, iss_source = s, iss_qty = q\<rparr>)"

text \<open>The plain \<open>INSERT\<close> batch succeeds exactly when its keys are new and pairwise different.\<close>

lemma run_issued_batch:
  "run_stmts p (map (\<lambda>(r, m, s, q). InsertIssuedOn r m s q) rows) d =
     (if distinct (map (issued_key \<circ> issued_row_of) rows) \<and>
         set (map (issued_key \<circ> issued_row_of) rows) \<inter> set (map issued_key (db_issued_on d)) = {}
      then Inr (d\<lparr>db_issued_on := db_issued_on d @ map issued_row_of rows\<rparr>)
      else Inl unique_violation)"
proof (induction rows arbitrary: d)
  case Nil
  then show ?case by simp
next
  case (Cons r rows)
  obtain rid m src q where r: "r = (rid, m, src, q)" by (cases r)
  let ?r = "\<lparr>iss_release_id = rid, iss_medium_id = m, iss_source = src, iss_qty = q\<rparr>"
  have ir: "issued_row_of r = ?r" by (simp add: r issued_row_of_def)
  show ?case
  proof (cases "issued_key ?r \<in> issued_key ` set (db_issued_on d)")
    case True
    then show ?thesis by (auto simp: r issued_row_of_def Let_def)
  next
    case False
    then show ?thesis
      using Cons.IH [of "d\<lparr>db_issued_on := db_issued_on d @ [?r]\<rparr>"]
      by (auto simp: r issued_row_of_def Let_def)
  qed
qed

text \<open>The statements of \<open>replace_release_media_edges\<close>, and the range of \<open>graph.issued_on\<close> they own.\<close>

definition replace_stmts :: "string \<Rightarrow> string \<Rightarrow> (string \<times> string \<times> string \<times> int) list \<Rightarrow> stmt list" where
  "replace_stmts release_id source rows =
     LockReleaseMedia release_id source # DeleteIssuedOn release_id source
     # map (\<lambda>(r, m, s, q). InsertIssuedOn r m s q) rows"

definition in_range :: "string \<Rightarrow> string \<Rightarrow> issued_row \<Rightarrow> bool" where
  "in_range release_id source r \<longleftrightarrow> iss_release_id r = release_id \<and> iss_source r = source"

lemma replace_edges_sent:
  "replace_release_media_edges p release_id source rows s = (Inr (), s') \<Longrightarrow>
   sent p (replace_stmts release_id source rows) s s'"
  unfolding replace_release_media_edges_def replace_stmts_def lock_release_media_def
  by (elim andthen_InrE)
    (auto split: if_splits dest!: exec_Inr executemany_Inr dest: sent_trans)

lemma run_replace_stmts:
  assumes "\<And>r. r \<in> set rows \<Longrightarrow> in_range release_id source (issued_row_of r)"
    and "distinct (map (\<lambda>(_, m, _, _). m) rows)"
  shows "run_stmts p (replace_stmts release_id source rows) d = Inr (d\<lparr>db_issued_on :=
    filter (\<lambda>r. \<not> in_range release_id source r) (db_issued_on d) @ map issued_row_of rows\<rparr>)"
proof -
  have key: "(issued_key \<circ> issued_row_of) r = (\<lambda>m. (release_id, m, source)) ((\<lambda>(_, m, _, _). m) r)"
    if "r \<in> set rows" for r
    using assms(1) [OF that] by (auto simp: in_range_def issued_row_of_def issued_key_def split: prod.splits)
  then have keys: "map (issued_key \<circ> issued_row_of) rows =
      map (\<lambda>m. (release_id, m, source)) (map (\<lambda>(_, m, _, _). m) rows)"
    by simp
  have "distinct (map (issued_key \<circ> issued_row_of) rows)"
    unfolding keys distinct_map using assms(2) by (auto simp: distinct_map inj_on_def)
  moreover have "set (map (issued_key \<circ> issued_row_of) rows) \<inter> set (map issued_key
      (filter (\<lambda>r. \<not> in_range release_id source r) (db_issued_on d))) = {}"
    unfolding keys by (auto simp: issued_key_def in_range_def)
  ultimately show ?thesis
    by (simp add: replace_stmts_def run_issued_batch in_range_def del: set_map)
qed

text \<open>A database without faults accepts every statement but a duplicate plain \<open>INSERT\<close>.\<close>

definition no_faults :: "pg \<Rightarrow> bool" where
  "no_faults p \<longleftrightarrow> (\<forall>st d. pg_fault p st d = None)"

fun plain_insert :: "stmt \<Rightarrow> bool" where
  "plain_insert (InsertIssuedOn _ _ _ _) = True"
| "plain_insert _ = False"

lemma run_stmt_total: "\<not> plain_insert st \<Longrightarrow> \<exists>d'. run_stmt p st d = Inr d'"
  by (cases st) auto

lemma exec_succeeds: "no_faults p \<Longrightarrow> \<not> plain_insert st \<Longrightarrow> succeeds (exec p st)"
  unfolding succeeds_def
proof
  fix s :: "'a sess_scheme"
  assume "no_faults p" and "\<not> plain_insert st"
  then obtain d where "run_stmt p st (s_db s) = Inr d" and "pg_fault p st (s_db s) = None"
    using run_stmt_total [of st p "s_db s"] by (auto simp: no_faults_def)
  then show "\<exists>x s'. exec p st s = (Inr x, s')" by (simp add: exec_no_fault)
qed

lemma transaction_succeeds: "no_faults p \<Longrightarrow> succeeds body \<Longrightarrow> succeeds (transaction p body)"
  unfolding succeeds_def
proof
  fix s :: "'a sess_scheme"
  assume p: "no_faults p" and body: "\<forall>s. \<exists>x s'. body s = (Inr x, s')"
  from body have "succeeds body" by (simp add: succeeds_def)
  then have "succeeds (andthen (exec p Connect) (bnd body (\<lambda>x. andthen (exec p Commit) (ret x))))"
    using p by (intro succeeds_andthen succeeds_bnd exec_succeeds) auto
  then show "\<exists>x s'. transaction p body s = (Inr x, s')"
    unfolding succeeds_def transaction_def by (metis (no_types, lifting) case_prod_conv sum.simps(6))
qed

lemma executemany_succeeds:
  "no_faults p \<Longrightarrow> (\<And>r. \<not> plain_insert (st r)) \<Longrightarrow> succeeds (executemany p st rows)"
  by (auto simp: executemany_def intro: exec_succeeds)

lemma replace_edges_succeeds:
  assumes p: "no_faults p" and r: "\<And>r. r \<in> set rows \<Longrightarrow> in_range release_id source (issued_row_of r)"
    and d: "distinct (map (\<lambda>(_, m, _, _). m) rows)"
  shows "succeeds (replace_release_media_edges p release_id source rows)"
  unfolding succeeds_def
proof
  fix s :: "'a sess_scheme"
  let ?s1 = "s\<lparr>s_trace := s_trace s @ [LockReleaseMedia release_id source]\<rparr>"
  let ?del = "(s_db s)\<lparr>db_issued_on := filter (\<lambda>r. \<not> in_range release_id source r) (db_issued_on (s_db s))\<rparr>"
  let ?s2 = "s\<lparr>s_db := ?del, s_trace := s_trace s @ [LockReleaseMedia release_id source, DeleteIssuedOn release_id source]\<rparr>"
  have "exec p (LockReleaseMedia release_id source) s = (Inr (), ?s1)"
    using p by (simp add: exec_no_fault no_faults_def)
  moreover have "exec p (DeleteIssuedOn release_id source) ?s1 = (Inr (), ?s2)"
    using p by (simp add: exec_no_fault no_faults_def in_range_def)
  moreover have "\<exists>s'. (if rows = [] then ret () else executemany p (\<lambda>(r, m, s, q). InsertIssuedOn r m s q) rows) ?s2
      = (Inr (), s')"
  proof -
    from run_replace_stmts [OF r d, where p = p and d = "s_db s"]
    obtain d' where "run_stmts p (map (\<lambda>(r, m, s, q). InsertIssuedOn r m s q) rows) (s_db ?s2) = Inr d'"
      by (auto simp: replace_stmts_def in_range_def)
    from for_each_no_fault [OF _ this] p show ?thesis
      by (auto simp: executemany_def no_faults_def)
  qed
  ultimately show "\<exists>x s'. replace_release_media_edges p release_id source rows s = (Inr x, s')"
    by (auto simp: replace_release_media_edges_def lock_release_media_def)
qed

section \<open>Properties\<close>


definition empty_db :: db where
  "empty_db = \<lparr>db_artists = [], db_labels = [], db_releases = [], db_release_groups = [],
     db_relationships = [], db_external_links = [], db_link_events = [], db_media_family = [],
     db_medium = [], db_issued_on = [], db_aliases = [], db_latch = [], db_columns = []\<rparr>"

definition plain_pg :: "timestamp \<Rightarrow> pg" where
  "plain_pg now = \<lparr>pg_store = (\<lambda>_ v. v), pg_relationship_key = (\<lambda>_. ''k''), pg_now = now,
     pg_collate = (\<lambda>_. 0), pg_fault = (\<lambda>_ _. None)\<rparr>"


text \<open>
  C31.  The link ledger of all four entity kinds is faithful: over any sequence of loads in
  transactions with increasing timestamps, the events recorded for one row, read in order, lead from
  the Discogs id the row held before to the id it holds after, each event a real change of the kind it
  names (\<open>link_added\<close>, \<open>link_removed\<close>, \<open>link_changed\<close>); no event is lost, duplicated or invented.
\<close>

theorem link_ledger_faithful:
  "ledger_faithful run_upsert_artist a_mbid a_discogs_artist_id db_artists ''artist''
   \<and> ledger_faithful run_upsert_label l_mbid l_discogs_label_id db_labels ''label''
   \<and> ledger_faithful run_upsert_release r_mbid r_discogs_release_id db_releases ''release''
   \<and> ledger_faithful run_upsert_release_group g_mbid g_discogs_master_id db_release_groups ''master''"
  by (intro conjI artist_up.ledger label_up.ledger release_up.ledger release_group_up.ledger)

text \<open>
  A redelivered release records nothing: whatever row is stored, loading the same values again,
  in a later transaction and under another dump version, leaves the ledger as the first load left it,
  and the row it stores differs only in its timestamp.
\<close>

theorem release_redelivery_adds_no_event:
  "db_link_events (run_upsert_release (p\<lparr>pg_now := later\<rparr>) v src' (run_upsert_release p v src d))
     = db_link_events (run_upsert_release p v src d)
   \<and> find_row r_mbid (r_mbid (release_row_of p v))
       (db_releases (run_upsert_release (p\<lparr>pg_now := later\<rparr>) v src' (run_upsert_release p v src d)))
     = Some ((release_row_of p v)\<lparr>r_updated_at := later\<rparr>)"
proof
  show "db_link_events (run_upsert_release (p\<lparr>pg_now := later\<rparr>) v src' (run_upsert_release p v src d))
     = db_link_events (run_upsert_release p v src d)"
    by (rule release_up.redelivery_no_event) (simp_all add: release_row_of_def)
  show "find_row r_mbid (r_mbid (release_row_of p v))
       (db_releases (run_upsert_release (p\<lparr>pg_now := later\<rparr>) v src' (run_upsert_release p v src d)))
     = Some ((release_row_of p v)\<lparr>r_updated_at := later\<rparr>)"
    by (subst release_up.find_run) (simp add: release_row_of_def)
qed

end
