(* ===== verification/Record_Mapping.thy ===== *)
theory Record_Mapping
  imports Catalog_Names Persistence "HOL-Library.Multiset"
begin

text \<open>
  The pure half of \<open>_record_processing.py\<close>: how a decoded record becomes rows.  The identifier
  block rebuilt for legacy events, the media edges, the relationship and external-link rows, the
  source reference, the stored document and the alias-conflict summary.

  The medium vocabulary (\<open>common.media\<close>) and the alias derivation (\<open>common.identifiers\<close>) belong to
  the shared runtime; they are fields of the record \<open>lib\<close>.
\<close>

section \<open>The shared runtime\<close>

record lib =
  lib_repr :: "json \<Rightarrow> string"
  lib_medium_label :: "string \<Rightarrow> string option"
  lib_map_release :: "obj \<Rightarrow> exn + obj"
  lib_alias_refs :: "json \<Rightarrow> exn + alias_ref list"
  lib_resolve_aliases :: "alias_ref list \<Rightarrow> (alias_ref \<times> uuid) list
    \<Rightarrow> exn + (alias_ref \<times> uuid) list \<times> (alias_ref \<times> uuid) list"
  lib_attach_aliases :: "(alias_ref \<times> uuid) list \<Rightarrow> (alias_ref \<times> uuid) list
    \<Rightarrow> exn + (alias_ref \<times> uuid) list \<times> (alias_ref \<times> uuid) list"
  lib_monotonic :: "nat \<Rightarrow> rat"

section \<open>Alias conflict summary\<close>

definition ALIAS_CONFLICT_SUMMARY_INTERVAL_S :: rat where
  "ALIAS_CONFLICT_SUMMARY_INTERVAL_S = 60"

record alias_conflict_summary =
  acs_interval_s :: rat
  acs_pending :: "((string \<times> string) \<times> nat) list"
  acs_last_emitted :: rat

definition acs_init :: "rat \<Rightarrow> rat \<Rightarrow> alias_conflict_summary" where
  "acs_init interval_s now = \<lparr>acs_interval_s = interval_s, acs_pending = [], acs_last_emitted = now\<rparr>"

definition counter_get :: "((string \<times> string) \<times> nat) list \<Rightarrow> string \<times> string \<Rightarrow> nat" where
  "counter_get c k = (case map_of c k of None \<Rightarrow> 0 | Some n \<Rightarrow> n)"

text \<open>
  \<open>_AliasConflictSummary.add\<close>: the new summary and, when the interval has passed, the line logged:
  the total and the count per \<open>entity/identifier\<close>, in key order.
\<close>

definition acs_add ::
  "rat \<Rightarrow> string \<Rightarrow> string \<Rightarrow> alias_conflict_summary \<Rightarrow>
   alias_conflict_summary \<times> (nat \<times> (string \<times> nat) list) option" where
  "acs_add now entity identifier s =
     (let pending = AList.update (entity, identifier)
            (counter_get (acs_pending s) (entity, identifier) + 1) (acs_pending s)
      in if now - acs_last_emitted s < acs_interval_s s
         then (s\<lparr>acs_pending := pending\<rparr>, None)
         else (s\<lparr>acs_pending := [], acs_last_emitted := now\<rparr>,
               Some (sum_list (map snd pending),
                     fold (\<lambda>((e, i), n). AList.update (e @ ''/'' @ i) n)
                       (sort_key (fst \<circ> fst) (sort_key (snd \<circ> fst) pending)) [])))"

section \<open>Constants\<close>

definition RELEASE_GROUP_ENTITY_KIND :: string where
  "RELEASE_GROUP_ENTITY_KIND = ''master''"

definition UNVERSIONED_SOURCE_REF :: string where
  "UNVERSIONED_SOURCE_REF = ''unversioned''"

definition MEDIA_SOURCE :: string where
  "MEDIA_SOURCE = ''musicbrainz''"

definition MAX_MEDIUM_QUANTITY :: int where
  "MAX_MEDIUM_QUANTITY = 999999999"

definition CHILD_ROW_KEYS :: "string list" where
  "CHILD_ROW_KEYS = [''relations'', ''external_links'']"

section \<open>The identifiers block of a legacy event\<close>

definition identifier_item :: "string \<Rightarrow> string \<Rightarrow> string \<Rightarrow> json" where
  "identifier_item identifier_type val source_field = JObj
     [(''type'', JStr identifier_type),
      (''value'', JStr val),
      (''description'', JNull),
      (''source'', JObj [(''provider'', JStr ''musicbrainz''), (''type'', JNull),
                          (''field'', JStr source_field)])]"

text \<open>A string that is not blank contributes its text, unstripped.\<close>

definition nonblank :: "json \<Rightarrow> string option" where
  "nonblank v = (case v of JStr s \<Rightarrow> if strip s \<noteq> [] then Some s else None | _ \<Rightarrow> None)"

definition barcode_items :: "obj \<Rightarrow> (string \<times> string \<times> string) list" where
  "barcode_items record = (case nonblank (get_none record ''barcode'') of
     None \<Rightarrow> [] | Some b \<Rightarrow> [(''barcode'', b, ''barcode'')])"

definition catalog_item :: "json \<Rightarrow> (string \<times> string \<times> string) list" where
  "catalog_item entry = (case entry of
     JObj d \<Rightarrow> (case nonblank (get_none d ''catalog_number'') of
        None \<Rightarrow> [] | Some c \<Rightarrow> [(''catalog_number'', c, ''label-info[].catalog-number'')])
   | _ \<Rightarrow> [])"

definition catalog_items :: "obj \<Rightarrow> (string \<times> string \<times> string) list" where
  "catalog_items record = (case get_none record ''catalog_numbers'' of
     JList entries \<Rightarrow> concat (map catalog_item entries) | _ \<Rightarrow> [])"

text \<open>\<open>list(dict.fromkeys(xs))\<close>: the first occurrence of each element, in order.\<close>

fun fromkeys :: "'a list \<Rightarrow> 'a list" where
  "fromkeys [] = []"
| "fromkeys (x # xs) = x # filter (\<lambda>y. y \<noteq> x) (fromkeys xs)"

definition legacy_identifiers_block :: "obj \<Rightarrow> json option" where
  "legacy_identifiers_block record =
     (let items = barcode_items record @ catalog_items record in
      if items = [] then None
      else Some (JObj
        [(''identifiers_version'', JStr ''1''),
         (''items'', JList (map (\<lambda>(t, v, f). identifier_item t v f) items)),
         (''types'', JList (map JStr (fromkeys (map fst items)))),
         (''aliases'', JList []),
         (''unmapped'', JObj [(''types'', JList [])])]))"

section \<open>Field access\<close>

definition get_or :: "obj \<Rightarrow> string \<Rightarrow> json \<Rightarrow> json" where
  "get_or record key def = (let v = get_none record key in if v = JNull then def else v)"

definition source_ref_of :: "obj \<Rightarrow> string" where
  "source_ref_of record = (case get_none record ''dump_version'' of
     JStr s \<Rightarrow> if s \<noteq> [] then s else UNVERSIONED_SOURCE_REF | _ \<Rightarrow> UNVERSIONED_SOURCE_REF)"

definition stored_data :: "obj \<Rightarrow> json" where
  "stored_data record = JObj (filter (\<lambda>(k, _). k \<notin> set CHILD_ROW_KEYS) record)"

definition life_span :: "obj \<Rightarrow> obj" where
  "life_span record = (case get_none record ''life_span'' of JObj d \<Rightarrow> d | _ \<Rightarrow> [])"

definition record_mbid :: "obj \<Rightarrow> json" where
  "record_mbid record = get_default record ''mbid'' (get_default record ''id'' (JStr ''''))"

text \<open>\<open>_ENTITY_TYPE_ALIASES.get(entity_type, entity_type)\<close>, which hashes its argument.\<close>

definition canonical_entity_type :: "json \<Rightarrow> exn + json" where
  "canonical_entity_type t =
     (if \<not> hashable t then Inl (py_error ''TypeError'')
      else Inr (if t = JStr ''release_group'' then JStr ''release-group'' else t))"

definition canonical_name :: "string \<Rightarrow> string" where
  "canonical_name t = (if t = ''release_group'' then ''release-group'' else t)"

section \<open>Media edges\<close>

record edge_row =
  edge_medium :: string
  edge_family :: string
  edge_label :: string
  edge_qty :: int

definition medium_quantity :: "json \<Rightarrow> int" where
  "medium_quantity v = (case v of
     JInt q \<Rightarrow> if 1 \<le> q \<and> q \<le> MAX_MEDIUM_QUANTITY then q else 1 | _ \<Rightarrow> 1)"

definition medium_label :: "lib \<Rightarrow> string \<Rightarrow> string" where
  "medium_label l medium_id = (case lib_medium_label l medium_id of None \<Rightarrow> medium_id | Some t \<Rightarrow> t)"

text \<open>The medium, family and quantity an item contributes, if it contributes any.\<close>

definition media_entry :: "json \<Rightarrow> (string \<times> string \<times> int) option" where
  "media_entry item = (case item of
     JObj d \<Rightarrow> (case get_none d ''medium'' of
       JStr m \<Rightarrow> (case get_none d ''family'' of
         JStr f \<Rightarrow> if m = [] \<or> f = [] then None else Some (m, f, medium_quantity (get_none d ''qty''))
       | _ \<Rightarrow> None)
     | _ \<Rightarrow> None)
   | _ \<Rightarrow> None)"

definition edge_merge :: "edge_row \<Rightarrow> edge_row \<Rightarrow> edge_row" where
  "edge_merge row new = row\<lparr>edge_qty := edge_qty row + edge_qty new\<rparr>"

definition edge_step :: "lib \<Rightarrow> json \<Rightarrow> edge_row list \<Rightarrow> edge_row list" where
  "edge_step l item rows = (case media_entry item of
     None \<Rightarrow> rows
   | Some (m, f, q) \<Rightarrow> upsert_row edge_medium edge_merge
       \<lparr>edge_medium = m, edge_family = f, edge_label = medium_label l m, edge_qty = q\<rparr> rows)"

definition media_edge_rows :: "lib \<Rightarrow> obj \<Rightarrow> exn + edge_row list" where
  "media_edge_rows l media =
     rbind (py_iter (py_or (get_none media ''items'') (JList [])))
       (\<lambda>items. Inr (sort_key edge_medium (fold (edge_step l) items [])))"

section \<open>Child rows\<close>

definition relationship_entry :: "json \<Rightarrow> json \<Rightarrow> json \<Rightarrow> exn + rel_params option" where
  "relationship_entry source_mbid source_type entry =
     rbind (as_dict entry) (\<lambda>r.
       if \<not> (truthy (get_none r ''target_mbid'') \<and> truthy (get_none r ''target_type'')
             \<and> truthy (get_none r ''type'')) then Inr None
       else rbind (canonical_entity_type (get_none r ''target_type'')) (\<lambda>target_type.
         let backward = (get_none r ''direction'' = JStr ''backward'');
             target_mbid = get_none r ''target_mbid''
         in Inr (Some \<lparr>
           rel_source_mbid = (if backward then target_mbid else source_mbid),
           rel_source_entity_type = (if backward then target_type else source_type),
           rel_target_mbid = (if backward then source_mbid else target_mbid),
           rel_target_entity_type = (if backward then source_type else target_type),
           rel_relationship_type = get_default r ''type'' (JStr ''''),
           rel_attributes = get_or r ''attributes'' (JList []),
           rel_begin_date = get_none r ''begin_date'',
           rel_end_date = get_none r ''end_date'',
           rel_ended = get_or r ''ended'' (JBool False)\<rparr>)))"

definition relationship_rows :: "json \<Rightarrow> json \<Rightarrow> json \<Rightarrow> exn + rel_params list" where
  "relationship_rows source_mbid source_type relationships =
     rbind (py_iter relationships) (\<lambda>rs.
       rbind (rmap (relationship_entry source_mbid source_type) rs)
         (\<lambda>os. Inr (List.map_filter id os)))"

definition external_link_entry :: "json \<Rightarrow> json \<Rightarrow> json \<Rightarrow> exn + link_params option" where
  "external_link_entry mbid entity_type entry =
     rbind (as_dict entry) (\<lambda>link.
       Inr (if truthy (get_none link ''url'') \<and> truthy (get_none link ''service'')
            then Some \<lparr>link_mbid = mbid, link_entity_type = entity_type,
                       link_url = get_default link ''url'' (JStr ''''),
                       link_service_name = get_default link ''service'' (JStr '''')\<rparr>
            else None))"

definition external_link_rows :: "json \<Rightarrow> json \<Rightarrow> json \<Rightarrow> exn + link_params list" where
  "external_link_rows mbid entity_type links =
     rbind (py_iter links) (\<lambda>ls.
       rbind (rmap (external_link_entry mbid entity_type) ls)
         (\<lambda>os. Inr (List.map_filter id os)))"

section \<open>Entity values\<close>

definition artist_values_of :: "obj \<Rightarrow> uuid option \<Rightarrow> artist_values" where
  "artist_values_of record gm_item_id =
     (let span = life_span record in \<lparr>
       a_mbid = record_mbid record,
       a_name = get_default record ''name'' (JStr ''''),
       a_sort_name = get_default record ''sort_name'' (JStr ''''),
       a_type = get_default record ''mb_type'' (JStr ''''),
       a_gender = get_default record ''gender'' (JStr ''''),
       a_begin_date = get_or record ''begin_date'' (get_none span ''begin''),
       a_end_date = get_or record ''end_date'' (get_none span ''end''),
       a_ended = get_or record ''ended'' (get_or span ''ended'' (JBool False)),
       a_area = get_default record ''area'' (JStr ''''),
       a_begin_area = get_default record ''begin_area'' (JStr ''''),
       a_end_area = get_default record ''end_area'' (JStr ''''),
       a_disambiguation = get_default record ''disambiguation'' (JStr ''''),
       a_discogs_artist_id = get_none record ''discogs_artist_id'',
       a_aliases = get_or record ''aliases'' (JList []),
       a_tags = get_or record ''tags'' (JList []),
       a_data = stored_data record,
       a_gm_item_id = gm_item_id\<rparr>)"

definition label_values_of :: "obj \<Rightarrow> uuid option \<Rightarrow> label_values" where
  "label_values_of record gm_item_id =
     (let span = life_span record in \<lparr>
       l_mbid = record_mbid record,
       l_name = get_default record ''name'' (JStr ''''),
       l_type = get_default record ''mb_type'' (JStr ''''),
       l_label_code = get_none record ''label_code'',
       l_begin_date = get_or record ''begin_date'' (get_none span ''begin''),
       l_end_date = get_or record ''end_date'' (get_none span ''end''),
       l_ended = get_or record ''ended'' (get_or span ''ended'' (JBool False)),
       l_area = get_default record ''area'' (JStr ''''),
       l_disambiguation = get_default record ''disambiguation'' (JStr ''''),
       l_discogs_label_id = get_none record ''discogs_label_id'',
       l_data = stored_data record,
       l_gm_item_id = gm_item_id\<rparr>)"

definition release_values_of :: "obj \<Rightarrow> obj \<Rightarrow> uuid option \<Rightarrow> release_values" where
  "release_values_of record media gm_item_id = \<lparr>
       r_mbid = record_mbid record,
       r_name = get_default record ''name'' (JStr ''''),
       r_barcode = get_none record ''barcode'',
       r_status = get_default record ''status'' (JStr ''''),
       r_release_group_mbid = get_none record ''release_group_mbid'',
       r_discogs_release_id = get_none record ''discogs_release_id'',
       r_media = JObj media,
       r_data = stored_data record,
       r_gm_item_id = gm_item_id\<rparr>"

definition release_group_values_of :: "obj \<Rightarrow> uuid option \<Rightarrow> release_group_values" where
  "release_group_values_of record gm_item_id = \<lparr>
       g_mbid = record_mbid record,
       g_name = get_default record ''name'' (JStr ''''),
       g_type = get_default record ''mb_type'' (JStr ''''),
       g_secondary_types = get_or record ''secondary_types'' (JList []),
       g_first_release_date = get_none record ''first_release_date'',
       g_disambiguation = get_default record ''disambiguation'' (JStr ''''),
       g_discogs_master_id = get_none record ''discogs_master_id'',
       g_data = stored_data record,
       g_gm_item_id = gm_item_id\<rparr>"

definition release_media_block :: "lib \<Rightarrow> obj \<Rightarrow> exn + obj" where
  "release_media_block l record = (case get_none record ''media'' of
     JObj media \<Rightarrow> Inr media
   | _ \<Rightarrow> lib_map_release l
       [(''media'', py_or (get_none record ''media_raw'') (JList [])),
        (''status'', get_none record ''status''),
        (''packaging'', get_none record ''packaging''),
        (''release_group'', get_none record ''release_group'')])"

section \<open>Media edges: the reference grouping\<close>

text \<open>
  The \<open>GROUP BY medium ... SUM(qty)\<close> the schema's \<open>issued_on\<close> body runs over the same entries: one
  row per medium in order, the family of the first entry, the quantities added.
\<close>

definition qty_of :: "string \<Rightarrow> (string \<times> string \<times> int) list \<Rightarrow> int" where
  "qty_of m es = sum_list (map (snd \<circ> snd) (filter (\<lambda>e. fst e = m) es))"

definition family_of :: "string \<Rightarrow> (string \<times> string \<times> int) list \<Rightarrow> string" where
  "family_of m es = (case find (\<lambda>e. fst e = m) es of None \<Rightarrow> [] | Some e \<Rightarrow> fst (snd e))"

definition grouped_row :: "lib \<Rightarrow> (string \<times> string \<times> int) list \<Rightarrow> string \<Rightarrow> edge_row" where
  "grouped_row l es m = \<lparr>edge_medium = m, edge_family = family_of m es,
     edge_label = medium_label l m, edge_qty = qty_of m es\<rparr>"

definition group_by_medium :: "lib \<Rightarrow> (string \<times> string \<times> int) list \<Rightarrow> edge_row list" where
  "group_by_medium l es = map (grouped_row l es) (sorted_distinct (map fst es))"

section \<open>Lemmas on media edges\<close>

interpretation edges_t: keyed_table edge_medium edge_merge
  by unfold_locales (simp add: edge_merge_def)

lemma qty_of_snoc: "qty_of m (es @ [(m', f, q)]) = qty_of m es + (if m' = m then q else 0)"
  by (simp add: qty_of_def)

lemma find_append: "find P (xs @ ys) = (case find P xs of None \<Rightarrow> find P ys | Some x \<Rightarrow> Some x)"
  by (induction xs) auto

lemma family_of_snoc: "family_of m (es @ [(m', f, q)]) =
    (if m \<in> fst ` set es then family_of m es else if m' = m then f else [])"
proof (cases "find (\<lambda>e. fst e = m) es")
  case None
  then have "m \<notin> fst ` set es" by (auto simp: find_None_iff)
  with None show ?thesis by (simp add: family_of_def find_append)
next
  case (Some e)
  then have "m \<in> fst ` set es" by (auto simp: find_Some_iff)
  with Some show ?thesis by (simp add: family_of_def find_append)
qed

lemma map_filter_snoc:
  "List.map_filter f (xs @ [x]) = List.map_filter f xs @ (case f x of None \<Rightarrow> [] | Some y \<Rightarrow> [y])"
  by (auto simp: List.map_filter_def split: option.splits)

lemma find_fold_edge_step:
  "find_row edge_medium m (fold (edge_step l) items []) =
     (let es = List.map_filter media_entry items in
      if m \<in> fst ` set es then Some (grouped_row l es m) else None)"
proof (induction items rule: rev_induct)
  case Nil
  then show ?case by (simp add: List.map_filter_def)
next
  case (snoc x xs)
  show ?case
  proof (cases "media_entry x")
    case None
    with snoc show ?thesis by (simp add: edge_step_def map_filter_snoc)
  next
    case (Some e)
    obtain m' f q where e: "e = (m', f, q)" by (cases e)
    let ?es = "List.map_filter media_entry xs" and ?t = "fold (edge_step l) xs []"
    let ?n = "\<lparr>edge_medium = m', edge_family = f, edge_label = medium_label l m', edge_qty = q\<rparr>"
    have step: "edge_step l x ?t = upsert_row edge_medium edge_merge ?n ?t"
      using Some e by (simp add: edge_step_def)
    have es: "List.map_filter media_entry (xs @ [x]) = ?es @ [(m', f, q)]"
      using Some e by (simp add: map_filter_snoc)
    show ?thesis
    proof (cases "m = m'")
      case False
      then have "find_row edge_medium m (upsert_row edge_medium edge_merge ?n ?t) = find_row edge_medium m ?t"
        by (simp add: edges_t.find_upsert_other)
      with False snoc show ?thesis
        by (auto simp: step es grouped_row_def qty_of_snoc family_of_snoc Let_def)
    next
      case True
      then have "find_row edge_medium m (upsert_row edge_medium edge_merge ?n ?t) =
          Some (case find_row edge_medium m ?t of None \<Rightarrow> ?n | Some r \<Rightarrow> edge_merge r ?n)"
        using edges_t.find_upsert_same [of ?n ?t] by simp
      moreover have "qty_of m ?es = 0" if "m \<notin> fst ` set ?es"
      proof -
        from that have "filter (\<lambda>e. fst e = m) ?es = []" by (auto simp: filter_empty_conv)
        then show ?thesis by (simp add: qty_of_def)
      qed
      ultimately show ?thesis using snoc True
        by (auto simp: step es grouped_row_def edge_merge_def qty_of_snoc family_of_snoc Let_def)
    qed
  qed
qed

lemma keyed_fold_edge_step: "keyed edge_medium t \<Longrightarrow> keyed edge_medium (fold (edge_step l) items t)"
  by (induction items arbitrary: t) (auto simp: edge_step_def edges_t.keyed_upsert split: option.splits)

lemma sort_key_keyed:
  assumes "keyed key t"
  shows "sort_key key t = map (\<lambda>k. the (find_row key k t)) (sort (map key t))"
proof -
  have "sort (map key t) = map key (sort_key key t)"
    by (rule properties_for_sort) simp_all
  moreover have "map (\<lambda>k. the (find_row key k t)) (map key (sort_key key t)) = sort_key key t"
    using assms by (auto simp: find_row_keyed intro!: map_idI)
  ultimately show ?thesis by simp
qed

lemma media_edge_rows_group_by:
  "media_edge_rows l media =
     rbind (py_iter (py_or (get_none media ''items'') (JList [])))
       (\<lambda>items. Inr (group_by_medium l (List.map_filter media_entry items)))"
proof -
  have "sort_key edge_medium (fold (edge_step l) items []) =
      group_by_medium l (List.map_filter media_entry items)" for items
  proof -
    let ?t = "fold (edge_step l) items []" and ?es = "List.map_filter media_entry items"
    have keyed: "keyed edge_medium ?t"
      by (rule keyed_fold_edge_step) (simp add: keyed_def)
    then have dist: "distinct (map edge_medium ?t)" by (simp only: keyed_def)
    have media: "set (map edge_medium ?t) = fst ` set ?es"
    proof (intro set_eqI)
      fix m
      have "m \<in> set (map edge_medium ?t) \<longleftrightarrow> find_row edge_medium m ?t \<noteq> None"
        by (simp add: find_row_None_iff)
      then show "m \<in> set (map edge_medium ?t) \<longleftrightarrow> m \<in> fst ` set ?es"
        by (simp add: find_fold_edge_step Let_def)
    qed
    then have "sort (map edge_medium ?t) = sorted_distinct (map fst ?es)"
      by (intro sorted_distinct_set_unique) (simp_all add: dist)
    moreover have "the (find_row edge_medium m ?t) = grouped_row l ?es m"
      if "m \<in> set (sorted_distinct (map fst ?es))" for m
      using that by (simp add: find_fold_edge_step Let_def)
    ultimately show ?thesis
      by (simp add: sort_key_keyed [OF keyed] group_by_medium_def)
  qed
  then show ?thesis by (simp add: media_edge_rows_def)
qed

lemma media_edge_rows_media_distinct:
  "media_edge_rows l media = Inr rows \<Longrightarrow> distinct (map edge_medium rows)"
  by (auto simp: media_edge_rows_group_by group_by_medium_def grouped_row_def comp_def)

lemma media_edge_rows_qty_pos:
  assumes "media_edge_rows l media = Inr rows" and "r \<in> set rows"
  shows "1 \<le> edge_qty r"
proof -
  have pos: "1 \<le> q" if "media_entry i = Some (m, f, q)" for i m f q
    using that by (auto simp: media_entry_def medium_quantity_def split: json.splits if_splits)
  from assms(1) obtain items where
    rows: "rows = group_by_medium l (List.map_filter media_entry items)"
    by (auto simp: media_edge_rows_group_by)
  define es where es: "es = List.map_filter media_entry items"
  from assms(2) obtain m where r: "r = grouped_row l es m" and m: "m \<in> fst ` set es"
    unfolding rows group_by_medium_def es by auto
  have ge: "1 \<le> snd (snd e)" if "e \<in> set es" for e
  proof -
    from that obtain i where "media_entry i = Some (fst e, fst (snd e), snd (snd e))"
      by (auto simp: es mem_map_filter)
    then show ?thesis by (rule pos)
  qed
  let ?qs = "map (snd \<circ> snd) (filter (\<lambda>e. fst e = m) es)"
  from m obtain e where e: "e \<in> set (filter (\<lambda>e. fst e = m) es)" by auto
  have "0 \<le> q" if "q \<in> set ?qs" for q
  proof -
    from that obtain e' where "e' \<in> set es" and "q = snd (snd e')" by auto
    with ge [of e'] show ?thesis by simp
  qed
  moreover have "snd (snd e) \<in> set ?qs" using e by (simp add: rev_image_eqI)
  ultimately have "snd (snd e) \<le> sum_list ?qs" by (intro member_le_sum_list)
  moreover have "1 \<le> snd (snd e)" using e by (intro ge) simp
  ultimately show ?thesis by (simp add: r grouped_row_def qty_of_def)
qed

section \<open>Properties of the mapping\<close>

text \<open>
  C32.  The media rows written to \<open>graph.issued_on\<close> are exactly the schema's own grouping of the stored
  block: for any media block, iterating its items and accumulating (or refusing to iterate) gives the
  rows, in medium order, of \<open>GROUP BY medium\<close> with the quantities summed over the entries that name a
  medium and a family.
\<close>

theorem media_edge_rows_is_group_by:
  "media_edge_rows l media =
     rbind (py_iter (py_or (get_none media ''items'') (JList [])))
       (\<lambda>items. Inr (group_by_medium l (List.map_filter media_entry items)))"
  by (rule media_edge_rows_group_by)

text \<open>
  C33.  A quantity of a media row is never below one and a single entry's quantity is at most nine
  digits, whatever the producer put in the field, so no entry alone overflows the \<open>bigint\<close> column.
\<close>

theorem medium_quantity_bounds:
  "1 \<le> medium_quantity v \<and> medium_quantity v \<le> 999999999 \<and>
   (medium_quantity v \<noteq> 1 \<longrightarrow> v = JInt (medium_quantity v))"
  by (auto simp: medium_quantity_def MAX_MEDIUM_QUANTITY_def split: json.splits)

theorem medium_quantity_bounds_witness:
  "medium_quantity (JInt 7) = 7 \<and> medium_quantity (JInt 1000000000) = 1 \<and>
   JInt 7 = JInt (medium_quantity (JInt 7))"
  using medium_quantity_bounds [of "JInt 7"]
  by (simp add: medium_quantity_def MAX_MEDIUM_QUANTITY_def)

text \<open>The entry the other endpoint's message carries for the same relationship.\<close>

definition mirror_entry :: "json \<Rightarrow> json \<Rightarrow> obj \<Rightarrow> obj" where
  "mirror_entry mbid entity_type r =
     AList.update ''direction''
       (if get_none r ''direction'' = JStr ''backward'' then JStr ''forward'' else JStr ''backward'')
       (AList.update ''target_type'' entity_type (AList.update ''target_mbid'' mbid r))"

lemma get_default_update:
  "get_default (AList.update k v d) k' def = (if k' = k then v else get_default d k' def)"
  by (simp add: get_default_def update_conv')

lemma get_none_update: "get_none (AList.update k v d) k' = (if k' = k then v else get_none d k')"
  by (simp add: get_none_def get_default_update)

lemma get_or_update: "k' \<noteq> k \<Longrightarrow> get_or (AList.update k v d) k' def = get_or d k' def"
  by (simp add: get_or_def get_none_update)

text \<open>
  C37.  Both endpoints of a relationship produce one canonical row.  If a record of entity
  \<open>source_mbid\<close> yields a row for an entry, then the record of the entry's target, naming the same
  relationship from its own side with the direction reversed, yields the identical row.
\<close>

theorem relationship_endpoints_agree:
  assumes "relationship_entry source_mbid source_type (JObj r) = Inr (Some row)"
    and "canonical_entity_type (get_none r ''target_type'') = Inr target_type"
    and "truthy source_mbid" and "truthy source_type"
    and "canonical_entity_type source_type = Inr source_type"
  shows "relationship_entry (get_none r ''target_mbid'') target_type
           (JObj (mirror_entry source_mbid source_type r)) = Inr (Some row)"
proof -
  from assms(1,2) have "truthy (get_none r ''type'')"
    by (auto simp: relationship_entry_def split: if_splits)
  with assms show ?thesis
    by (auto simp: relationship_entry_def mirror_entry_def get_none_update get_default_update
        get_or_update Let_def split: if_splits)
qed

theorem relationship_endpoints_agree_witness:
  "relationship_entry (JStr ''b'') (JStr ''release-group'')
     (JObj (mirror_entry (JStr ''a'') (JStr ''artist'')
        [(''target_mbid'', JStr ''b''), (''target_type'', JStr ''release_group''), (''type'', JStr ''producer'')]))
   = relationship_entry (JStr ''a'') (JStr ''artist'')
     (JObj [(''target_mbid'', JStr ''b''), (''target_type'', JStr ''release_group''), (''type'', JStr ''producer'')])"
proof -
  let ?r = "[(''target_mbid'', JStr ''b''), (''target_type'', JStr ''release_group''),
    (''type'', JStr ''producer'')]"
  obtain row where row: "relationship_entry (JStr ''a'') (JStr ''artist'') (JObj ?r) = Inr (Some row)"
    by (simp add: relationship_entry_def canonical_entity_type_def Let_def)
  have "relationship_entry (get_none ?r ''target_mbid'') (JStr ''release-group'')
      (JObj (mirror_entry (JStr ''a'') (JStr ''artist'') ?r)) = Inr (Some row)"
    by (rule relationship_endpoints_agree [OF row]) (simp_all add: canonical_entity_type_def)
  with row show ?thesis by simp
qed

text \<open>Adding conflicts one after another, at the times they occur; the emitted summaries are kept.\<close>

fun acs_run :: "(rat \<times> string \<times> string) list \<Rightarrow> alias_conflict_summary
    \<Rightarrow> alias_conflict_summary \<times> (rat \<times> nat) list" where
  "acs_run [] s = (s, [])"
| "acs_run ((now, e, i) # adds) s =
     (let (s', line) = acs_add now e i s; (s'', lines) = acs_run adds s'
      in (s'', (case line of None \<Rightarrow> [] | Some (n, _) \<Rightarrow> [(now, n)]) @ lines))"

lemma sum_update_counter:
  "sum_list (map snd (AList.update k (counter_get c k + 1) c)) = sum_list (map snd c) + 1"
  by (induction c) (auto simp: counter_get_def)

text \<open>
  The conflict log is rate limited without losing a conflict: over any run of additions the
  totals of the emitted lines and the conflicts still pending add up to the conflicts added, and two
  consecutive lines (and the first line and the start) are at least the interval apart.
\<close>

theorem alias_conflict_summary_counts:
  "case acs_run adds s of (s', lines) \<Rightarrow>
     sum_list (map snd lines) + sum_list (map snd (acs_pending s'))
       = sum_list (map snd (acs_pending s)) + length adds
     \<and> successively (\<lambda>t t'. acs_interval_s s \<le> t' - t) (acs_last_emitted s # map fst lines)"
proof (induction adds s rule: acs_run.induct)
  case (1 s)
  then show ?case by simp
next
  case (2 now e i adds s)
  obtain s1 line where add: "acs_add now e i s = (s1, line)" by fastforce
  obtain s2 lines where run: "acs_run adds s1 = (s2, lines)" by fastforce
  have interval: "acs_interval_s s1 = acs_interval_s s"
    using add by (auto simp: acs_add_def Let_def split: if_splits)
  from 2 [OF add [symmetric] refl] run interval
  have IH: "sum_list (map snd lines) + sum_list (map snd (acs_pending s2))
      = sum_list (map snd (acs_pending s1)) + length adds"
    "successively (\<lambda>t t'. acs_interval_s s \<le> t' - t) (acs_last_emitted s1 # map fst lines)"
    by auto
  show ?case
  proof (cases line)
    case None
    with add have "s1 = s\<lparr>acs_pending :=
        AList.update (e, i) (counter_get (acs_pending s) (e, i) + 1) (acs_pending s)\<rparr>"
      by (auto simp: acs_add_def Let_def split: if_splits)
    with IH None show ?thesis
      using add run by (simp add: sum_update_counter del: One_nat_def add_Suc_right add_Suc)
  next
    case (Some l)
    then obtain n by_kind where l: "line = Some (n, by_kind)" by (cases l) auto
    with add have "n = sum_list (map snd (acs_pending s)) + 1" and "acs_pending s1 = []"
      and "acs_last_emitted s1 = now" and "acs_interval_s s \<le> now - acs_last_emitted s"
      by (auto simp: acs_add_def Let_def sum_update_counter split: if_splits
          simp del: One_nat_def add_Suc_right add_Suc)
    with IH l show ?thesis using add run by simp
  qed
qed

text \<open>
  C24.  The document stored in an entity's \<open>data\<close> column is the record without the two keys that have
  tables of their own, and nothing else is lost or changed.
\<close>

theorem stored_data_lookup:
  "\<exists>d. stored_data record = JObj d \<and>
     (\<forall>k. map_of d k = (if k = ''relations'' \<or> k = ''external_links'' then None else map_of record k))"
proof -
  have "map_of (filter (\<lambda>(k, _). k \<notin> set CHILD_ROW_KEYS) record) k =
      (if k = ''relations'' \<or> k = ''external_links'' then None else map_of record k)" for k
    by (induction "record") (auto simp: CHILD_ROW_KEYS_def)
  then show ?thesis by (auto simp: stored_data_def)
qed

lemma set_fromkeys [simp]: "set (fromkeys xs) = set xs"
  by (induction xs) auto

lemma distinct_fromkeys [simp]: "distinct (fromkeys xs)"
  by (induction xs) auto

end
