(* ===== verification/Record_Processing.thy ===== *)
theory Record_Processing
  imports Record_Mapping
begin

text \<open>
  \<open>MusicBrainzRecordProcessor\<close>: the effectful half of \<open>_record_processing.py\<close>.  Each \<open>process_*\<close> runs
  on a session inside the message's transaction.  The session carries the tables and the
  statements sent, what the batch observer was told, and the processor's conflict summary.

  \<open>conn.pipeline()\<close> only batches round trips: a failing statement still ends the block with its
  error and the transaction still rolls back, so it does not appear.
\<close>

section \<open>Sessions of the processor\<close>

datatype observation =
    ObsBatch string nat string
  | ObsOutcome string
  | ObsAliasConflict string string
  | LogConflictSummary nat

record psess = sess +
  p_obs :: "observation list"
  p_conflicts :: alias_conflict_summary
  p_ticks :: nat

record env =
  e_pg :: pg
  e_writer :: writer
  e_lib :: lib

definition observe :: "observation \<Rightarrow> ('z psess_scheme, unit) eff" where
  "observe ob = modify (\<lambda>s. s\<lparr>p_obs := p_obs s @ [ob]\<rparr>)"

text \<open>\<open>resolve_aliases\<close> and \<open>attach_aliases\<close> run on the message's connection: they see and change the
  alias table of the open transaction.\<close>

definition resolve_aliases :: "env \<Rightarrow> alias_ref list \<Rightarrow> ('z psess_scheme, (alias_ref \<times> uuid) list) eff" where
  "resolve_aliases e refs s =
     (case lib_resolve_aliases (e_lib e) refs (db_aliases (s_db s)) of
        Inl x \<Rightarrow> (Inl x, s)
      | Inr (found, store) \<Rightarrow> (Inr found, s\<lparr>s_db := (s_db s)\<lparr>db_aliases := store\<rparr>\<rparr>))"

definition attach_aliases ::
  "env \<Rightarrow> (alias_ref \<times> uuid) list \<Rightarrow> ('z psess_scheme, (alias_ref \<times> uuid) list) eff" where
  "attach_aliases e refs s =
     (case lib_attach_aliases (e_lib e) refs (db_aliases (s_db s)) of
        Inl x \<Rightarrow> (Inl x, s)
      | Inr (attached, store) \<Rightarrow> (Inr attached, s\<lparr>s_db := (s_db s)\<lparr>db_aliases := store\<rparr>\<rparr>))"

section \<open>Child-row batches\<close>

text \<open>The common tail of both batch methods: skip, or write and report the outcome.\<close>

definition flush_batch :: "string \<Rightarrow> nat \<Rightarrow> ('z psess_scheme, unit) eff \<Rightarrow> ('z psess_scheme, unit) eff" where
  "flush_batch entity n write =
     (if n = 0 then andthen (observe (ObsBatch entity 0 ''skipped'')) (observe (ObsOutcome ''skipped''))
      else andthen
        (try_catch write (\<lambda>x. andthen (observe (ObsBatch entity n ''failed''))
           (andthen (observe (ObsOutcome ''failed'')) (raise x))))
        (andthen (observe (ObsBatch entity n ''processed'')) (observe (ObsOutcome ''processed''))))"

definition insert_relationships :: "env \<Rightarrow> json \<Rightarrow> string \<Rightarrow> json \<Rightarrow> ('z psess_scheme, unit) eff" where
  "insert_relationships e source_mbid source_type relationships =
     bnd (of_result (relationship_rows source_mbid (JStr (canonical_name source_type)) relationships))
       (\<lambda>rows. flush_batch (canonical_name source_type) (length rows)
          (writer_insert_relationships (e_pg e) (e_writer e) rows))"

definition insert_external_links :: "env \<Rightarrow> json \<Rightarrow> string \<Rightarrow> json \<Rightarrow> ('z psess_scheme, unit) eff" where
  "insert_external_links e mbid entity_type links =
     bnd (of_result (external_link_rows mbid (JStr entity_type) links))
       (\<lambda>rows. flush_batch (canonical_name entity_type) (length rows)
          (writer_insert_external_links (e_pg e) (e_writer e) rows))"

section \<open>Native identity\<close>

text \<open>\<open>d.get(ref)\<close> hashes the reference, and with it the external id.\<close>

definition alias_get :: "(alias_ref \<times> uuid) list \<Rightarrow> alias_ref \<Rightarrow> exn + uuid option" where
  "alias_get d ref =
     (if hashable (ref_external_id ref) then Inr (map_of d ref) else Inl (py_error ''TypeError''))"

definition resolve_own :: "env \<Rightarrow> alias_ref \<Rightarrow> ('z psess_scheme, uuid option) eff" where
  "resolve_own e ref = bnd (resolve_aliases e [ref]) (\<lambda>found. of_result (alias_get found ref))"

definition native_id :: "env \<Rightarrow> string \<Rightarrow> json \<Rightarrow> json \<Rightarrow> ('z psess_scheme, uuid option) eff" where
  "native_id e entity_kind mbid discogs_id =
     (if \<not> truthy mbid then ret None
      else let mb_ref = \<lparr>ref_provider = ''musicbrainz'', ref_entity_kind = entity_kind,
                         ref_external_id = mbid\<rparr> in
        if truthy discogs_id
        then let discogs_ref = \<lparr>ref_provider = ''discogs'', ref_entity_kind = entity_kind,
                   ref_external_id = JStr (py_str (lib_repr (e_lib e)) discogs_id)\<rparr> in
          bnd (resolve_own e discogs_ref) (\<lambda>found.
            case found of
              None \<Rightarrow> resolve_own e mb_ref
            | Some nid \<Rightarrow>
                if \<not> hashable mbid then raise (py_error ''TypeError'')
                else bnd (attach_aliases e [(mb_ref, nid)]) (\<lambda>attached.
                  ret (Some (case map_of attached mb_ref of None \<Rightarrow> nid | Some n \<Rightarrow> n))))
        else resolve_own e mb_ref)"

text \<open>One conflicting reference: the metric and the summary, which reads the monotonic clock.\<close>

definition report_conflict :: "env \<Rightarrow> alias_ref \<Rightarrow> ('z psess_scheme, unit) eff" where
  "report_conflict e ref =
     andthen (observe (ObsAliasConflict (ref_entity_kind ref) (ref_provider ref)))
     (bnd get_state (\<lambda>s.
       let (c, line) = acs_add (lib_monotonic (e_lib e) (p_ticks s)) (ref_entity_kind ref)
             (ref_provider ref) (p_conflicts s)
       in andthen (modify (\<lambda>s. s\<lparr>p_conflicts := c, p_ticks := Suc (p_ticks s)\<rparr>))
            (case line of None \<Rightarrow> ret () | Some (n, _) \<Rightarrow> observe (LogConflictSummary n))))"

definition attach_refs :: "env \<Rightarrow> alias_ref list \<Rightarrow> uuid \<Rightarrow> ('z psess_scheme, unit) eff" where
  "attach_refs e refs nid =
     (if refs = [] then ret ()
      else bnd (attach_aliases e (map (\<lambda>ref. (ref, nid)) (fromkeys refs))) (\<lambda>attached.
        for_each (report_conflict e) (map fst (filter (\<lambda>(_, resolved). resolved \<noteq> nid) attached))))"

definition attach_identifier_aliases :: "env \<Rightarrow> obj \<Rightarrow> uuid option \<Rightarrow> ('z psess_scheme, unit) eff" where
  "attach_identifier_aliases e record nid_opt = (case nid_opt of
     None \<Rightarrow> ret ()
   | Some nid \<Rightarrow>
       (case map_of record ''identifiers'' of
          Some block \<Rightarrow> bnd (of_result (lib_alias_refs (e_lib e) block)) (\<lambda>refs. attach_refs e refs nid)
        | None \<Rightarrow>
           (case legacy_identifiers_block record of
              None \<Rightarrow> ret ()
            | Some block \<Rightarrow> bnd (of_result (lib_alias_refs (e_lib e) block)) (\<lambda>refs. attach_refs e refs nid))))"

section \<open>Release media\<close>

definition media_release_key :: "env \<Rightarrow> obj \<Rightarrow> string option" where
  "media_release_key e record =
     (let v = get_none record ''discogs_release_id'' in
      if v = JNull then None else Some (py_str (lib_repr (e_lib e)) v))"

definition write_release_media :: "env \<Rightarrow> obj \<Rightarrow> obj \<Rightarrow> ('z psess_scheme, bool) eff" where
  "write_release_media e record media = (case media_release_key e record of
     None \<Rightarrow> ret False
   | Some release_id \<Rightarrow>
       bnd (of_result (media_edge_rows (e_lib e) media)) (\<lambda>rows.
         andthen (upsert_media_families (e_pg e) (sorted_distinct (map edge_family rows)))
         (andthen (upsert_media (e_pg e) (map (\<lambda>r. (edge_medium r, edge_family r, edge_label r)) rows))
         (andthen (replace_release_media_edges (e_pg e) release_id MEDIA_SOURCE
             (map (\<lambda>r. (release_id, edge_medium r, MEDIA_SOURCE, edge_qty r)) rows))
           (ret True)))))"

section \<open>The four processors\<close>

definition process_artist :: "env \<Rightarrow> obj \<Rightarrow> ('z psess_scheme, unit) eff" where
  "process_artist e record =
     (let mbid = record_mbid record in
      bnd (native_id e ''artist'' mbid (get_none record ''discogs_artist_id'')) (\<lambda>gm_item_id.
        andthen (upsert_artist (e_pg e) (artist_values_of record gm_item_id) (source_ref_of record))
        (andthen (insert_relationships e mbid ''artist'' (get_default record ''relations'' (JList [])))
          (insert_external_links e mbid ''artist'' (get_default record ''external_links'' (JList []))))))"

definition process_label :: "env \<Rightarrow> obj \<Rightarrow> ('z psess_scheme, unit) eff" where
  "process_label e record =
     (let mbid = record_mbid record in
      bnd (native_id e ''label'' mbid (get_none record ''discogs_label_id'')) (\<lambda>gm_item_id.
        andthen (upsert_label (e_pg e) (label_values_of record gm_item_id) (source_ref_of record))
        (andthen (insert_relationships e mbid ''label'' (get_default record ''relations'' (JList [])))
          (insert_external_links e mbid ''label'' (get_default record ''external_links'' (JList []))))))"

definition process_release :: "env \<Rightarrow> obj \<Rightarrow> ('z psess_scheme, unit) eff" where
  "process_release e record =
     (let mbid = record_mbid record in
      andthen (case media_release_key e record of
          None \<Rightarrow> ret () | Some release_id \<Rightarrow> lock_release_media (e_pg e) release_id MEDIA_SOURCE)
      (bnd (native_id e ''release'' mbid (get_none record ''discogs_release_id'')) (\<lambda>gm_item_id.
        bnd (of_result (release_media_block (e_lib e) record)) (\<lambda>media.
          andthen (upsert_release (e_pg e) (release_values_of record media gm_item_id) (source_ref_of record))
          (andthen (bnd (write_release_media e record media) (\<lambda>_. ret ()))
          (andthen (insert_relationships e mbid ''release'' (get_default record ''relations'' (JList [])))
          (andthen (insert_external_links e mbid ''release'' (get_default record ''external_links'' (JList [])))
            (attach_identifier_aliases e record gm_item_id))))))))"

definition process_release_group :: "env \<Rightarrow> obj \<Rightarrow> ('z psess_scheme, unit) eff" where
  "process_release_group e record =
     (let mbid = record_mbid record in
      bnd (native_id e RELEASE_GROUP_ENTITY_KIND mbid (get_none record ''discogs_master_id'')) (\<lambda>gm_item_id.
        andthen (upsert_release_group (e_pg e) (release_group_values_of record gm_item_id) (source_ref_of record))
        (andthen (insert_relationships e mbid ''release-group'' (get_default record ''relations'' (JList [])))
          (insert_external_links e mbid ''release-group'' (get_default record ''external_links'' (JList []))))))"

text \<open>\<open>PROCESSORS\<close> of \<open>brainztableinator.py\<close>.\<close>

definition PROCESSORS :: "env \<Rightarrow> string \<Rightarrow> (obj \<Rightarrow> ('z psess_scheme, unit) eff) option" where
  "PROCESSORS e data_type =
     (if data_type = ''artists'' then Some (process_artist e)
      else if data_type = ''labels'' then Some (process_label e)
      else if data_type = ''release-groups'' then Some (process_release_group e)
      else if data_type = ''releases'' then Some (process_release e)
      else None)"

section \<open>The statements a processor sends\<close>

text \<open>
  The plan of a record: the statements of its transaction, in order.  Alias resolution runs between
  them on a table no statement touches, so the tables after a successful run are the plan's tables
  with the alias table the runtime left.
\<close>

definition media_plan :: "string \<Rightarrow> edge_row list \<Rightarrow> stmt list" where
  "media_plan release_id rows =
     map InsertMediaFamily (sorted_distinct (map edge_family rows))
     @ map (\<lambda>(m, f, l). InsertMedium m f l) (map (\<lambda>r. (edge_medium r, edge_family r, edge_label r)) rows)
     @ replace_stmts release_id MEDIA_SOURCE (map (\<lambda>r. (release_id, edge_medium r, MEDIA_SOURCE, edge_qty r)) rows)"

definition child_plan :: "bool \<Rightarrow> rel_params list \<Rightarrow> link_params list \<Rightarrow> stmt list" where
  "child_plan refresh rels links =
     map (UpsertRelationship refresh) rels @ map (UpsertExternalLink refresh) links"

definition wrote :: "pg \<Rightarrow> stmt list \<Rightarrow> 'z psess_scheme \<Rightarrow> 'z psess_scheme \<Rightarrow> bool" where
  "wrote p sts s s' \<longleftrightarrow> s_trace s' = s_trace s @ sts \<and>
     (\<exists>d. run_stmts p sts (s_db s) = Inr d \<and> s_db s' = d\<lparr>db_aliases := db_aliases (s_db s')\<rparr>)"

lemma run_stmt_aliases:
  "run_stmt p st (d\<lparr>db_aliases := a\<rparr>) = map_sum id (\<lambda>d. d\<lparr>db_aliases := a\<rparr>) (run_stmt p st d)"
  by (cases st)
    (auto simp: run_upsert_defs Let_def delete_stale_def split: child_table.splits)

lemma run_stmts_aliases:
  "run_stmts p sts (d\<lparr>db_aliases := a\<rparr>) = map_sum id (\<lambda>d. d\<lparr>db_aliases := a\<rparr>) (run_stmts p sts d)"
proof (induction sts arbitrary: d)
  case Nil
  then show ?case by simp
next
  case (Cons st sts)
  then show ?case by (cases "run_stmt p st d") (auto simp: run_stmt_aliases rbind_def)
qed

lemma run_stmt_keeps_aliases: "run_stmt p st d = Inr d' \<Longrightarrow> db_aliases d' = db_aliases d"
  by (cases st) (auto simp: run_upsert_defs Let_def delete_stale_def split: child_table.splits if_splits)

lemma run_stmts_keeps_aliases: "run_stmts p sts d = Inr d' \<Longrightarrow> db_aliases d' = db_aliases d"
  by (induction sts arbitrary: d) (auto dest: run_stmt_keeps_aliases)

lemma wrote_Nil_refl [simp]: "wrote p [] s s"
  by (simp add: wrote_def)

lemma sent_wrote: "sent p sts s s' \<Longrightarrow> wrote p sts s s'"
  by (auto simp: wrote_def sent_def)

lemma wrote_trans:
  assumes "wrote p xs s s'" and "wrote p ys s' s''"
  shows "wrote p (xs @ ys) s s''"
proof -
  from assms obtain d d' where d: "run_stmts p xs (s_db s) = Inr d"
    and s': "s_db s' = d\<lparr>db_aliases := db_aliases (s_db s')\<rparr>"
    and d': "run_stmts p ys (s_db s') = Inr d'" and s'': "s_db s'' = d'\<lparr>db_aliases := db_aliases (s_db s'')\<rparr>"
    and tr: "s_trace s'' = s_trace s @ xs @ ys"
    by (auto simp: wrote_def)
  from d' s' obtain d1 where d1: "run_stmts p ys d = Inr d1" and "d' = d1\<lparr>db_aliases := db_aliases (s_db s')\<rparr>"
    using run_stmts_aliases [where d = d and sts = ys and p = p and a = "db_aliases (s_db s')"] by (cases "run_stmts p ys d") auto
  with s'' have "s_db s'' = d1\<lparr>db_aliases := db_aliases (s_db s'')\<rparr>" by simp
  with d d1 tr show ?thesis by (simp add: wrote_def run_stmts_append)
qed

text \<open>Operations that send no statement of their own: they may change the alias table, nothing else.\<close>

definition silent :: "'z psess_scheme \<Rightarrow> 'z psess_scheme \<Rightarrow> bool" where
  "silent s s' \<longleftrightarrow> s_trace s' = s_trace s \<and> s_db s' = (s_db s)\<lparr>db_aliases := db_aliases (s_db s')\<rparr>"

lemma reflp_silent [intro, simp]: "reflp silent"
  by (simp add: reflp_def silent_def)

lemma transp_silent [intro, simp]: "transp silent"
  unfolding transp_def
proof (intro allI impI)
  fix x y z :: "'z psess_scheme"
  assume xy: "silent x y" and yz: "silent y z"
  from xy obtain a where "s_db y = (s_db x)\<lparr>db_aliases := a\<rparr>" by (auto simp: silent_def)
  with yz have "s_db z = (s_db x)\<lparr>db_aliases := db_aliases (s_db z)\<rparr>" by (simp add: silent_def)
  with xy yz show "silent x z" by (simp add: silent_def)
qed

lemma silent_wrote: "silent s s' \<longleftrightarrow> wrote p [] s s'"
  by (auto simp: silent_def wrote_def)

lemma wrote_silent: "wrote p xs s s' \<Longrightarrow> silent s' s'' \<Longrightarrow> wrote p xs s s''"
  using wrote_trans [of p xs s s' "[]" s''] by (simp add: silent_wrote [of _ _ p])

lemma silent_then_wrote: "silent s s' \<Longrightarrow> wrote p xs s' s'' \<Longrightarrow> wrote p xs s s''"
  using wrote_trans [of p "[]" s s' xs s''] by (simp add: silent_wrote [of _ _ p])

lemma observe_silent [intro, simp]: "keeps silent (observe ob)"
  by (simp add: keeps_def observe_def silent_def)

lemma resolve_aliases_silent [intro, simp]: "keeps silent (resolve_aliases e refs)"
  by (auto simp: keeps_def resolve_aliases_def silent_def split: sum.splits)

lemma attach_aliases_silent [intro, simp]: "keeps silent (attach_aliases e refs)"
  by (auto simp: keeps_def attach_aliases_def silent_def split: sum.splits)

lemma resolve_own_silent [intro, simp]: "keeps silent (resolve_own e ref)"
  unfolding resolve_own_def by (intro keeps_bnd keeps_of_result) auto

lemma native_id_silent: "keeps silent (native_id e kind mbid did)"
  unfolding native_id_def Let_def
  by (auto intro!: keeps_bnd keeps_ret keeps_raise split: option.splits)

lemma report_conflict_silent: "keeps silent (report_conflict e ref)"
proof -
  have "keeps silent (modify (\<lambda>s. s\<lparr>p_conflicts := c, p_ticks := Suc (p_ticks s)\<rparr>))" for c
    by (simp add: keeps_def silent_def)
  then show ?thesis
    unfolding report_conflict_def Let_def
    by (auto intro!: keeps_andthen keeps_bnd keeps_get_state keeps_ret split: prod.splits option.splits)
qed

lemma attach_refs_silent: "keeps silent (attach_refs e refs nid)"
  unfolding attach_refs_def
  by (auto intro!: keeps_bnd keeps_for_each keeps_ret report_conflict_silent)

lemma attach_identifier_aliases_silent: "keeps silent (attach_identifier_aliases e record nid)"
  unfolding attach_identifier_aliases_def
  by (auto intro!: keeps_bnd keeps_of_result keeps_ret attach_refs_silent split: option.splits)

lemma flush_batch_Inr:
  assumes "flush_batch entity n write s = (Inr (), s')"
  shows "if n = 0 then silent s s' else \<exists>s1. write s = (Inr (), s1) \<and> silent s1 s'"
proof (cases "n = 0")
  case True
  have "keeps silent (flush_batch entity 0 write)"
    by (auto simp: flush_batch_def intro!: keeps_andthen)
  with assms True show ?thesis by (auto dest: keepsD)
next
  case False
  with assms obtain s1 where
    tried: "try_catch write (\<lambda>x. andthen (observe (ObsBatch entity n ''failed''))
           (andthen (observe (ObsOutcome ''failed'')) (raise x))) s = (Inr (), s1)"
    and rest: "andthen (observe (ObsBatch entity n ''processed'')) (observe (ObsOutcome ''processed'')) s1 = (Inr (), s')"
    by (auto simp: flush_batch_def elim: andthen_InrE)
  from tried have "write s = (Inr (), s1)"
    by (auto simp: try_catch_def observe_def andthen_def bnd_def split: prod.splits sum.splits)
  moreover from rest have "silent s1 s'"
    by (rule keepsD [rotated]) (auto intro!: keeps_andthen)
  ultimately show ?thesis using False by auto
qed

lemma insert_relationships_Inr:
  assumes "insert_relationships e mbid kind rs s = (Inr (), s')"
  obtains rows where "relationship_rows mbid (JStr (canonical_name kind)) rs = Inr rows"
    and "wrote (e_pg e) (map (UpsertRelationship (w_refresh_updated_at (e_writer e))) rows) s s'"
proof -
  from assms obtain rows where rows: "relationship_rows mbid (JStr (canonical_name kind)) rs = Inr rows"
    and flush: "flush_batch (canonical_name kind) (length rows)
          (writer_insert_relationships (e_pg e) (e_writer e) rows) s = (Inr (), s')"
    unfolding insert_relationships_def by (elim bnd_InrE) auto
  from flush_batch_Inr [OF flush]
  have "wrote (e_pg e) (map (UpsertRelationship (w_refresh_updated_at (e_writer e))) rows) s s'"
    by (auto simp: writer_insert_relationships_def silent_wrote [of _ _ "e_pg e"] split: if_splits
        dest!: executemany_Inr sent_wrote dest: wrote_trans)
  with rows show thesis by (rule that)
qed

lemma insert_external_links_Inr:
  assumes "insert_external_links e mbid kind ls s = (Inr (), s')"
  obtains rows where "external_link_rows mbid (JStr kind) ls = Inr rows"
    and "wrote (e_pg e) (map (UpsertExternalLink (w_refresh_updated_at (e_writer e))) rows) s s'"
proof -
  from assms obtain rows where rows: "external_link_rows mbid (JStr kind) ls = Inr rows"
    and flush: "flush_batch (canonical_name kind) (length rows)
          (writer_insert_external_links (e_pg e) (e_writer e) rows) s = (Inr (), s')"
    unfolding insert_external_links_def by (elim bnd_InrE) auto
  from flush_batch_Inr [OF flush]
  have "wrote (e_pg e) (map (UpsertExternalLink (w_refresh_updated_at (e_writer e))) rows) s s'"
    by (auto simp: writer_insert_external_links_def silent_wrote [of _ _ "e_pg e"] split: if_splits
        dest!: executemany_Inr sent_wrote dest: wrote_trans)
  with rows show thesis by (rule that)
qed

abbreviation refreshing :: "env \<Rightarrow> bool" where
  "refreshing e \<equiv> w_refresh_updated_at (e_writer e)"

text \<open>The child rows a record yields, or the exception its child lists raise.\<close>

definition rels_of :: "string \<Rightarrow> obj \<Rightarrow> exn + rel_params list" where
  "rels_of kind record =
     relationship_rows (record_mbid record) (JStr kind) (get_default record ''relations'' (JList []))"

definition links_of :: "string \<Rightarrow> obj \<Rightarrow> exn + link_params list" where
  "links_of kind record =
     external_link_rows (record_mbid record) (JStr kind) (get_default record ''external_links'' (JList []))"

lemma children_Inr:
  assumes "andthen (insert_relationships e (record_mbid record) kind (get_default record ''relations'' (JList [])))
      (insert_external_links e (record_mbid record) kind (get_default record ''external_links'' (JList []))) s = (Inr (), s')"
    and "canonical_name kind = kind"
  obtains rels links where "rels_of kind record = Inr rels" and "links_of kind record = Inr links"
    and "wrote (e_pg e) (child_plan (refreshing e) rels links) s s'"
proof -
  from assms(1) obtain s1 where
    1: "insert_relationships e (record_mbid record) kind (get_default record ''relations'' (JList [])) s = (Inr (), s1)"
    and 2: "insert_external_links e (record_mbid record) kind (get_default record ''external_links'' (JList [])) s1 = (Inr (), s')"
    by (rule andthen_InrE)
  from 1 obtain rels where rels: "rels_of kind record = Inr rels"
    and w1: "wrote (e_pg e) (map (UpsertRelationship (refreshing e)) rels) s s1"
    by (rule insert_relationships_Inr) (simp add: rels_of_def assms(2))
  from 2 obtain links where links: "links_of kind record = Inr links"
    and w2: "wrote (e_pg e) (map (UpsertExternalLink (refreshing e)) links) s1 s'"
    by (rule insert_external_links_Inr) (simp add: links_of_def)
  from wrote_trans [OF w1 w2] show thesis
    by (intro that [OF rels links]) (simp add: child_plan_def)
qed

lemma exec_wrote: "exec p st s = (Inr (), s') \<Longrightarrow> wrote p [st] s s'"
  by (blast intro: sent_wrote exec_Inr)

lemma native_id_Inr: "native_id e kind mbid did s = (r, s') \<Longrightarrow> silent s s'"
  by (rule keepsD [OF native_id_silent])

text \<open>The common form of the three processors without media.\<close>

lemma entity_Inr:
  assumes "bnd (native_id e idkind (record_mbid record) did) (\<lambda>gm. andthen (exec (e_pg e) (st gm))
      (andthen (insert_relationships e (record_mbid record) kind (get_default record ''relations'' (JList [])))
        (insert_external_links e (record_mbid record) kind (get_default record ''external_links'' (JList []))))) s
      = (Inr (), s')"
    and kind: "canonical_name kind = kind"
  obtains gm s0 rels links where "native_id e idkind (record_mbid record) did s = (Inr gm, s0)"
    and "rels_of kind record = Inr rels" and "links_of kind record = Inr links"
    and "wrote (e_pg e) (st gm # child_plan (refreshing e) rels links) s s'"
proof -
  let ?children = "andthen (insert_relationships e (record_mbid record) kind (get_default record ''relations'' (JList [])))
      (insert_external_links e (record_mbid record) kind (get_default record ''external_links'' (JList [])))"
  from assms(1) obtain gm s0 where gm: "native_id e idkind (record_mbid record) did s = (Inr gm, s0)"
    and rest: "andthen (exec (e_pg e) (st gm)) ?children s0 = (Inr (), s')"
    by (rule bnd_InrE)
  from rest obtain s1 where ex: "exec (e_pg e) (st gm) s0 = (Inr (), s1)" and ch: "?children s1 = (Inr (), s')"
    by (rule andthen_InrE)
  from ch kind obtain rels links where rl: "rels_of kind record = Inr rels" "links_of kind record = Inr links"
    and w: "wrote (e_pg e) (child_plan (refreshing e) rels links) s1 s'"
    by (rule children_Inr)
  from gm have "silent s s0" by (rule native_id_Inr)
  moreover from wrote_trans [OF exec_wrote [OF ex] w]
  have "wrote (e_pg e) (st gm # child_plan (refreshing e) rels links) s0 s'" by simp
  ultimately have "wrote (e_pg e) (st gm # child_plan (refreshing e) rels links) s s'"
    by (rule silent_then_wrote)
  with gm rl show thesis by (rule that)
qed

lemma canonical_names [simp]:
  "canonical_name ''artist'' = ''artist''" "canonical_name ''label'' = ''label''"
  "canonical_name ''release'' = ''release''" "canonical_name ''release-group'' = ''release-group''"
  by (simp_all add: canonical_name_def)

text \<open>The Discogs id of a record and the identity kind it is resolved under, per data type.\<close>

lemma process_artist_Inr:
  assumes "process_artist e record s = (Inr (), s')"
  obtains gm s0 rels links where "native_id e ''artist'' (record_mbid record) (get_none record ''discogs_artist_id'') s = (Inr gm, s0)"
    and "rels_of ''artist'' record = Inr rels" and "links_of ''artist'' record = Inr links"
    and "wrote (e_pg e) (UpsertArtist (artist_values_of record gm) (source_ref_of record)
      # child_plan (refreshing e) rels links) s s'"
  using assms unfolding process_artist_def Let_def upsert_artist_def by (rule entity_Inr) simp

lemma process_label_Inr:
  assumes "process_label e record s = (Inr (), s')"
  obtains gm s0 rels links where "native_id e ''label'' (record_mbid record) (get_none record ''discogs_label_id'') s = (Inr gm, s0)"
    and "rels_of ''label'' record = Inr rels" and "links_of ''label'' record = Inr links"
    and "wrote (e_pg e) (UpsertLabel (label_values_of record gm) (source_ref_of record)
      # child_plan (refreshing e) rels links) s s'"
  using assms unfolding process_label_def Let_def upsert_label_def by (rule entity_Inr) simp

lemma process_release_group_Inr:
  assumes "process_release_group e record s = (Inr (), s')"
  obtains gm s0 rels links where "native_id e ''master'' (record_mbid record) (get_none record ''discogs_master_id'') s = (Inr gm, s0)"
    and "rels_of ''release-group'' record = Inr rels" and "links_of ''release-group'' record = Inr links"
    and "wrote (e_pg e) (UpsertReleaseGroup (release_group_values_of record gm) (source_ref_of record)
      # child_plan (refreshing e) rels links) s s'"
  using assms unfolding process_release_group_def Let_def upsert_release_group_def RELEASE_GROUP_ENTITY_KIND_def
  by (rule entity_Inr) simp

lemma write_release_media_Inr:
  assumes "write_release_media e record media s = (Inr b, s')"
  shows "case media_release_key e record of None \<Rightarrow> \<not> b \<and> s' = s
    | Some release_id \<Rightarrow> b \<and> (\<exists>rows. media_edge_rows (e_lib e) media = Inr rows
        \<and> wrote (e_pg e) (media_plan release_id rows) s s')"
proof (cases "media_release_key e record")
  case None
  with assms show ?thesis by (simp add: write_release_media_def)
next
  case (Some release_id)
  from assms Some obtain rows s1 s2 where rows: "media_edge_rows (e_lib e) media = Inr rows" and b: b
    and f: "upsert_media_families (e_pg e) (sorted_distinct (map edge_family rows)) s = (Inr (), s1)"
    and m: "upsert_media (e_pg e) (map (\<lambda>r. (edge_medium r, edge_family r, edge_label r)) rows) s1 = (Inr (), s2)"
    and x: "replace_release_media_edges (e_pg e) release_id MEDIA_SOURCE
             (map (\<lambda>r. (release_id, edge_medium r, MEDIA_SOURCE, edge_qty r)) rows) s2 = (Inr (), s')"
    by (auto simp: write_release_media_def elim!: bnd_InrE andthen_InrE)
  from f have w1: "wrote (e_pg e) (map InsertMediaFamily (sorted_distinct (map edge_family rows))) s s1"
    by (auto simp: upsert_media_families_def split: if_splits dest: executemany_Inr sent_wrote)
  from m have w2: "wrote (e_pg e) (map (\<lambda>(m, f, l). InsertMedium m f l)
      (map (\<lambda>r. (edge_medium r, edge_family r, edge_label r)) rows)) s1 s2"
    by (auto simp: upsert_media_def split: if_splits dest!: executemany_Inr sent_wrote)
  from x have w3: "wrote (e_pg e) (replace_stmts release_id MEDIA_SOURCE
      (map (\<lambda>r. (release_id, edge_medium r, MEDIA_SOURCE, edge_qty r)) rows)) s2 s'"
    by (blast dest: replace_edges_sent sent_wrote)
  have "wrote (e_pg e) (media_plan release_id rows) s s'"
    unfolding media_plan_def by (intro wrote_trans [OF w1] wrote_trans [OF w2] w3)
  with Some rows b show ?thesis by simp
qed

definition lock_stmts :: "env \<Rightarrow> obj \<Rightarrow> stmt list" where
  "lock_stmts e record = (case media_release_key e record of
     None \<Rightarrow> [] | Some release_id \<Rightarrow> [LockReleaseMedia release_id MEDIA_SOURCE])"

definition media_stmts :: "env \<Rightarrow> obj \<Rightarrow> obj \<Rightarrow> exn + stmt list" where
  "media_stmts e record media = (case media_release_key e record of
     None \<Rightarrow> Inr []
   | Some release_id \<Rightarrow> rbind (media_edge_rows (e_lib e) media) (\<lambda>rows. Inr (media_plan release_id rows)))"

lemma process_release_Inr:
  assumes "process_release e record s = (Inr (), s')"
  obtains gm media msts rels links where "release_media_block (e_lib e) record = Inr media"
    and "media_stmts e record media = Inr msts"
    and "rels_of ''release'' record = Inr rels" and "links_of ''release'' record = Inr links"
    and "wrote (e_pg e) (lock_stmts e record @ UpsertRelease (release_values_of record media gm) (source_ref_of record)
      # msts @ child_plan (refreshing e) rels links) s s'"
proof -
  let ?rest = "\<lambda>gm media. andthen (upsert_release (e_pg e) (release_values_of record media gm) (source_ref_of record))
          (andthen (bnd (write_release_media e record media) (\<lambda>_. ret ()))
          (andthen (insert_relationships e (record_mbid record) ''release'' (get_default record ''relations'' (JList [])))
          (andthen (insert_external_links e (record_mbid record) ''release'' (get_default record ''external_links'' (JList [])))
            (attach_identifier_aliases e record gm))))"
  from assms obtain s1 s2 gm media where
    lock: "(case media_release_key e record of None \<Rightarrow> ret ()
       | Some release_id \<Rightarrow> lock_release_media (e_pg e) release_id MEDIA_SOURCE) s = (Inr (), s1)"
    and nid: "native_id e ''release'' (record_mbid record) (get_none record ''discogs_release_id'') s1 = (Inr gm, s2)"
    and media: "release_media_block (e_lib e) record = Inr media" and rest: "?rest gm media s2 = (Inr (), s')"
    unfolding process_release_def Let_def by (elim andthen_InrE bnd_InrE) auto
  from rest obtain s3 s4 s5 s6 b where
    up: "exec (e_pg e) (UpsertRelease (release_values_of record media gm) (source_ref_of record)) s2 = (Inr (), s3)"
    and med: "write_release_media e record media s3 = (Inr b, s4)"
    and r: "insert_relationships e (record_mbid record) ''release'' (get_default record ''relations'' (JList [])) s4 = (Inr (), s5)"
    and l: "insert_external_links e (record_mbid record) ''release'' (get_default record ''external_links'' (JList [])) s5 = (Inr (), s6)"
    and a: "attach_identifier_aliases e record gm s6 = (Inr (), s')"
    unfolding upsert_release_def by (elim andthen_InrE bnd_InrE) auto
  from r l have "andthen (insert_relationships e (record_mbid record) ''release'' (get_default record ''relations'' (JList [])))
      (insert_external_links e (record_mbid record) ''release'' (get_default record ''external_links'' (JList []))) s4 = (Inr (), s6)"
    by simp
  then obtain rels links where rl: "rels_of ''release'' record = Inr rels" "links_of ''release'' record = Inr links"
    and w4: "wrote (e_pg e) (child_plan (refreshing e) rels links) s4 s6"
    by (rule children_Inr) simp
  have w6: "wrote (e_pg e) (child_plan (refreshing e) rels links) s4 s'"
    by (rule wrote_silent [OF w4 keepsD [OF attach_identifier_aliases_silent a]])
  obtain msts where msts: "media_stmts e record media = Inr msts" and w3: "wrote (e_pg e) msts s3 s4"
    using write_release_media_Inr [OF med] that by (auto simp: media_stmts_def split: option.splits)
  have w1: "wrote (e_pg e) (lock_stmts e record) s s1"
    using lock by (auto simp: lock_stmts_def lock_release_media_def split: option.splits dest: exec_wrote)
  have w2: "wrote (e_pg e) (lock_stmts e record) s s2"
    by (rule wrote_silent [OF w1 native_id_Inr [OF nid]])
  from wrote_trans [OF w2 wrote_trans [OF exec_wrote [OF up] wrote_trans [OF w3 w6]]] show thesis
    by (intro that [OF media msts rl]) simp
qed

text \<open>Statements that leave the child tables alone.\<close>

fun entity_stmt :: "stmt \<Rightarrow> bool" where
  "entity_stmt (UpsertRelationship _ _) = False"
| "entity_stmt (UpsertExternalLink _ _) = False"
| "entity_stmt (DeleteStale _ _) = False"
| "entity_stmt _ = True"

lemma run_entity_stmt: "run_stmt p st d = Inr d' \<Longrightarrow> entity_stmt st \<Longrightarrow>
    db_relationships d' = db_relationships d \<and> db_external_links d' = db_external_links d"
  by (cases st) (auto simp: run_upsert_defs Let_def split: if_splits)

lemma run_entity_stmts: "run_stmts p sts d = Inr d' \<Longrightarrow> list_all entity_stmt sts \<Longrightarrow>
    db_relationships d' = db_relationships d \<and> db_external_links d' = db_external_links d"
  by (induction sts arbitrary: d) (auto dest: run_entity_stmt)

lemma media_stmts_entity: "media_stmts e record media = Inr sts \<Longrightarrow> list_all entity_stmt sts"
  by (auto simp: media_stmts_def media_plan_def replace_stmts_def list_all_iff split: option.splits)

lemma lock_stmts_entity: "list_all entity_stmt (lock_stmts e record)"
  by (simp add: lock_stmts_def split: option.splits)

text \<open>The entity kind of a data type's records, as the child rows spell it.\<close>

definition child_kind :: "string \<Rightarrow> string" where
  "child_kind data_type = (if data_type = ''artists'' then ''artist'' else if data_type = ''labels'' then ''label''
     else if data_type = ''release-groups'' then ''release-group'' else ''release'')"

lemma processor_Inr:
  assumes f: "PROCESSORS e data_type = Some f" and run: "f record s = (Inr (), s')"
  obtains pre rels links where "rels_of (child_kind data_type) record = Inr rels"
    and "links_of (child_kind data_type) record = Inr links" and "list_all entity_stmt pre"
    and "wrote (e_pg e) (pre @ child_plan (refreshing e) rels links) s s'"
proof -
  note that' = that
  have one: thesis if "rels_of (child_kind data_type) record = Inr rels"
    "links_of (child_kind data_type) record = Inr links" "entity_stmt st"
    "wrote (e_pg e) (st # child_plan (refreshing e) rels links) s s'" for rels links st
    using that by (intro that' [of rels links "[st]"]) simp_all
  from f consider "data_type = ''artists''" "f = process_artist e" | "data_type = ''labels''" "f = process_label e"
    | "data_type = ''release-groups''" "f = process_release_group e" | "data_type = ''releases''" "f = process_release e"
    by (auto simp: PROCESSORS_def split: if_splits)
  then show thesis
  proof cases
    case 1
    with run have "process_artist e record s = (Inr (), s')" by simp
    then show thesis by (rule process_artist_Inr) (rule one; simp add: 1 child_kind_def)
  next
    case 2
    with run have "process_label e record s = (Inr (), s')" by simp
    then show thesis by (rule process_label_Inr) (rule one; simp add: 2 child_kind_def)
  next
    case 3
    with run have "process_release_group e record s = (Inr (), s')" by simp
    then show thesis by (rule process_release_group_Inr) (rule one; simp add: 3 child_kind_def)
  next
    case 4
    with run have "process_release e record s = (Inr (), s')" by simp
    then obtain gm media msts rels links where m: "media_stmts e record media = Inr msts"
      and rl: "rels_of ''release'' record = Inr rels" "links_of ''release'' record = Inr links"
      and w: "wrote (e_pg e) (lock_stmts e record @ UpsertRelease (release_values_of record media gm) (source_ref_of record)
        # msts @ child_plan (refreshing e) rels links) s s'"
      by (rule process_release_Inr)
    show thesis
      by (rule that [of rels links "lock_stmts e record @ UpsertRelease (release_values_of record media gm) (source_ref_of record) # msts"])
        (use 4 rl w in \<open>simp_all add: child_kind_def lock_stmts_entity media_stmts_entity [OF m]\<close>)
  qed
qed

text \<open>Whatever happens, a session only ever sends more statements.\<close>

definition grows :: "'z sess_scheme \<Rightarrow> 'z sess_scheme \<Rightarrow> bool" where
  "grows s s' \<longleftrightarrow> (\<exists>sts. s_trace s' = s_trace s @ sts)"

lemma reflp_grows [intro, simp]: "reflp grows"
  by (simp add: reflp_def grows_def)

lemma transp_grows [intro, simp]: "transp grows"
  by (auto simp: transp_def grows_def)

lemma silent_grows: "keeps silent m \<Longrightarrow> keeps grows m"
  by (simp add: keeps_def silent_def grows_def)

lemma exec_grows [intro, simp]: "keeps grows (exec p st)"
  by (auto simp: keeps_def exec_def grows_def Let_def split: option.splits sum.splits)

lemma executemany_grows [intro, simp]: "keeps grows (executemany p st rows)"
  by (auto simp: executemany_def intro!: keeps_for_each)

lemma flush_batch_grows: "keeps grows write \<Longrightarrow> keeps grows (flush_batch entity n write)"
  unfolding flush_batch_def
  by (auto intro!: keeps_andthen keeps_try_catch keeps_raise silent_grows [OF observe_silent])

lemma child_inserts_grow:
  "keeps grows (insert_relationships e mbid kind rs)" "keeps grows (insert_external_links e mbid kind ls)"
  unfolding insert_relationships_def insert_external_links_def
    writer_insert_relationships_def writer_insert_external_links_def
  by (auto intro!: keeps_bnd keeps_of_result flush_batch_grows)

lemma write_release_media_grows: "keeps grows (write_release_media e record media)"
  unfolding write_release_media_def upsert_media_families_def upsert_media_def
    replace_release_media_edges_def lock_release_media_def
  by (auto intro!: keeps_bnd keeps_andthen keeps_of_result keeps_ret split: option.splits)

lemmas processors_grow_intros = keeps_bnd keeps_andthen keeps_of_result keeps_ret child_inserts_grow
  write_release_media_grows silent_grows [OF native_id_silent] silent_grows [OF attach_identifier_aliases_silent]

lemma release_after_lock_grows:
  "keeps grows (bnd (native_id e kind mbid did) (\<lambda>gm. bnd (of_result block) (\<lambda>media.
     andthen (upsert_release (e_pg e) (v media gm) src)
     (andthen (bnd (write_release_media e record media) (\<lambda>_. ret ()))
     (andthen (insert_relationships e mbid k rs)
     (andthen (insert_external_links e mbid k ls) (attach_identifier_aliases e record gm)))))))"
  unfolding upsert_release_def by (auto intro!: processors_grow_intros)

lemma processor_child_tables:
  assumes "PROCESSORS e data_type = Some f" and "f record s = (Inr (), s')"
  obtains rels links where "rels_of (child_kind data_type) record = Inr rels"
    and "links_of (child_kind data_type) record = Inr links"
    and "db_relationships (s_db s') = fold (upsert_row (rel_key (e_pg e)) (rel_merge (refreshing e) (pg_now (e_pg e))))
        (map (rel_row_of (e_pg e)) rels) (db_relationships (s_db s))"
    and "db_external_links (s_db s') = fold (upsert_row link_key (link_merge (refreshing e) (pg_now (e_pg e))))
        (map (link_row_of (e_pg e)) links) (db_external_links (s_db s))"
proof -
  from assms obtain pre rels links where rl: "rels_of (child_kind data_type) record = Inr rels"
    "links_of (child_kind data_type) record = Inr links" and pre: "list_all entity_stmt pre"
    and w: "wrote (e_pg e) (pre @ child_plan (refreshing e) rels links) s s'"
    by (rule processor_Inr)
  from w obtain d d' where d: "run_stmts (e_pg e) pre (s_db s) = Inr d"
    and d': "run_stmts (e_pg e) (child_plan (refreshing e) rels links) d = Inr d'"
    and s': "s_db s' = d'\<lparr>db_aliases := db_aliases (s_db s')\<rparr>"
    by (auto simp: wrote_def run_stmts_append)
  from run_entity_stmts [OF d pre] d' have
    "db_relationships d' = fold (upsert_row (rel_key (e_pg e)) (rel_merge (refreshing e) (pg_now (e_pg e))))
        (map (rel_row_of (e_pg e)) rels) (db_relationships (s_db s))"
    "db_external_links d' = fold (upsert_row link_key (link_merge (refreshing e) (pg_now (e_pg e))))
        (map (link_row_of (e_pg e)) links) (db_external_links (s_db s))"
    by (auto simp: child_plan_def run_stmts_append run_relationship_batch run_link_batch)
  with s' have "db_relationships (s_db s') = fold (upsert_row (rel_key (e_pg e)) (rel_merge (refreshing e) (pg_now (e_pg e))))
        (map (rel_row_of (e_pg e)) rels) (db_relationships (s_db s))"
    "db_external_links (s_db s') = fold (upsert_row link_key (link_merge (refreshing e) (pg_now (e_pg e))))
        (map (link_row_of (e_pg e)) links) (db_external_links (s_db s))"
    by (metis (no_types) db.ext_inject db.surjective db.update_convs(11))+
  with rl show thesis by (rule that)
qed

text \<open>With the refresh clause every child row of the record is stored with the transaction's time.\<close>

lemma fresh_relationship:
  assumes "v \<in> set rels"
  shows "\<exists>r. find_row (rel_key p) (rel_key p (rel_row_of p v))
      (fold (upsert_row (rel_key p) (rel_merge True (pg_now p))) (map (rel_row_of p) rels) t) = Some r
    \<and> rel_updated_at r = pg_now p \<and> rel_ended r \<in> (\<lambda>v. rel_ended (rel_row_of p v)) ` set rels"
  using assms
  by (intro rels_t.fold_upsert_establishes [where P = "\<lambda>r. rel_updated_at r = pg_now p
      \<and> rel_ended r \<in> (\<lambda>v. rel_ended (rel_row_of p v)) ` set rels"])
    (auto simp: rel_merge_def rel_row_of_def)

lemma fresh_link:
  assumes "v \<in> set links"
  shows "\<exists>r. find_row link_key (link_key (link_row_of p v))
      (fold (upsert_row link_key (link_merge True (pg_now p))) (map (link_row_of p) links) t) = Some r
    \<and> link_updated_at r = pg_now p"
  using assms
  by (intro links_t.fold_upsert_establishes [where P = "\<lambda>r. link_updated_at r = pg_now p"])
    (auto simp: link_merge_def link_row_of_def)

text \<open>What the statements of a release do to \<open>graph.issued_on\<close>.\<close>

fun edge_stmt :: "stmt \<Rightarrow> bool" where
  "edge_stmt (DeleteIssuedOn _ _) = True"
| "edge_stmt (InsertIssuedOn _ _ _ _) = True"
| "edge_stmt _ = False"

lemma run_no_edge_stmts: "run_stmts p sts d = Inr d' \<Longrightarrow> list_all (\<lambda>st. \<not> edge_stmt st) sts \<Longrightarrow>
    db_issued_on d' = db_issued_on d"
proof (induction sts arbitrary: d)
  case Nil
  then show ?case by simp
next
  case (Cons st sts)
  then obtain d1 where 1: "run_stmt p st d = Inr d1" and 2: "run_stmts p sts d1 = Inr d'" by auto
  from 1 Cons.prems(2) have "db_issued_on d1 = db_issued_on d"
    by (cases st) (auto simp: run_upsert_defs Let_def delete_stale_def split: child_table.splits)
  with Cons.IH [OF 2] Cons.prems(2) show ?case by simp
qed

definition edge_rows_of :: "string \<Rightarrow> edge_row list \<Rightarrow> issued_row list" where
  "edge_rows_of release_id rows = map (\<lambda>r. \<lparr>iss_release_id = release_id, iss_medium_id = edge_medium r,
     iss_source = MEDIA_SOURCE, iss_qty = edge_qty r\<rparr>) rows"

lemma run_media_plan:
  assumes "run_stmts p (media_plan release_id rows) d = Inr d'" and "distinct (map edge_medium rows)"
  shows "db_issued_on d' = filter (\<lambda>r. \<not> in_range release_id MEDIA_SOURCE r) (db_issued_on d)
    @ edge_rows_of release_id rows"
proof -
  let ?rs = "map (\<lambda>r. (release_id, edge_medium r, MEDIA_SOURCE, edge_qty r)) rows"
  from assms(1) obtain d1 where 1: "run_stmts p (map InsertMediaFamily (sorted_distinct (map edge_family rows))
     @ map (\<lambda>(m, f, l). InsertMedium m f l) (map (\<lambda>r. (edge_medium r, edge_family r, edge_label r)) rows)) d = Inr d1"
    and 2: "run_stmts p (replace_stmts release_id MEDIA_SOURCE ?rs) d1 = Inr d'"
    by (auto simp: media_plan_def run_stmts_append)
  from 1 have "db_issued_on d1 = db_issued_on d"
    by (rule run_no_edge_stmts) (auto simp: list_all_iff)
  moreover have "run_stmts p (replace_stmts release_id MEDIA_SOURCE ?rs) d1 = Inr (d1\<lparr>db_issued_on :=
      filter (\<lambda>r. \<not> in_range release_id MEDIA_SOURCE r) (db_issued_on d1) @ map issued_row_of ?rs\<rparr>)"
    using assms(2) by (intro run_replace_stmts) (auto simp: in_range_def issued_row_of_def comp_def)
  ultimately show ?thesis using 2 by (auto simp: edge_rows_of_def issued_row_of_def comp_def)
qed

text \<open>A processor touches nothing of the process but its own session.\<close>

definition same_more :: "'z psess_scheme \<Rightarrow> 'z psess_scheme \<Rightarrow> bool" where
  "same_more s s' \<longleftrightarrow> psess.more s' = psess.more s"

lemma same_more_orders [intro, simp]: "reflp same_more" "transp same_more"
  by (simp_all add: reflp_def transp_def same_more_def)

lemma base_same_more [intro, simp]:
  "keeps same_more (exec p st)" "keeps same_more (observe ob)" "keeps same_more (resolve_aliases e refs)"
  "keeps same_more (attach_aliases e refs')"
  "keeps same_more (modify (\<lambda>s. s\<lparr>p_conflicts := c, p_ticks := Suc (p_ticks s)\<rparr>))"
  by (auto simp: keeps_def same_more_def exec_def observe_def resolve_aliases_def attach_aliases_def Let_def
      split: option.splits sum.splits)

lemma executemany_same_more [intro, simp]: "keeps same_more (executemany p st rows)"
  by (auto simp: executemany_def intro!: keeps_for_each)

lemma resolve_own_same_more [intro, simp]: "keeps same_more (resolve_own e ref)"
  unfolding resolve_own_def by (intro keeps_bnd keeps_of_result) auto

lemma native_id_same_more [intro, simp]: "keeps same_more (native_id e kind mbid did)"
  unfolding native_id_def Let_def
  by (auto intro!: keeps_bnd keeps_ret keeps_raise split: option.splits)

lemma report_conflict_same_more [intro, simp]: "keeps same_more (report_conflict e ref)"
  unfolding report_conflict_def Let_def
  by (auto intro!: keeps_andthen keeps_bnd keeps_get_state keeps_ret split: prod.splits option.splits)

lemma attach_identifier_aliases_same_more [intro, simp]: "keeps same_more (attach_identifier_aliases e record nid)"
  unfolding attach_identifier_aliases_def attach_refs_def
  by (auto intro!: keeps_bnd keeps_of_result keeps_ret keeps_for_each split: option.splits)

lemma child_inserts_same_more [intro, simp]:
  "keeps same_more (insert_relationships e mbid kind rs)" "keeps same_more (insert_external_links e mbid kind ls)"
  unfolding insert_relationships_def insert_external_links_def flush_batch_def
    writer_insert_relationships_def writer_insert_external_links_def
  by (auto intro!: keeps_bnd keeps_andthen keeps_try_catch keeps_of_result keeps_raise)

lemma write_release_media_same_more [intro, simp]: "keeps same_more (write_release_media e record media)"
  unfolding write_release_media_def upsert_media_families_def upsert_media_def
    replace_release_media_edges_def lock_release_media_def
  by (auto intro!: keeps_bnd keeps_andthen keeps_of_result keeps_ret split: option.splits)

lemma processor_same_more: "PROCESSORS e data_type = Some f \<Longrightarrow> keeps same_more (f record)"
  by (auto simp: PROCESSORS_def process_artist_def process_label_def process_release_group_def process_release_def
      upsert_artist_def upsert_label_def upsert_release_group_def upsert_release_def lock_release_media_def Let_def
      intro!: keeps_bnd keeps_andthen keeps_of_result keeps_ret split: if_splits option.splits)

section \<open>What the runtime's alias functions document\<close>

text \<open>
  \<open>resolve_aliases\<close> answers for the references it is asked about, adds aliases for those only and
  changes none; \<open>attach_aliases\<close> never overwrites and answers with the id each reference has afterwards.
\<close>

definition alias_contract :: "lib \<Rightarrow> bool" where
  "alias_contract l \<longleftrightarrow>
     (\<forall>refs store found store'. lib_resolve_aliases l refs store = Inr (found, store') \<longrightarrow>
        (\<forall>r. (r \<in> set refs \<longrightarrow> map_of found r = map_of store' r)
           \<and> (r \<notin> set refs \<or> map_of store r \<noteq> None \<longrightarrow> map_of store' r = map_of store r)))
   \<and> (\<forall>refs store attached store'. lib_attach_aliases l refs store = Inr (attached, store') \<longrightarrow>
        (\<forall>r. (r \<in> fst ` set refs \<longrightarrow> map_of attached r = map_of store' r)
           \<and> map_of store' r = (case map_of store r of None \<Rightarrow> map_of refs r | Some u \<Rightarrow> Some u)))"

definition mb_ref :: "string \<Rightarrow> json \<Rightarrow> alias_ref" where
  "mb_ref kind mbid = \<lparr>ref_provider = ''musicbrainz'', ref_entity_kind = kind, ref_external_id = mbid\<rparr>"

definition discogs_ref :: "env \<Rightarrow> string \<Rightarrow> json \<Rightarrow> alias_ref" where
  "discogs_ref e kind did = \<lparr>ref_provider = ''discogs'', ref_entity_kind = kind,
     ref_external_id = JStr (py_str (lib_repr (e_lib e)) did)\<rparr>"

abbreviation aliases :: "'z psess_scheme \<Rightarrow> alias_ref \<rightharpoonup> uuid" where
  "aliases s \<equiv> map_of (db_aliases (s_db s))"

lemma resolve_own_Inr:
  assumes c: "alias_contract (e_lib e)" and run: "resolve_own e ref s = (Inr u, s')"
  shows "u = aliases s' ref \<and> (\<forall>r. r \<noteq> ref \<longrightarrow> aliases s' r = aliases s r)
    \<and> (\<forall>r v. aliases s r = Some v \<longrightarrow> aliases s' r = Some v)"
proof -
  from run obtain found store where res: "lib_resolve_aliases (e_lib e) [ref] (db_aliases (s_db s)) = Inr (found, store)"
    and s': "s' = s\<lparr>s_db := (s_db s)\<lparr>db_aliases := store\<rparr>\<rparr>" and u: "u = map_of found ref"
    by (auto simp: resolve_own_def resolve_aliases_def alias_get_def elim!: bnd_InrE split: sum.splits prod.splits if_splits)
  from c res have "\<forall>r. (r \<in> set [ref] \<longrightarrow> map_of found r = map_of store r)
      \<and> (r \<notin> set [ref] \<or> aliases s r \<noteq> None \<longrightarrow> map_of store r = aliases s r)"
    unfolding alias_contract_def by blast
  then have "map_of found ref = map_of store ref" "\<And>r. r \<noteq> ref \<Longrightarrow> map_of store r = aliases s r"
    "\<And>r v. aliases s r = Some v \<Longrightarrow> map_of store r = Some v"
    by (simp_all, metis option.distinct(1))
  with s' u show ?thesis by simp
qed

lemma attach_one_Inr:
  assumes c: "alias_contract (e_lib e)" and run: "attach_aliases e [(ref, n)] s = (Inr attached, s')"
  shows "map_of attached ref = aliases s' ref
    \<and> (\<forall>r. aliases s' r = (case aliases s r of None \<Rightarrow> map_of [(ref, n)] r | Some u \<Rightarrow> Some u))"
proof -
  from run obtain store where att: "lib_attach_aliases (e_lib e) [(ref, n)] (db_aliases (s_db s)) = Inr (attached, store)"
    and s': "s' = s\<lparr>s_db := (s_db s)\<lparr>db_aliases := store\<rparr>\<rparr>"
    by (auto simp: attach_aliases_def split: sum.splits prod.splits)
  from c att have "\<forall>r. (r \<in> fst ` set [(ref, n)] \<longrightarrow> map_of attached r = map_of store r)
      \<and> map_of store r = (case aliases s r of None \<Rightarrow> map_of [(ref, n)] r | Some u \<Rightarrow> Some u)"
    unfolding alias_contract_def by blast
  with s' show ?thesis by simp
qed

section \<open>A concrete environment\<close>

text \<open>
  The runtime's alias functions on a table in memory: \<open>resolve\<close> returns the id a reference has, minting
  one for a MusicBrainz reference that has none; \<open>attach\<close> adds what is missing and returns what holds.
\<close>

definition demo_resolve :: "alias_ref list \<Rightarrow> (alias_ref \<times> uuid) list
    \<Rightarrow> exn + (alias_ref \<times> uuid) list \<times> (alias_ref \<times> uuid) list" where
  "demo_resolve refs store =
     (let store' = store @ map (\<lambda>r. (r, ''minted'')) (filter (\<lambda>r. ref_provider r = ''musicbrainz'') refs)
      in Inr (filter (\<lambda>(r, _). r \<in> set refs) store', store'))"

definition demo_attach :: "(alias_ref \<times> uuid) list \<Rightarrow> (alias_ref \<times> uuid) list
    \<Rightarrow> exn + (alias_ref \<times> uuid) list \<times> (alias_ref \<times> uuid) list" where
  "demo_attach refs store =
     (let store' = store @ refs in Inr (filter (\<lambda>(r, _). r \<in> fst ` set refs) store', store'))"

definition demo_lib :: lib where
  "demo_lib = \<lparr>lib_repr = (\<lambda>_. ''?''), lib_medium_label = (\<lambda>m. if m = ''lp'' then Some ''LP'' else None),
     lib_map_release = (\<lambda>_. Inr []), lib_alias_refs = (\<lambda>_. Inr []),
     lib_resolve_aliases = demo_resolve, lib_attach_aliases = demo_attach, lib_monotonic = (\<lambda>n. of_nat n)\<rparr>"

definition demo_env :: "timestamp \<Rightarrow> env" where
  "demo_env now = \<lparr>e_pg = plain_pg now, e_writer = \<lparr>w_refresh_updated_at = True\<rparr>, e_lib = demo_lib\<rparr>"

definition demo_sess :: "db \<Rightarrow> psess" where
  "demo_sess d = \<lparr>s_db = d, s_trace = [], p_obs = [], p_conflicts = acs_init 60 0, p_ticks = 0\<rparr>"

definition demo_release :: obj where
  "demo_release =
     [(''mbid'', JStr ''m1''), (''name'', JStr ''Album''), (''discogs_release_id'', JInt 7),
      (''media'', JObj [(''items'', JList
         [JObj [(''medium'', JStr ''lp''), (''family'', JStr ''vinyl''), (''qty'', JInt 2)],
          JObj [(''medium'', JStr ''cd''), (''family'', JStr ''disc'')],
          JObj [(''medium'', JStr ''lp''), (''family'', JStr ''vinyl'')]])]),
      (''relations'', JList [JObj [(''target_mbid'', JStr ''a1''), (''target_type'', JStr ''artist''),
         (''type'', JStr ''producer''), (''direction'', JStr ''backward'')]]),
      (''external_links'', JList [JObj [(''url'', JStr ''u''), (''service'', JStr ''wiki'')]])]"

text \<open>A runtime whose own calls never raise.\<close>

definition lib_total :: "lib \<Rightarrow> bool" where
  "lib_total l \<longleftrightarrow> (\<forall>refs store. \<exists>x. lib_resolve_aliases l refs store = Inr x)
     \<and> (\<forall>refs store. \<exists>x. lib_attach_aliases l refs store = Inr x)
     \<and> (\<forall>b. \<exists>x. lib_alias_refs l b = Inr x) \<and> (\<forall>r. \<exists>x. lib_map_release l r = Inr x)"

lemma alias_calls_succeed:
  assumes "lib_total (e_lib e)"
  shows "succeeds (resolve_aliases e refs)" "succeeds (attach_aliases e refs')"
  using assms unfolding succeeds_def lib_total_def resolve_aliases_def attach_aliases_def
  by (metis (no_types, lifting) old.prod.exhaust sum.simps(6) case_prod_conv)+

lemma resolve_own_succeeds: "lib_total (e_lib e) \<Longrightarrow> hashable (ref_external_id ref) \<Longrightarrow> succeeds (resolve_own e ref)"
  unfolding resolve_own_def alias_get_def
  by (intro succeeds_bnd alias_calls_succeed) (simp_all add: succeeds_def)

lemma native_id_succeeds: "lib_total (e_lib e) \<Longrightarrow> hashable mbid \<Longrightarrow> succeeds (native_id e kind mbid did)"
  unfolding native_id_def Let_def
  by (auto intro!: succeeds_bnd alias_calls_succeed resolve_own_succeeds split: option.splits)

lemma observe_succeeds [intro, simp]: "succeeds (observe ob)"
  by (simp add: observe_def)

lemma flush_batch_succeeds: "succeeds write \<Longrightarrow> succeeds (flush_batch entity n write)"
  by (auto simp: flush_batch_def)

lemma report_conflict_succeeds: "succeeds (report_conflict e ref)"
  unfolding report_conflict_def Let_def
  by (intro succeeds_andthen succeeds_bnd observe_succeeds succeeds_get_state)
    (auto intro!: succeeds_andthen split: prod.splits option.splits)

lemma attach_refs_succeeds: "lib_total (e_lib e) \<Longrightarrow> succeeds (attach_refs e refs nid)"
  unfolding attach_refs_def
  by (auto intro!: succeeds_bnd alias_calls_succeed succeeds_for_each report_conflict_succeeds)

lemma attach_identifier_aliases_succeeds:
  assumes e: "lib_total (e_lib e)"
  shows "succeeds (attach_identifier_aliases e record nid)"
proof -
  have "\<exists>x. lib_alias_refs (e_lib e) b = Inr x" for b
    using e by (simp add: lib_total_def)
  then show ?thesis
    unfolding attach_identifier_aliases_def
    by (auto intro!: succeeds_bnd attach_refs_succeeds [OF e] simp: succeeds_def [of "of_result _"] split: option.splits)
qed

lemma child_inserts_succeed:
  assumes "no_faults (e_pg e)"
  shows "relationship_rows mbid (JStr (canonical_name kind)) rs = Inr rows \<Longrightarrow> succeeds (insert_relationships e mbid kind rs)"
    and "external_link_rows mbid (JStr kind) ls = Inr rows' \<Longrightarrow> succeeds (insert_external_links e mbid kind ls)"
  using assms unfolding insert_relationships_def insert_external_links_def
    writer_insert_relationships_def writer_insert_external_links_def
  by (auto intro!: succeeds_bnd flush_batch_succeeds executemany_succeeds)

lemma replace_media_succeeds:
  assumes "no_faults p" and "media_edge_rows l media = Inr rows"
  shows "succeeds (replace_release_media_edges p rid MEDIA_SOURCE
      (map (\<lambda>r. (rid, edge_medium r, MEDIA_SOURCE, edge_qty r)) rows))"
  using media_edge_rows_media_distinct [OF assms(2)]
  by (intro replace_edges_succeeds [OF assms(1)]) (auto simp: in_range_def issued_row_of_def comp_def)

lemma vocabulary_succeeds:
  assumes "no_faults p"
  shows "succeeds (upsert_media_families p names)" "succeeds (upsert_media p rows)"
  using assms by (auto simp: upsert_media_families_def upsert_media_def intro!: executemany_succeeds)

lemma write_release_media_succeeds:
  assumes p: "no_faults (e_pg e)" and rows: "media_edge_rows (e_lib e) media = Inr rows"
  shows "succeeds (write_release_media e record media)"
  unfolding write_release_media_def rows bnd_of_result
  by (auto intro!: succeeds_andthen vocabulary_succeeds [OF p] replace_media_succeeds [OF p rows]
      split: option.splits)

text \<open>A record whose lists and identifiers have the shapes the mapping can read.\<close>

definition well_shaped :: "lib \<Rightarrow> string \<Rightarrow> obj \<Rightarrow> bool" where
  "well_shaped l data_type record \<longleftrightarrow>
     hashable (record_mbid record)
   \<and> \<not> isl (rels_of (child_kind data_type) record) \<and> \<not> isl (links_of (child_kind data_type) record)
   \<and> (data_type = ''releases'' \<longrightarrow> \<not> isl (rbind (release_media_block l record) (media_edge_rows l)))"

lemma processor_succeeds:
  assumes f: "PROCESSORS e data_type = Some f" and p: "no_faults (e_pg e)" and l: "lib_total (e_lib e)"
    and shape: "well_shaped (e_lib e) data_type record"
  shows "succeeds (f record)"
proof -
  from shape obtain rels links where rl: "rels_of (child_kind data_type) record = Inr rels"
    "links_of (child_kind data_type) record = Inr links" and h: "hashable (record_mbid record)"
    by (cases "rels_of (child_kind data_type) record"; cases "links_of (child_kind data_type) record")
      (auto simp: well_shaped_def)
  note intros = succeeds_bnd succeeds_andthen native_id_succeeds [OF l h] exec_succeeds [OF p]
    child_inserts_succeed [OF p] attach_identifier_aliases_succeeds [OF l]
  from f consider "data_type = ''artists''" "f = process_artist e" | "data_type = ''labels''" "f = process_label e"
    | "data_type = ''release-groups''" "f = process_release_group e" | "data_type = ''releases''" "f = process_release e"
    by (auto simp: PROCESSORS_def split: if_splits)
  then show ?thesis
  proof cases
    case 1
    with rl show ?thesis
      by (auto simp: process_artist_def upsert_artist_def child_kind_def rels_of_def links_of_def Let_def intro!: intros)
  next
    case 2
    with rl show ?thesis
      by (auto simp: process_label_def upsert_label_def child_kind_def rels_of_def links_of_def Let_def intro!: intros)
  next
    case 3
    with rl show ?thesis
      by (auto simp: process_release_group_def upsert_release_group_def child_kind_def rels_of_def links_of_def Let_def
          intro!: intros)
  next
    case 4
    with shape obtain media rows where m: "release_media_block (e_lib e) record = Inr media"
      "media_edge_rows (e_lib e) media = Inr rows"
      by (cases "release_media_block (e_lib e) record"; cases "rbind (release_media_block (e_lib e) record) (media_edge_rows (e_lib e))")
        (auto simp: well_shaped_def)
    with 4 rl show ?thesis
      by (auto simp: process_release_def upsert_release_def lock_release_media_def child_kind_def rels_of_def links_of_def Let_def
          intro!: intros write_release_media_succeeds [OF p] split: option.splits)
  qed
qed

lemma demo_ok: "no_faults (e_pg (demo_env now))" "lib_total (e_lib (demo_env now))" "refreshing (demo_env now)"
  by (simp_all add: demo_env_def plain_pg_def no_faults_def lib_total_def demo_lib_def demo_resolve_def
      demo_attach_def Let_def)

lemma demo_release_shape: "well_shaped (e_lib (demo_env now)) ''releases'' demo_release"
proof -
  have "\<not> isl (rels_of ''release'' demo_release)" "\<not> isl (links_of ''release'' demo_release)"
    "\<not> isl (rbind (release_media_block demo_lib demo_release) (media_edge_rows demo_lib))"
    by code_simp+
  then show ?thesis
    by (simp add: well_shaped_def child_kind_def demo_env_def) (simp add: demo_release_def record_mbid_def)
qed

lemma PROCESSORS_releases: "PROCESSORS e ''releases'' = Some (process_release e)"
  by (simp add: PROCESSORS_def)

lemma demo_release_runs:
  obtains s' where "process_release (demo_env now) demo_release s = (Inr (), s')"
  using processor_succeeds [OF PROCESSORS_releases demo_ok(1,2) demo_release_shape]
  by (auto simp: succeeds_def)

section \<open>Properties\<close>

text \<open>
  C12.  A committed record's child rows are in the tables exactly as the record states them: for each
  of the four data types, a successful run leaves \<open>musicbrainz.relationships\<close> and
  \<open>musicbrainz.external_links\<close> as the upserts of the record's rows, in order, applied to what was there,
  and no other statement of the processor touches either table.
\<close>

theorem processor_writes_child_rows:
  assumes "PROCESSORS e data_type = Some f" and "f record s = (Inr (), s')"
  shows "\<exists>rels links. rels_of (child_kind data_type) record = Inr rels
    \<and> links_of (child_kind data_type) record = Inr links
    \<and> db_relationships (s_db s') = fold (upsert_row (rel_key (e_pg e)) (rel_merge (refreshing e) (pg_now (e_pg e))))
        (map (rel_row_of (e_pg e)) rels) (db_relationships (s_db s))
    \<and> db_external_links (s_db s') = fold (upsert_row link_key (link_merge (refreshing e) (pg_now (e_pg e))))
        (map (link_row_of (e_pg e)) links) (db_external_links (s_db s))"
  using assms by (rule processor_child_tables) blast

theorem processor_writes_child_rows_witness:
  "\<exists>rels links s'. process_release (demo_env 5) demo_release (demo_sess empty_db) = (Inr (), s')
    \<and> rels_of ''release'' demo_release = Inr rels \<and> links_of ''release'' demo_release = Inr links
    \<and> length rels = 1 \<and> length links = 1
    \<and> db_relationships (s_db s') = fold (upsert_row (rel_key (plain_pg 5)) (rel_merge True 5)) (map (rel_row_of (plain_pg 5)) rels) []"
proof -
  obtain s' where run: "process_release (demo_env 5) demo_release (demo_sess empty_db) = (Inr (), s')"
    by (rule demo_release_runs)
  from processor_writes_child_rows [OF PROCESSORS_releases run]
  obtain rels links where *: "rels_of ''release'' demo_release = Inr rels" "links_of ''release'' demo_release = Inr links"
    "db_relationships (s_db s') = fold (upsert_row (rel_key (plain_pg 5)) (rel_merge True 5))
       (map (rel_row_of (plain_pg 5)) rels) (db_relationships empty_db)"
    by (auto simp: child_kind_def demo_env_def plain_pg_def demo_sess_def)
  have "map_sum id length (rels_of ''release'' demo_release) = Inr 1"
    and "map_sum id length (links_of ''release'' demo_release) = Inr 1"
    by code_simp+
  with * run show ?thesis by (auto simp: empty_db_def)
qed



text \<open>
  C30.  A release that names a Discogs release replaces exactly its own media edges: after a successful
  run the rows of \<open>(release, musicbrainz)\<close> in \<open>graph.issued_on\<close> are the rows derived from the media block
  that was stored, one per medium, and every other row (another release, or this one under
  \<open>source = 'discogs'\<close>) is kept as it was.
\<close>

theorem release_media_replaced:
  assumes run: "process_release e record s = (Inr (), s')" and key: "media_release_key e record = Some release_id"
  shows "\<exists>media rows gm. release_media_block (e_lib e) record = Inr media
    \<and> media_edge_rows (e_lib e) media = Inr rows
    \<and> db_issued_on (s_db s') = filter (\<lambda>r. \<not> in_range release_id MEDIA_SOURCE r) (db_issued_on (s_db s))
        @ edge_rows_of release_id rows
    \<and> UpsertRelease (release_values_of record media gm) (source_ref_of record) \<in> set (s_trace s')"
proof -
  from run obtain gm media msts rels links where m: "release_media_block (e_lib e) record = Inr media"
    and msts: "media_stmts e record media = Inr msts"
    and w: "wrote (e_pg e) (lock_stmts e record @ UpsertRelease (release_values_of record media gm) (source_ref_of record)
      # msts @ child_plan (refreshing e) rels links) s s'"
    by (rule process_release_Inr)
  from msts key obtain rows where rows: "media_edge_rows (e_lib e) media = Inr rows"
    and plan: "msts = media_plan release_id rows" by (auto simp: media_stmts_def)
  let ?head = "lock_stmts e record @ [UpsertRelease (release_values_of record media gm) (source_ref_of record)]"
  from w obtain d1 d2 d3 where 1: "run_stmts (e_pg e) ?head (s_db s) = Inr d1"
    and 2: "run_stmts (e_pg e) (media_plan release_id rows) d1 = Inr d2"
    and 3: "run_stmts (e_pg e) (child_plan (refreshing e) rels links) d2 = Inr d3"
    and s': "s_db s' = d3\<lparr>db_aliases := db_aliases (s_db s')\<rparr>"
    by (auto simp: wrote_def run_stmts_append plan)
  have "db_issued_on d1 = db_issued_on (s_db s)"
    using 1 by (rule run_no_edge_stmts) (simp add: lock_stmts_def split: option.splits)
  moreover have "db_issued_on d3 = db_issued_on d2"
    using 3 by (rule run_no_edge_stmts) (auto simp: child_plan_def list_all_iff)
  moreover have "db_issued_on (s_db s') = db_issued_on d3" by (subst s') simp
  ultimately have "db_issued_on (s_db s') =
      filter (\<lambda>r. \<not> in_range release_id MEDIA_SOURCE r) (db_issued_on (s_db s)) @ edge_rows_of release_id rows"
    using run_media_plan [OF 2 media_edge_rows_media_distinct [OF rows]] by simp
  moreover have "UpsertRelease (release_values_of record media gm) (source_ref_of record) \<in> set (s_trace s')"
    using w by (simp add: wrote_def)
  ultimately show ?thesis using m rows by blast
qed

lemma demo_key: "media_release_key (demo_env now) demo_release = Some ''7''"
  by code_simp

theorem release_media_replaced_witness:
  "\<exists>s' media rows. process_release (demo_env 5) demo_release (demo_sess (empty_db\<lparr>db_issued_on :=
       [\<lparr>iss_release_id = ''7'', iss_medium_id = ''cassette'', iss_source = ''musicbrainz'', iss_qty = 1\<rparr>,
        \<lparr>iss_release_id = ''7'', iss_medium_id = ''lp'', iss_source = ''discogs'', iss_qty = 9\<rparr>]\<rparr>)) = (Inr (), s')
   \<and> release_media_block demo_lib demo_release = Inr media \<and> media_edge_rows demo_lib media = Inr rows
   \<and> db_issued_on (s_db s') =
      \<lparr>iss_release_id = ''7'', iss_medium_id = ''lp'', iss_source = ''discogs'', iss_qty = 9\<rparr>
      # edge_rows_of ''7'' rows"
proof -
  let ?d = "empty_db\<lparr>db_issued_on :=
       [\<lparr>iss_release_id = ''7'', iss_medium_id = ''cassette'', iss_source = ''musicbrainz'', iss_qty = 1\<rparr>,
        \<lparr>iss_release_id = ''7'', iss_medium_id = ''lp'', iss_source = ''discogs'', iss_qty = 9\<rparr>]\<rparr>"
  obtain s' where run: "process_release (demo_env 5) demo_release (demo_sess ?d) = (Inr (), s')"
    by (rule demo_release_runs)
  from release_media_replaced [OF run demo_key]
  obtain media rows where "release_media_block demo_lib demo_release = Inr media"
    "media_edge_rows demo_lib media = Inr rows"
    "db_issued_on (s_db s') = filter (\<lambda>r. \<not> in_range ''7'' MEDIA_SOURCE r) (db_issued_on ?d) @ edge_rows_of ''7'' rows"
    by (auto simp: demo_sess_def demo_env_def)
  with run show ?thesis by (auto simp: in_range_def MEDIA_SOURCE_def)
qed

text \<open>
  C28.  The advisory lock is the first statement of a release's transaction: whatever happens
  afterwards, returning or raising, a release that names a Discogs release has sent
  \<open>pg_advisory_xact_lock\<close> for its \<open>graph.issued_on\<close> range before anything else, so a writer that waits for
  the lock holds no row lock another writer of the range could be waiting for.
\<close>

theorem release_lock_first:
  "\<forall>release_id. media_release_key e record = Some release_id \<longrightarrow>
     (\<exists>sts. s_trace (snd (process_release e record s)) =
        s_trace s @ LockReleaseMedia release_id ''musicbrainz'' # sts)"
proof (intro allI impI)
  fix release_id
  assume key: "media_release_key e record = Some release_id"
  obtain r s1 where ex: "exec (e_pg e) (LockReleaseMedia release_id MEDIA_SOURCE) s = (r, s1)" by fastforce
  then have s1: "s_trace s1 = s_trace s @ [LockReleaseMedia release_id ''musicbrainz'']"
    by (auto simp: exec_def Let_def MEDIA_SOURCE_def split: option.splits sum.splits)
  let ?rest = "bnd (native_id e ''release'' (record_mbid record) (get_none record ''discogs_release_id'')) (\<lambda>gm.
      bnd (of_result (release_media_block (e_lib e) record)) (\<lambda>media.
        andthen (upsert_release (e_pg e) (release_values_of record media gm) (source_ref_of record))
        (andthen (bnd (write_release_media e record media) (\<lambda>_. ret ()))
        (andthen (insert_relationships e (record_mbid record) ''release'' (get_default record ''relations'' (JList [])))
        (andthen (insert_external_links e (record_mbid record) ''release'' (get_default record ''external_links'' (JList [])))
          (attach_identifier_aliases e record gm))))))"
  have "grows s1 (snd (?rest s1))"
    using release_after_lock_grows unfolding keeps_def by blast
  then show "\<exists>sts. s_trace (snd (process_release e record s)) =
        s_trace s @ LockReleaseMedia release_id ''musicbrainz'' # sts"
    using ex s1 key by (cases r) (auto simp: process_release_def lock_release_media_def Let_def grows_def)
qed

theorem release_lock_first_witness:
  "\<exists>sts. s_trace (snd (process_release (demo_env 5) demo_release (demo_sess empty_db))) =
     LockReleaseMedia ''7'' ''musicbrainz'' # sts"
  using release_lock_first [of "demo_env 5" demo_release "demo_sess empty_db"] demo_key
  by (simp add: demo_sess_def)

text \<open>
  The native id a row is stored under is the id its MusicBrainz alias resolves to in the same
  transaction, no alias already held is changed by resolving it, and a record that names a Discogs item
  already known joins that item instead of minting a parallel one unless its own alias existed before.
\<close>

theorem native_id_is_the_alias:
  assumes c: "alias_contract (e_lib e)" and run: "native_id e kind mbid did s = (Inr (Some nid), s')"
  shows "aliases s' (mb_ref kind mbid) = Some nid
    \<and> (\<forall>r u. aliases s r = Some u \<longrightarrow> aliases s' r = Some u)
    \<and> (truthy did \<and> aliases s (discogs_ref e kind did) = Some n \<and> aliases s (mb_ref kind mbid) = None \<longrightarrow> nid = n)"
proof -
  have ne: "mb_ref kind mbid \<noteq> discogs_ref e kind did" by (simp add: mb_ref_def discogs_ref_def)
  from run have "truthy mbid" by (auto simp: native_id_def split: if_splits)
  show ?thesis
  proof (cases "truthy did")
    case False
    with run \<open>truthy mbid\<close> have "resolve_own e (mb_ref kind mbid) s = (Inr (Some nid), s')"
      by (simp add: native_id_def mb_ref_def)
    from resolve_own_Inr [OF c this] False show ?thesis by auto
  next
    case True
    with run \<open>truthy mbid\<close> obtain found s1 where res: "resolve_own e (discogs_ref e kind did) s = (Inr found, s1)"
      and rest: "(case found of None \<Rightarrow> resolve_own e (mb_ref kind mbid)
            | Some nid \<Rightarrow> if \<not> hashable mbid then raise (py_error ''TypeError'')
                else bnd (attach_aliases e [(mb_ref kind mbid, nid)]) (\<lambda>attached.
                  ret (Some (case map_of attached (mb_ref kind mbid) of None \<Rightarrow> nid | Some n \<Rightarrow> n)))) s1 = (Inr (Some nid), s')"
      unfolding native_id_def Let_def discogs_ref_def [symmetric] mb_ref_def [symmetric]
      by (auto elim!: bnd_InrE)
    note 1 = resolve_own_Inr [OF c res]
    show ?thesis
    proof (cases found)
      case None
      with rest have "resolve_own e (mb_ref kind mbid) s1 = (Inr (Some nid), s')" by simp
      from resolve_own_Inr [OF c this] 1 None show ?thesis
        by auto
    next
      case (Some m)
      with rest obtain attached where att: "attach_aliases e [(mb_ref kind mbid, m)] s1 = (Inr attached, s')"
        and nid: "nid = (case map_of attached (mb_ref kind mbid) of None \<Rightarrow> m | Some n \<Rightarrow> n)"
        by (auto elim!: bnd_InrE split: if_splits)
      note 2 = attach_one_Inr [OF c att]
      from 1 Some have old: "aliases s1 r = Some u" if "aliases s r = Some u" for r u
        using that by blast
      from 1 ne have "aliases s1 (mb_ref kind mbid) = aliases s (mb_ref kind mbid)" by blast
      with 2 nid old Some 1 show ?thesis by (auto split: option.splits)
    qed
  qed
qed

lemma map_of_filter_key: "map_of (filter (\<lambda>(k, _). P k) xs) k = (if P k then map_of xs k else None)"
  by (induction xs) auto

lemma demo_contract: "alias_contract (e_lib (demo_env now))"
proof -
  have none: "map_of (map (\<lambda>r. (r, c)) (filter P refs)) r = None" if "r \<notin> set refs"
    for c :: uuid and P and refs :: "alias_ref list" and r
    using that by (auto simp: map_of_eq_None_iff)
  show ?thesis
    by (auto simp: alias_contract_def demo_env_def demo_lib_def demo_resolve_def demo_attach_def Let_def
        map_of_filter_key none map_add_def split: option.splits)
qed

theorem native_id_is_the_alias_witness:
  "\<exists>s'. native_id (demo_env 5) ''release'' (JStr ''m1'') (JInt 7)
       (demo_sess (empty_db\<lparr>db_aliases := [(discogs_ref (demo_env 5) ''release'' (JInt 7), ''d7'')]\<rparr>)) = (Inr (Some ''d7''), s')
     \<and> aliases s' (mb_ref ''release'' (JStr ''m1'')) = Some ''d7''"
proof -
  let ?s = "demo_sess (empty_db\<lparr>db_aliases := [(discogs_ref (demo_env 5) ''release'' (JInt 7), ''d7'')]\<rparr>)"
  let ?r = "native_id (demo_env 5) ''release'' (JStr ''m1'') (JInt 7) ?s"
  have "fst ?r = Inr (Some ''d7'')" by code_simp
  then have run: "?r = (Inr (Some ''d7''), snd ?r)" by (simp add: prod_eq_iff)
  from native_id_is_the_alias [OF demo_contract run]
  have "aliases (snd ?r) (mb_ref ''release'' (JStr ''m1'')) = Some ''d7''" by simp
  with run show ?thesis by blast
qed

end
