(* ===== verification/Reconciliation.thy ===== *)
theory Reconciliation
  imports Record_Processing
begin

text \<open>
  Delete-reconciliation of the two child tables: \<open>_reconciliation.py\<close>.

  \<open>StaleChildRowPurge\<close> is the record \<open>stale_purge\<close>; its methods are functions on it, and \<open>purge\<close> is an
  effect on the session that returns the deleted counts with the object it leaves.  \<open>purge\<close> changes
  the object only when it returns, so a raise leaves it as it was.

  An aware \<open>datetime\<close> is the instant it denotes, in microseconds; \<open>datetime.fromisoformat\<close> is the
  parameter \<open>fromiso\<close>, which answers the wall-clock reading and the offset the text states, if any.
  The delete fraction is compared as an exact rational: the rounded quotient of two counts lies on
  the same side of \<open>0.9\<close> for every table below \<open>10 ^ 14\<close> rows.
\<close>

section \<open>Constants\<close>

definition RECONCILED_TABLES :: "child_table list" where
  "RECONCILED_TABLES = [Relationships, ExternalLinks]"

definition RECONCILIATION_COLUMN :: string where
  "RECONCILIATION_COLUMN = ''updated_at''"

definition DEFAULT_MAX_DELETE_FRACTION :: rat where
  "DEFAULT_MAX_DELETE_FRACTION = 9 / 10"

definition RECONCILIATION_COLUMN_TYPE :: string where
  "RECONCILIATION_COLUMN_TYPE = ''timestamp with time zone''"

fun table_name :: "child_table \<Rightarrow> string" where
  "table_name Relationships = ''relationships''"
| "table_name ExternalLinks = ''external_links''"

definition qualified_name :: "child_table \<Rightarrow> string" where
  "qualified_name t = ''musicbrainz.'' @ table_name t"

section \<open>The boundary\<close>

type_synonym fromiso = "string \<Rightarrow> (timestamp \<times> timestamp option) option"

definition parse_started_at :: "fromiso \<Rightarrow> json \<Rightarrow> timestamp option" where
  "parse_started_at fromiso started_at = (case started_at of
     JStr s \<Rightarrow> if s = [] then None
       else (case fromiso s of
               None \<Rightarrow> None
             | Some (wall, None) \<Rightarrow> Some wall
             | Some (wall, Some offset) \<Rightarrow> Some (wall - offset))
   | _ \<Rightarrow> None)"

section \<open>The startup probe\<close>

datatype column_state = Missing | WrongType string | Present

definition column_type :: "pg \<Rightarrow> child_table \<Rightarrow> ('z sess_scheme, column_state) eff" where
  "column_type p t =
     andthen (exec p (ReadColumnType ''musicbrainz'' (table_name t) RECONCILIATION_COLUMN))
     (bnd get_state (\<lambda>s. ret
       (case map_of (db_columns (s_db s)) (''musicbrainz'', table_name t, RECONCILIATION_COLUMN) of
          None \<Rightarrow> Missing
        | Some ty \<Rightarrow> if ty = [] then Missing
                     else if ty \<noteq> RECONCILIATION_COLUMN_TYPE then WrongType ty else Present)))"

fun column_states :: "pg \<Rightarrow> child_table list \<Rightarrow> ('z sess_scheme, column_state list) eff" where
  "column_states p [] = ret []"
| "column_states p (t # ts) =
     bnd (column_type p t) (\<lambda>c. bnd (column_states p ts) (\<lambda>cs. ret (c # cs)))"

definition reconciliation_columns_present :: "pg \<Rightarrow> child_table list \<Rightarrow> ('z sess_scheme, bool) eff" where
  "reconciliation_columns_present p tables =
     andthen (exec p Connect) (bnd (column_states p tables) (\<lambda>cs.
       if Missing \<in> set cs then ret False
       else if \<exists>c \<in> set cs. c \<noteq> Present then ret False
       else ret True))"

section \<open>StaleChildRowPurge\<close>

record stale_purge =
  sp_admission :: bool
  sp_max_delete_fraction :: rat
  sp_tables :: "child_table list"
  sp_expected_data_types :: "string list"
  sp_boundary :: "timestamp option"
  sp_signals :: "(string \<times> int option) list"
  sp_dead_lettered :: "string list"
  sp_settled_boundary :: "timestamp option"

definition new_purge :: "bool \<Rightarrow> stale_purge" where
  "new_purge admission = \<lparr>sp_admission = admission,
     sp_max_delete_fraction = DEFAULT_MAX_DELETE_FRACTION, sp_tables = RECONCILED_TABLES,
     sp_expected_data_types = MUSICBRAINZ_DATA_TYPES, sp_boundary = None, sp_signals = [],
     sp_dead_lettered = [], sp_settled_boundary = None\<rparr>"

definition reset :: "stale_purge \<Rightarrow> stale_purge" where
  "reset pu = pu\<lparr>sp_boundary := None, sp_signals := [], sp_dead_lettered := []\<rparr>"

definition record_dead_letter :: "string \<Rightarrow> stale_purge \<Rightarrow> stale_purge" where
  "record_dead_letter data_type pu = pu\<lparr>sp_dead_lettered := List.insert data_type (sp_dead_lettered pu)\<rparr>"

text \<open>\<open>count if isinstance(count, int) else None\<close>: a \<open>bool\<close> is an \<open>int\<close>.\<close>

definition int_count :: "json \<Rightarrow> int option" where
  "int_count v = (case v of JInt i \<Rightarrow> Some i | JBool b \<Rightarrow> Some (if b then 1 else 0) | _ \<Rightarrow> None)"

definition signal_count :: "string \<Rightarrow> obj \<Rightarrow> int option" where
  "signal_count data_type message = (case get_none message ''record_counts'' of
     JObj counts \<Rightarrow> int_count (get_none counts data_type) | _ \<Rightarrow> None)"

definition record_completion :: "fromiso \<Rightarrow> string \<Rightarrow> obj \<Rightarrow> stale_purge \<Rightarrow> stale_purge" where
  "record_completion fromiso data_type message pu =
     (case parse_started_at fromiso (get_none message ''started_at'') of
        None \<Rightarrow> pu\<lparr>sp_boundary := None, sp_signals := []\<rparr>
      | Some started_at \<Rightarrow>
          if sp_boundary pu \<noteq> None \<and> started_at < the (sp_boundary pu) then pu
          else
            let pu' = (if sp_boundary pu = None \<or> started_at > the (sp_boundary pu)
                       then pu\<lparr>sp_boundary := Some started_at, sp_signals := []\<rparr> else pu)
            in pu'\<lparr>sp_signals := AList.update data_type (signal_count data_type message) (sp_signals pu')\<rparr>)"

definition signalled :: "stale_purge \<Rightarrow> string list" where
  "signalled pu = map fst (sp_signals pu)"

definition is_latched :: "stale_purge \<Rightarrow> bool" where
  "is_latched pu \<longleftrightarrow> sp_boundary pu \<noteq> None \<and> set (sp_expected_data_types pu) \<subseteq> set (signalled pu)"

definition pending_data_types :: "stale_purge \<Rightarrow> string list" where
  "pending_data_types pu =
     sorted_distinct (filter (\<lambda>t. t \<notin> set (signalled pu)) (sp_expected_data_types pu))"

definition is_settled :: "stale_purge \<Rightarrow> bool" where
  "is_settled pu \<longleftrightarrow> sp_boundary pu \<noteq> None \<and> sp_settled_boundary pu = sp_boundary pu"

definition settle :: "timestamp option \<Rightarrow> stale_purge \<Rightarrow> stale_purge" where
  "settle boundary pu = pu\<lparr>sp_settled_boundary := boundary, sp_dead_lettered := []\<rparr>"

datatype veto =
    NotLatched "string list"
  | AlreadySettled
  | DeadLettered "string list"
  | EmptyExtraction "string list"

text \<open>\<open>not count\<close>: no integer count, or zero.\<close>

definition empty_types :: "stale_purge \<Rightarrow> string list" where
  "empty_types pu = sorted_distinct (map fst (filter (\<lambda>(_, c). c = None \<or> c = Some 0) (sp_signals pu)))"

definition veto_reason :: "stale_purge \<Rightarrow> veto option" where
  "veto_reason pu =
     (if \<not> is_latched pu then Some (NotLatched (pending_data_types pu))
      else if sp_settled_boundary pu \<noteq> None \<and> sp_settled_boundary pu = sp_boundary pu then Some AlreadySettled
      else if sp_dead_lettered pu \<noteq> [] then Some (DeadLettered (sorted_distinct (sp_dead_lettered pu)))
      else if empty_types pu \<noteq> [] then Some (EmptyExtraction (empty_types pu))
      else None)"

text \<open>\<open>_purge_table\<close>: the count it returns is the number of rows its \<open>DELETE\<close> removed.\<close>

definition purge_table :: "pg \<Rightarrow> rat \<Rightarrow> timestamp \<Rightarrow> child_table \<Rightarrow> ('z sess_scheme, nat) eff" where
  "purge_table p cap boundary t =
     andthen (exec p (CountAll t)) (bnd get_state (\<lambda>s.
       let total_count = count_all t (s_db s) in
       if total_count = 0 then ret 0
       else andthen (exec p (CountStale t boundary)) (bnd get_state (\<lambda>s.
         let stale_count = count_stale t boundary (s_db s) in
         if stale_count = 0 then ret 0
         else if of_nat stale_count / of_nat total_count \<ge> cap then ret 0
         else andthen (exec p (DeleteStale t boundary)) (ret stale_count)))))"

fun purge_tables :: "pg \<Rightarrow> rat \<Rightarrow> timestamp \<Rightarrow> child_table list \<Rightarrow> ('z sess_scheme, (string \<times> nat) list) eff" where
  "purge_tables p cap boundary [] = ret []"
| "purge_tables p cap boundary (t # ts) =
     bnd (purge_table p cap boundary t) (\<lambda>n.
       bnd (purge_tables p cap boundary ts) (\<lambda>ds. ret ((qualified_name t, n) # ds)))"

definition database_unavailable :: exn where
  "database_unavailable = \<lparr>exn_class = DatabaseUnavailableError,
     exn_name = ''DatabaseUnavailableError'', exn_sqlstate = None\<rparr>"

text \<open>A purge with no veto is latched, so it has a boundary; the case without one does not arise.\<close>

definition purge :: "pg \<Rightarrow> stale_purge \<Rightarrow> ('z sess_scheme, (string \<times> nat) list \<times> stale_purge) eff" where
  "purge p pu = (case veto_reason pu of
     Some v \<Rightarrow> ret ([], if is_latched pu then settle (sp_boundary pu) pu else pu)
   | None \<Rightarrow>
      (case sp_boundary pu of
         None \<Rightarrow> ret ([], pu)
       | Some boundary \<Rightarrow>
           if \<not> sp_admission pu then raise database_unavailable
           else bnd (transaction p (purge_tables p (sp_max_delete_fraction pu) boundary (sp_tables pu)))
             (\<lambda>deleted. ret (deleted, settle (Some boundary) pu))))"

section \<open>The reconciliation as a state machine\<close>

text \<open>
  What can happen to the purge object and the tables, in any order: a completion signal, a dead
  letter, a reset, a purge attempt (which purges, is vetoed or fails), and the loads of other
  messages.  A purge event carries the boundary it was decided at.
\<close>

datatype recon_event =
    Signal string obj
  | DeadLetter string
  | Reset
  | Purged timestamp
  | Vetoed "timestamp option"
  | PurgeFailed
  | Loaded pg "stmt list"

type_synonym recon = "stale_purge \<times> db"

inductive recon_step :: "fromiso \<Rightarrow> recon \<Rightarrow> recon_event \<Rightarrow> recon \<Rightarrow> bool" for f where
  signal: "recon_step f (pu, d) (Signal t m) (record_completion f t m pu, d)"
| dead: "recon_step f (pu, d) (DeadLetter t) (record_dead_letter t pu, d)"
| reset: "recon_step f (pu, d) Reset (reset pu, d)"
| purged: "veto_reason pu = None \<Longrightarrow> sp_boundary pu = Some b \<Longrightarrow> purge p pu s = (Inr (deleted, pu'), s') \<Longrightarrow>
    recon_step f (pu, s_db (s :: sess)) (Purged b) (pu', s_db s')"
| vetoed: "veto_reason pu = Some v \<Longrightarrow> purge p pu s = (Inr (deleted, pu'), s') \<Longrightarrow>
    recon_step f (pu, s_db (s :: sess)) (Vetoed (if is_latched pu then sp_boundary pu else None)) (pu', s_db s')"
| failed: "purge p pu s = (Inl x, s') \<Longrightarrow> recon_step f (pu, s_db (s :: sess)) PurgeFailed (pu, s_db s')"
| loaded: "run_stmts p sts d = Inr d' \<Longrightarrow> (\<And>t b. DeleteStale t b \<notin> set sts) \<Longrightarrow>
    recon_step f (pu, d) (Loaded p sts) (pu, d')"

inductive recon_run :: "fromiso \<Rightarrow> recon \<Rightarrow> recon_event list \<Rightarrow> recon \<Rightarrow> bool" for f where
  start: "recon_run f st [] st"
| more: "recon_run f st evs st' \<Longrightarrow> recon_step f st' ev st'' \<Longrightarrow> recon_run f st (evs @ [ev]) st''"

inductive_cases recon_step_PurgedE: "recon_step f st (Purged b) st'"

text \<open>The boundaries a run has decided, purged or vetoed, in order.\<close>

fun decided :: "recon_event list \<Rightarrow> timestamp list" where
  "decided [] = []"
| "decided (Purged b # evs) = b # decided evs"
| "decided (Vetoed (Some b) # evs) = b # decided evs"
| "decided (_ # evs) = decided evs"

text \<open>A run without resets and without signals whose \<open>started_at\<close> is unusable.\<close>

fun usable :: "fromiso \<Rightarrow> recon_event \<Rightarrow> bool" where
  "usable f Reset = False"
| "usable f (Signal t m) = (parse_started_at f (get_none m ''started_at'') \<noteq> None)"
| "usable f _ = True"

section \<open>The purge as a specification\<close>

text \<open>
  What the purge promises of one table: every row older than the boundary is gone, unless that would
  be the given fraction of the table or more, in which case the table is left alone.
\<close>

definition reconcile_table :: "rat \<Rightarrow> timestamp \<Rightarrow> child_table \<Rightarrow> db \<Rightarrow> db" where
  "reconcile_table cap b t d =
     (if of_nat (count_stale t b d) < cap * of_nat (count_all t d) then delete_stale t b d else d)"

definition reconciled :: "rat \<Rightarrow> timestamp \<Rightarrow> child_table list \<Rightarrow> db \<Rightarrow> db" where
  "reconciled cap b ts d = fold (reconcile_table cap b) ts d"

lemma delete_stale_none: "count_stale t b d = 0 \<Longrightarrow> delete_stale t b d = d"
  by (cases t) (auto simp: count_stale_def delete_stale_def table_timestamps_def filter_empty_conv
      intro!: filter_True)

lemma count_stale_le: "count_stale t b d \<le> count_all t d"
  by (simp add: count_stale_def count_all_def)

lemma length_filter_split:
  "length (filter (\<lambda>x. \<not> g x < b) xs) + length (filter ((\<lambda>u. u < b) \<circ> g) xs) = length xs"
  by (induction xs) auto

lemma count_all_delete: "count_all t (delete_stale t b d) + count_stale t b d = count_all t d"
  by (cases t) (simp_all add: count_all_def count_stale_def delete_stale_def table_timestamps_def length_filter_split)

lemma exec_read_Inr:
  assumes "exec p st s = (Inr x, s')" and "run_stmt p st (s_db s) = Inr (s_db s)"
  shows "s_db s' = s_db s"
  using assms by (auto simp: exec_def Let_def split: option.splits)

lemma purge_table_Inr:
  assumes "purge_table p cap b t s = (Inr n, s')"
  shows "s_db s' = reconcile_table cap b t (s_db s)
    \<and> n = (if s_db s' = delete_stale t b (s_db s) then count_stale t b (s_db s) else 0)"
proof -
  let ?d = "s_db s"
  from assms obtain s1 where 1: "exec p (CountAll t) s = (Inr (), s1)" and rest:
    "(let total_count = count_all t (s_db s1) in
       if total_count = 0 then ret 0
       else andthen (exec p (CountStale t b)) (bnd get_state (\<lambda>s.
         let stale_count = count_stale t b (s_db s) in
         if stale_count = 0 then ret 0
         else if of_nat stale_count / of_nat total_count \<ge> cap then ret 0
         else andthen (exec p (DeleteStale t b)) (ret stale_count)))) s1 = (Inr n, s')"
    unfolding purge_table_def by (auto elim!: andthen_InrE bnd_InrE)
  have s1: "s_db s1 = ?d" using exec_read_Inr [OF 1] by simp
  show ?thesis
  proof (cases "count_all t ?d = 0")
    case True
    with count_stale_le [of t b ?d] have "count_stale t b ?d = 0" by simp
    with True rest s1 show ?thesis by (simp add: reconcile_table_def delete_stale_none)
  next
    case False
    with rest s1 obtain s2 where 2: "exec p (CountStale t b) s1 = (Inr (), s2)" and rest2:
      "(let stale_count = count_stale t b (s_db s2) in
         if stale_count = 0 then ret 0
         else if of_nat stale_count / of_nat (count_all t ?d) \<ge> cap then ret 0
         else andthen (exec p (DeleteStale t b)) (ret stale_count)) s2 = (Inr n, s')"
      by (auto elim!: andthen_InrE bnd_InrE simp: Let_def)
    have s2: "s_db s2 = ?d" using exec_read_Inr [OF 2] s1 by simp
    have frac: "(cap \<le> of_nat k / of_nat (count_all t ?d)) = (\<not> of_nat k < cap * of_nat (count_all t ?d))"
      for k :: nat using False by (simp add: not_less pos_le_divide_eq)
    show ?thesis
    proof (cases "count_stale t b ?d = 0")
      case True
      with rest2 s2 show ?thesis by (simp add: reconcile_table_def delete_stale_none)
    next
      case nonzero: False
      show ?thesis
      proof (cases "of_nat (count_stale t b ?d) < cap * of_nat (count_all t ?d)")
        case True
        with rest2 s2 nonzero frac have "andthen (exec p (DeleteStale t b)) (ret (count_stale t b ?d)) s2 = (Inr n, s')"
          by (simp add: Let_def)
        then have "n = count_stale t b ?d" and "s_db s' = delete_stale t b ?d"
          using s2 by (auto elim!: andthen_InrE dest!: exec_Inr sent_db)
        with True show ?thesis by (simp add: reconcile_table_def)
      next
        case cap: False
        with rest2 s2 nonzero frac have "n = 0" and "s' = s2" by (simp_all add: Let_def)
        moreover have "delete_stale t b ?d \<noteq> ?d"
          using nonzero count_all_delete [of t b ?d] by auto
        ultimately show ?thesis using cap s2 by (auto simp: reconcile_table_def)
      qed
    qed
  qed
qed

lemma purge_tables_Inr:
  "purge_tables p cap b ts s = (Inr deleted, s') \<Longrightarrow>
     s_db s' = reconciled cap b ts (s_db s) \<and> map fst deleted = map qualified_name ts"
proof (induction ts arbitrary: s deleted)
  case Nil
  then show ?case by (simp add: reconciled_def)
next
  case (Cons t ts)
  then obtain n s1 ds where 1: "purge_table p cap b t s = (Inr n, s1)"
    and 2: "purge_tables p cap b ts s1 = (Inr ds, s')" and "deleted = (qualified_name t, n) # ds"
    by (auto elim!: bnd_InrE)
  moreover from purge_table_Inr [OF 1] have "s_db s1 = reconcile_table cap b t (s_db s)" by simp
  ultimately show ?case using Cons.IH [OF 2] by (simp add: reconciled_def)
qed

lemma purge_Inl_db: "purge p pu s = (Inl x, s') \<Longrightarrow> s_db s' = s_db s \<and> veto_reason pu = None"
  unfolding purge_def
  by (auto split: option.splits if_splits sum.splits prod.splits simp: bnd_def dest: transaction_Inl_db)

lemma purge_vetoed_Inr:
  "veto_reason pu = Some v \<Longrightarrow> purge p pu s =
     (Inr ([], if is_latched pu then settle (sp_boundary pu) pu else pu), s)"
  by (simp add: purge_def)

lemma no_veto_latched: "veto_reason pu = None \<Longrightarrow> is_latched pu"
  by (auto simp: veto_reason_def split: if_splits)

lemma purge_purged_Inr:
  assumes "veto_reason pu = None" and "purge p pu s = (Inr (deleted, pu'), s')"
  obtains b where "sp_boundary pu = Some b" and "pu' = settle (Some b) pu"
    and "s_db s' = reconciled (sp_max_delete_fraction pu) b (sp_tables pu) (s_db s)"
    and "map fst deleted = map qualified_name (sp_tables pu)"
proof -
  from no_veto_latched [OF assms(1)] obtain b where b: "sp_boundary pu = Some b"
    by (auto simp: is_latched_def)
  with assms have tx: "transaction p (purge_tables p (sp_max_delete_fraction pu) b (sp_tables pu)) s = (Inr deleted, s')"
    and pu': "pu' = settle (Some b) pu"
    by (auto simp: purge_def split: if_splits elim!: bnd_InrE)
  from tx obtain s1 s2 where "sent p [Connect] s s1" and body: "purge_tables p (sp_max_delete_fraction pu) b (sp_tables pu) s1 = (Inr deleted, s2)"
    and "sent p [Commit] s2 s'" by (rule transaction_InrE)
  then have "s_db s1 = s_db s" and "s_db s' = s_db s2" by simp_all
  with purge_tables_Inr [OF body] b pu' show thesis by (intro that) simp_all
qed

text \<open>Rows at or after the boundary are in no \<open>DELETE\<close>.\<close>

lemma reconcile_table_rows:
  "set (db_relationships (reconcile_table cap b t d)) \<subseteq> set (db_relationships d)"
  "set (db_external_links (reconcile_table cap b t d)) \<subseteq> set (db_external_links d)"
  "r \<in> set (db_relationships d) \<Longrightarrow> b \<le> rel_updated_at r \<Longrightarrow> r \<in> set (db_relationships (reconcile_table cap b t d))"
  "l \<in> set (db_external_links d) \<Longrightarrow> b \<le> link_updated_at l \<Longrightarrow> l \<in> set (db_external_links (reconcile_table cap b t d))"
  by (auto simp: reconcile_table_def delete_stale_def split: child_table.splits)

lemma reconciled_rows_old:
  "set (db_relationships (reconciled cap b ts d)) \<subseteq> set (db_relationships d)
   \<and> set (db_external_links (reconciled cap b ts d)) \<subseteq> set (db_external_links d)"
proof (induction ts arbitrary: d)
  case Nil
  then show ?case by (simp add: reconciled_def)
next
  case (Cons t ts)
  from Cons [of "reconcile_table cap b t d"] reconcile_table_rows(1,2) [of cap b t d] show ?case
    by (simp add: reconciled_def) blast
qed

lemma reconciled_rows_live:
  "r \<in> set (db_relationships d) \<Longrightarrow> b \<le> rel_updated_at r \<Longrightarrow> r \<in> set (db_relationships (reconciled cap b ts d))"
  "l \<in> set (db_external_links d) \<Longrightarrow> b \<le> link_updated_at l \<Longrightarrow> l \<in> set (db_external_links (reconciled cap b ts d))"
  unfolding reconciled_def by (induction ts arbitrary: d) (simp_all add: reconcile_table_rows(3,4))

text \<open>Nothing but the two child tables.\<close>

lemma reconciled_frame:
  "\<exists>rs ls. reconciled cap b ts d = d\<lparr>db_relationships := rs, db_external_links := ls\<rparr>"
proof -
  have step: "\<exists>rs ls. reconcile_table cap b t d = d\<lparr>db_relationships := rs, db_external_links := ls\<rparr>" for t d
    by (rule exI [of _ "db_relationships (reconcile_table cap b t d)"],
        rule exI [of _ "db_external_links (reconcile_table cap b t d)"])
      (cases t; simp add: reconcile_table_def delete_stale_def)
  show ?thesis
    unfolding reconciled_def
  proof (induction ts arbitrary: d)
    case Nil
    have "d = d\<lparr>db_relationships := db_relationships d, db_external_links := db_external_links d\<rparr>" by simp
    then show ?case by (metis fold_simps(1))
  next
    case (Cons t ts)
    obtain rs ls where 1: "reconcile_table cap b t d = d\<lparr>db_relationships := rs, db_external_links := ls\<rparr>"
      using step by blast
    from Cons [of "reconcile_table cap b t d"] show ?case by (auto simp: 1)
  qed
qed

section \<open>Invariants of a run\<close>

lemma decided_append [simp]: "decided (xs @ ys) = decided xs @ decided ys"
  by (induction xs rule: decided.induct) auto

lemma record_completion_settled [simp]: "sp_settled_boundary (record_completion f t m pu) = sp_settled_boundary pu"
  by (auto simp: record_completion_def Let_def split: option.splits)

lemma record_completion_dead [simp]: "sp_dead_lettered (record_completion f t m pu) = sp_dead_lettered pu"
  by (auto simp: record_completion_def Let_def split: option.splits)

lemma boundary_monotone:
  assumes "parse_started_at f (get_none m ''started_at'') \<noteq> None"
  shows "\<exists>b'. sp_boundary (record_completion f t m pu) = Some b' \<and> (\<forall>b. sp_boundary pu = Some b \<longrightarrow> b \<le> b')"
  using assms by (auto simp: record_completion_def Let_def split: option.splits if_splits)

text \<open>The settled boundary is the last one decided, from a purge that starts undecided.\<close>

lemma settled_is_last:
  assumes "recon_run f (pu0, d0) evs (pu, d)" and "sp_settled_boundary pu0 = None"
  shows "sp_settled_boundary pu = (if decided evs = [] then None else Some (last (decided evs)))"
  using assms
proof (induction "(pu0, d0)" evs "(pu, d)" arbitrary: pu d rule: recon_run.induct)
  case start
  then show ?case by simp
next
  case (more evs st' ev)
  obtain pu1 d1 where st': "st' = (pu1, d1)" by (cases st')
  from more(2) [OF st' more.prems] have IH: "sp_settled_boundary pu1 =
      (if decided evs = [] then None else Some (last (decided evs)))" .
  from more(3) IH show ?case unfolding st'
    by (cases rule: recon_step.cases)
      (auto simp: record_dead_letter_def reset_def settle_def purge_vetoed_Inr is_latched_def
        elim: purge_purged_Inr dest: purge_Inl_db)
qed

lemma no_veto_not_settled: "veto_reason pu = None \<Longrightarrow> sp_settled_boundary pu \<noteq> sp_boundary pu"
  by (auto simp: veto_reason_def is_latched_def split: if_splits)

text \<open>In a usable run the boundary never falls below a decided one.\<close>

definition ahead :: "timestamp list \<Rightarrow> stale_purge \<Rightarrow> bool" where
  "ahead bs pu \<longleftrightarrow> (bs \<noteq> [] \<longrightarrow> (\<exists>b. sp_boundary pu = Some b \<and> (\<forall>a \<in> set bs. a \<le> b)))"

lemma step_ahead:
  assumes step: "recon_step f (pu, d) ev (pu', d')" and inv: "ahead bs pu" and ok: "usable f ev"
  shows "ahead (bs @ decided [ev]) pu'"
  using step
proof (cases rule: recon_step.cases)
  case (signal t m)
  with ok have "parse_started_at f (get_none m ''started_at'') \<noteq> None" by auto
  from boundary_monotone [OF this, of t pu] inv signal show ?thesis
    by (fastforce simp: ahead_def)
next
  case (purged b p s deleted s')
  obtain b' where "sp_boundary pu = Some b'" and "pu' = settle (Some b') pu"
    by (rule purge_purged_Inr [OF purged(4,6)])
  with purged inv show ?thesis by (auto simp: ahead_def settle_def)
next
  case (vetoed v p s deleted s')
  then show ?thesis using inv
    by (auto simp: ahead_def settle_def purge_vetoed_Inr is_latched_def)
qed (use inv ok in \<open>auto simp: ahead_def record_dead_letter_def\<close>)

lemma run_ahead:
  assumes "recon_run f (pu0, d0) evs (pu, d)" and "list_all (usable f) evs"
  shows "ahead (decided evs) pu"
  using assms
proof (induction "(pu0, d0)" evs "(pu, d)" arbitrary: pu d rule: recon_run.induct)
  case start
  then show ?case by (simp add: ahead_def)
next
  case (more evs st' ev)
  obtain pu1 d1 where st': "st' = (pu1, d1)" by (cases st')
  with more have "ahead (decided evs) pu1" and "usable f ev" by auto
  with step_ahead more(3) st' show ?case by fastforce
qed

lemma step_decides:
  "recon_step f (pu, d) ev st' \<Longrightarrow> decided [ev] = [] \<or> (\<exists>b. decided [ev] = [b] \<and> sp_boundary pu = Some b)"
  by (erule recon_step.cases) (auto simp: is_latched_def)

lemma usable_decided_sorted:
  assumes "recon_run f (pu0, d0) evs (pu, d)" and "list_all (usable f) evs"
  shows "sorted (decided evs)"
  using assms
proof (induction "(pu0, d0)" evs "(pu, d)" arbitrary: pu d rule: recon_run.induct)
  case start
  then show ?case by simp
next
  case (more evs st' ev)
  obtain pu1 d1 where st': "st' = (pu1, d1)" by (cases st')
  from more.prems have u: "list_all (usable f) evs" by simp
  from more(2) [OF st' u] have "sorted (decided evs)" .
  moreover from more(1) u have "ahead (decided evs) pu1" unfolding st' by (rule run_ahead)
  ultimately show ?case using step_decides [OF more(3) [unfolded st']]
    by (auto simp: sorted_append ahead_def)
qed

lemma sorted_le_last: "sorted xs \<Longrightarrow> x \<in> set xs \<Longrightarrow> x \<le> last (xs :: int list)"
  by (induction xs) auto

text \<open>Every signal that counts was sent, at the boundary being collected.\<close>

lemma record_completion_signals:
  assumes "x \<in> set (signalled (record_completion f t m pu))"
  shows "sp_boundary (record_completion f t m pu) = sp_boundary pu \<and> x \<in> set (signalled pu)
    \<or> x = t \<and> parse_started_at f (get_none m ''started_at'') = sp_boundary (record_completion f t m pu)"
  using assms
  by (auto simp: record_completion_def signalled_def Let_def dom_update split: option.splits if_splits)

definition sent_at :: "fromiso \<Rightarrow> recon_event list \<Rightarrow> timestamp option \<Rightarrow> string \<Rightarrow> bool" where
  "sent_at f evs b t \<longleftrightarrow> (\<exists>m. Signal t m \<in> set evs \<and> parse_started_at f (get_none m ''started_at'') = b)"

lemma step_signals:
  assumes step: "recon_step f (pu, d) ev (pu', d')"
    and inv: "\<And>x. x \<in> set (signalled pu) \<Longrightarrow> sent_at f evs (sp_boundary pu) x"
    and x: "x \<in> set (signalled pu')"
  shows "sent_at f (evs @ [ev]) (sp_boundary pu') x"
  using step
proof (cases rule: recon_step.cases)
  case (signal t m)
  from record_completion_signals [of x f t m pu] x signal inv [of x] show ?thesis
    by (auto simp: sent_at_def)
next
  case (purged b p s deleted s')
  obtain b' where "pu' = settle (Some b') pu"
    by (rule purge_purged_Inr [OF purged(4,6)])
  with inv [of x] x show ?thesis by (auto simp: sent_at_def settle_def signalled_def)
next
  case (vetoed v p s deleted s')
  then have "signalled pu' = signalled pu" and "sp_boundary pu' = sp_boundary pu"
    by (auto simp: settle_def signalled_def purge_vetoed_Inr split: if_splits)
  with inv [of x] x show ?thesis by (auto simp: sent_at_def)
qed (use inv [of x] x in \<open>auto simp: sent_at_def record_dead_letter_def reset_def signalled_def\<close>)

lemma run_signals:
  assumes "recon_run f (pu0, d0) evs (pu, d)" and "sp_signals pu0 = []" and "x \<in> set (signalled pu)"
  shows "sent_at f evs (sp_boundary pu) x"
  using assms
proof (induction "(pu0, d0)" evs "(pu, d)" arbitrary: pu d x rule: recon_run.induct)
  case start
  then show ?case by (simp add: signalled_def)
next
  case (more evs st' ev)
  obtain pu1 d1 where st': "st' = (pu1, d1)" by (cases st')
  from more(3) show ?case unfolding st'
    by (rule step_signals) (use more st' in auto)
qed

text \<open>What a step never changes.\<close>

lemma step_config:
  assumes "recon_step f (pu, d) ev (pu', d')"
  shows "sp_expected_data_types pu' = sp_expected_data_types pu"
  using assms
proof (cases rule: recon_step.cases)
  case (purged b p s deleted s')
  obtain b' where "pu' = settle (Some b') pu"
    by (rule purge_purged_Inr [OF purged(4,6)])
  then show ?thesis by (simp add: settle_def)
qed (auto simp: record_completion_def record_dead_letter_def reset_def settle_def purge_vetoed_Inr Let_def
    split: option.splits if_splits)

lemma run_config:
  assumes "recon_run f (pu0, d0) evs (pu, d)"
  shows "sp_expected_data_types pu = sp_expected_data_types pu0"
  using assms
proof (induction "(pu0, d0)" evs "(pu, d)" arbitrary: pu d rule: recon_run.induct)
  case start
  then show ?case by simp
next
  case (more evs st' ev)
  then show ?case by (cases st') (auto dest: step_config)
qed

text \<open>Only a decision or a reset clears a dead-letter mark.\<close>

lemma step_keeps_mark:
  assumes step: "recon_step f (pu, d) ev (pu', d')" and mark: "sp_dead_lettered pu \<noteq> []"
    and "decided [ev] = []" and "ev \<noteq> Reset"
  shows "sp_dead_lettered pu' \<noteq> []"
  using step
proof (cases rule: recon_step.cases)
  case (vetoed v p s deleted s')
  with assms show ?thesis
    by (auto simp: purge_vetoed_Inr is_latched_def split: if_splits)
qed (use assms in \<open>auto simp: record_dead_letter_def List.insert_def\<close>)

lemma recon_run_split:
  assumes "recon_run f st (xs @ ys) st''"
  obtains st' where "recon_run f st xs st'" and "recon_run f st' ys st''"
  using assms
proof (induction ys arbitrary: st'' thesis rule: rev_induct)
  case Nil
  show ?case by (rule Nil(1) [OF _ recon_run.start]) (use Nil(2) in simp)
next
  case (snoc y ys)
  from snoc.prems(2) obtain st1 where 1: "recon_run f st (xs @ ys) st1" and 2: "recon_step f st1 y st''"
    by (cases rule: recon_run.cases) (auto simp: append_assoc [symmetric] simp del: append_assoc)
  from snoc.IH [OF _ 1] obtain st' where "recon_run f st xs st'" and "recon_run f st' ys st1" by blast
  with 2 show ?case by (blast intro: snoc.prems(1) recon_run.more)
qed

lemma run_keeps_mark:
  assumes "recon_run f (pu0, d0) evs (pu, d)" and "sp_dead_lettered pu0 \<noteq> []"
    and "decided evs = []" and "Reset \<notin> set evs"
  shows "sp_dead_lettered pu \<noteq> []"
  using assms
proof (induction "(pu0, d0)" evs "(pu, d)" arbitrary: pu d rule: recon_run.induct)
  case start
  then show ?case by simp
next
  case (more evs st' ev)
  obtain pu1 d1 where st': "st' = (pu1, d1)" by (cases st')
  from more.prems have "decided evs = []" "Reset \<notin> set evs" and ev: "decided [ev] = []" "ev \<noteq> Reset" by auto
  with more(2) [OF st' more.prems(1)] have "sp_dead_lettered pu1 \<noteq> []" by simp
  from step_keeps_mark [OF more(3) [unfolded st'] this ev] show ?case .
qed

lemma marked_vetoes: "sp_dead_lettered pu \<noteq> [] \<Longrightarrow> veto_reason pu \<noteq> None"
  by (auto simp: veto_reason_def split: if_splits)

lemma purge_table_succeeds: "no_faults p \<Longrightarrow> succeeds (purge_table p cap b t)"
  unfolding purge_table_def Let_def
  by (auto intro!: succeeds_andthen succeeds_bnd exec_succeeds)

lemma purge_tables_succeeds: "no_faults p \<Longrightarrow> succeeds (purge_tables p cap b ts)"
  by (induction ts) (auto intro!: succeeds_bnd purge_table_succeeds)

lemma purge_succeeds: "no_faults p \<Longrightarrow> sp_admission pu \<Longrightarrow> succeeds (purge p pu)"
  unfolding purge_def
  by (auto intro!: succeeds_bnd transaction_succeeds purge_tables_succeeds split: option.splits)

lemma purge_decides:
  assumes "purge p pu s = (Inr (deleted, pu'), s')"
  shows "pu' = (if is_latched pu then settle (sp_boundary pu) pu else pu)
    \<and> s_db s' = (if veto_reason pu = None
        then reconciled (sp_max_delete_fraction pu) (the (sp_boundary pu)) (sp_tables pu) (s_db s) else s_db s)"
proof (cases "veto_reason pu")
  case None
  obtain b where "sp_boundary pu = Some b" "pu' = settle (Some b) pu"
    "s_db s' = reconciled (sp_max_delete_fraction pu) b (sp_tables pu) (s_db s)"
    by (rule purge_purged_Inr [OF None assms])
  with None no_veto_latched [OF None] show ?thesis by simp
next
  case (Some v)
  with assms show ?thesis by (simp add: purge_vetoed_Inr)
qed

lemma purge_keeps_live:
  assumes run: "purge p pu s = (r, s')" and b: "sp_boundary pu = Some b"
  shows "(\<forall>x \<in> set (db_relationships (s_db s)). b \<le> rel_updated_at x \<longrightarrow> x \<in> set (db_relationships (s_db s')))
    \<and> (\<forall>x \<in> set (db_external_links (s_db s)). b \<le> link_updated_at x \<longrightarrow> x \<in> set (db_external_links (s_db s')))"
proof (cases r)
  case (Inl x)
  with run have "s_db s' = s_db s" using purge_Inl_db by blast
  then show ?thesis by simp
next
  case (Inr y)
  with run obtain deleted pu' where "purge p pu s = (Inr (deleted, pu'), s')" by (cases y) auto
  from purge_decides [OF this] b show ?thesis by (auto simp: reconciled_rows_live)
qed

lemma count_reconcile_other: "t \<noteq> t' \<Longrightarrow> count_all t (reconcile_table cap b t' d) = count_all t d"
  by (cases t; cases t') (simp_all add: reconcile_table_def count_all_def table_timestamps_def delete_stale_def)

lemma count_reconcile_same:
  "0 < cap \<Longrightarrow> 0 < count_all t d \<Longrightarrow>
    (1 - cap) * of_nat (count_all t d) < of_nat (count_all t (reconcile_table cap b t d))"
  using count_all_delete [of t b d, THEN arg_cong [where f = "of_nat :: nat \<Rightarrow> rat"]]
  by (auto simp: reconcile_table_def algebra_simps)

section \<open>A concrete extraction\<close>

definition demo_fromiso :: fromiso where
  "demo_fromiso text = Some (int (length text), None)"

definition completion :: "nat \<Rightarrow> obj" where
  "completion b = [(''started_at'', JStr (replicate b CHR ''x'')),
     (''record_counts'', JObj (map (\<lambda>t. (t, JInt 1)) MUSICBRAINZ_DATA_TYPES))]"

definition all_signals :: "nat \<Rightarrow> stale_purge \<Rightarrow> stale_purge" where
  "all_signals b pu = fold (\<lambda>t. record_completion demo_fromiso t (completion b)) MUSICBRAINZ_DATA_TYPES pu"

definition signal_events :: "nat \<Rightarrow> recon_event list" where
  "signal_events b = map (\<lambda>t. Signal t (completion b)) MUSICBRAINZ_DATA_TYPES"

definition demo_row :: "string \<Rightarrow> timestamp \<Rightarrow> rel_row" where
  "demo_row k u = \<lparr>rel_source_mbid = JStr k, rel_source_entity_type = JStr ''artist'', rel_target_mbid = JStr ''t'',
     rel_target_entity_type = JStr ''label'', rel_relationship_type = JStr ''x'', rel_attributes = JList [],
     rel_begin_date = JNull, rel_end_date = JNull, rel_ended = JBool False, rel_updated_at = u\<rparr>"

definition demo_db :: db where
  "demo_db = empty_db\<lparr>db_relationships := [demo_row ''old'' 0, demo_row ''live'' 5]\<rparr>"

definition demo_session :: sess where
  "demo_session = \<lparr>s_db = demo_db, s_trace = []\<rparr>"

lemma all_signals_run: "recon_run demo_fromiso (pu, d) (signal_events b) (all_signals b pu, d)"
proof -
  have "recon_run demo_fromiso (pu, d) (map (\<lambda>t. Signal t m) ts)
      (fold (\<lambda>t. record_completion demo_fromiso t m) ts pu, d)" for m ts
    by (induction ts rule: rev_induct) (auto intro: recon_run.intros recon_step.signal)
  then show ?thesis by (simp add: signal_events_def all_signals_def)
qed

lemma demo_clean: "veto_reason (all_signals 3 (new_purge True)) = None"
  "sp_boundary (all_signals 3 (new_purge True)) = Some 3" "sp_admission (all_signals 3 (new_purge True))"
  by code_simp+

lemma demo_purge:
  obtains deleted pu' s' where "purge (plain_pg 9) (all_signals 3 (new_purge True)) demo_session = (Inr (deleted, pu'), s')"
proof -
  have "no_faults (plain_pg 9)" by (simp add: no_faults_def plain_pg_def)
  from purge_succeeds [OF this demo_clean(3)] show thesis
    unfolding succeeds_def by (metis old.prod.exhaust that)
qed

lemma recon_run_append: "recon_run f st xs st' \<Longrightarrow> recon_run f st' ys st'' \<Longrightarrow> recon_run f st (xs @ ys) st''"
  by (rotate_tac, induction rule: recon_run.induct)
    (auto simp: append_assoc [symmetric] simp del: append_assoc intro: recon_run.more)

lemma recon_run_one: "recon_step f st ev st' \<Longrightarrow> recon_run f st [ev] st'"
  using recon_run.more [OF recon_run.start] by fastforce

lemma vetoed_step:
  assumes "veto_reason pu = Some v" and "is_latched pu" and "sp_boundary pu = Some b"
  shows "recon_step f (pu, d) (Vetoed (Some b)) (settle (Some b) pu, d)"
  using recon_step.vetoed [OF assms(1) purge_vetoed_Inr [OF assms(1)],
      where s = "\<lparr>s_db = d, s_trace = []\<rparr>" and f = f] assms(2,3) by simp

text \<open>An extraction at boundary \<open>b\<close> during which a delivery of artists was dead-lettered.\<close>

definition vetoed_events :: "nat \<Rightarrow> recon_event list" where
  "vetoed_events b = DeadLetter ''artists'' # signal_events b @ [Vetoed (Some (int b))]"

definition after_vetoed :: "nat \<Rightarrow> stale_purge \<Rightarrow> stale_purge" where
  "after_vetoed b pu = settle (Some (int b)) (all_signals b (record_dead_letter ''artists'' pu))"

lemma vetoed_run:
  assumes "veto_reason (all_signals b (record_dead_letter ''artists'' pu)) \<noteq> None"
    and "is_latched (all_signals b (record_dead_letter ''artists'' pu))"
    and "sp_boundary (all_signals b (record_dead_letter ''artists'' pu)) = Some (int b)"
  shows "recon_run demo_fromiso (pu, d) (vetoed_events b) (after_vetoed b pu, d)"
proof -
  let ?pu = "all_signals b (record_dead_letter ''artists'' pu)"
  from assms(1) obtain v where "veto_reason ?pu = Some v" by blast
  from vetoed_step [OF this assms(2,3)]
  have "recon_run demo_fromiso (?pu, d) [Vetoed (Some (int b))] (after_vetoed b pu, d)"
    unfolding after_vetoed_def by (rule recon_run_one)
  from recon_run_append [OF recon_run_one [OF recon_step.dead] recon_run_append [OF all_signals_run this]]
  show ?thesis by (simp add: vetoed_events_def)
qed

lemma demo_vetoed_once: "recon_run demo_fromiso (new_purge True, d) (vetoed_events 1) (after_vetoed 1 (new_purge True), d)"
proof (rule vetoed_run)
  show "veto_reason (all_signals 1 (record_dead_letter ''artists'' (new_purge True))) \<noteq> None"
    "is_latched (all_signals 1 (record_dead_letter ''artists'' (new_purge True)))"
    "sp_boundary (all_signals 1 (record_dead_letter ''artists'' (new_purge True))) = Some (int 1)"
    by code_simp+
qed

lemma demo_vetoed_twice:
  "recon_run demo_fromiso (after_vetoed 1 (new_purge True), d) (vetoed_events 2)
     (after_vetoed 2 (after_vetoed 1 (new_purge True)), d)"
proof (rule vetoed_run)
  show "veto_reason (all_signals 2 (record_dead_letter ''artists'' (after_vetoed 1 (new_purge True)))) \<noteq> None"
    "is_latched (all_signals 2 (record_dead_letter ''artists'' (after_vetoed 1 (new_purge True))))"
    "sp_boundary (all_signals 2 (record_dead_letter ''artists'' (after_vetoed 1 (new_purge True)))) = Some (int 2)"
    by code_simp+
qed

lemma purged_step:
  assumes "veto_reason pu = None" and "sp_boundary pu = Some b" and "sp_admission pu"
  shows "\<exists>pu'. recon_step f (pu, d) (Purged b)
    (pu', reconciled (sp_max_delete_fraction pu) b (sp_tables pu) d)"
proof -
  let ?s = "\<lparr>s_db = d, s_trace = []\<rparr>"
  have "no_faults (plain_pg 9)" by (simp add: no_faults_def plain_pg_def)
  from purge_succeeds [OF this assms(3)] obtain deleted pu' s'
    where run: "purge (plain_pg 9) pu ?s = (Inr (deleted, pu'), s')"
    unfolding succeeds_def by (metis old.prod.exhaust)
  from recon_step.purged [OF assms(1,2) run, of f] purge_decides [OF run] assms(1,2) show ?thesis
    by auto
qed

section \<open>Properties\<close>

text \<open>
  C8.  The purge implements its specification: when it returns, the tables are those of
  \<open>reconciled\<close> at the boundary if nothing vetoed it and untouched otherwise, a latched extraction is
  settled at its boundary whether it purged or was vetoed, and an unlatched one is still open.
\<close>

theorem purge_refines_reconciled:
  assumes "purge p pu s = (Inr (deleted, pu'), s')"
  shows "s_db s' = (if veto_reason pu = None
        then reconciled (sp_max_delete_fraction pu) (the (sp_boundary pu)) (sp_tables pu) (s_db s) else s_db s)
    \<and> pu' = (if is_latched pu then settle (sp_boundary pu) pu else pu)"
  using purge_decides [OF assms] by simp

theorem purge_refines_reconciled_witness:
  "\<exists>deleted pu' s'. purge (plain_pg 9) (all_signals 3 (new_purge True)) demo_session = (Inr (deleted, pu'), s')
     \<and> s_db s' = reconciled (9 / 10) 3 [Relationships, ExternalLinks] demo_db
     \<and> map rel_updated_at (db_relationships (s_db s')) = [5]"
proof -
  obtain deleted pu' s' where run: "purge (plain_pg 9) (all_signals 3 (new_purge True)) demo_session = (Inr (deleted, pu'), s')"
    by (rule demo_purge)
  have cfg: "sp_max_delete_fraction (all_signals 3 (new_purge True)) = 9 / 10"
    "sp_tables (all_signals 3 (new_purge True)) = [Relationships, ExternalLinks]" by code_simp+
  have "map rel_updated_at (db_relationships (reconciled (9 / 10) 3 [Relationships, ExternalLinks] demo_db)) = [5]"
    by code_simp
  with purge_refines_reconciled [OF run] run show ?thesis
    by (auto simp: cfg demo_clean demo_session_def)
qed

text \<open>
  No purge deletes a live row: whatever a purge attempt does, purging, being vetoed or failing in
  any statement or at commit, every relationship and every external link refreshed at or after the
  boundary is still in its table.
\<close>

theorem live_rows_survive_purge:
  assumes "purge p pu s = (r, s')" and "sp_boundary pu = Some b"
  shows "(\<forall>x \<in> set (db_relationships (s_db s)). b \<le> rel_updated_at x \<longrightarrow> x \<in> set (db_relationships (s_db s')))
    \<and> (\<forall>x \<in> set (db_external_links (s_db s)). b \<le> link_updated_at x \<longrightarrow> x \<in> set (db_external_links (s_db s')))"
  using assms by (rule purge_keeps_live)

theorem live_rows_survive_purge_witness:
  "demo_row ''live'' 5 \<in> set (db_relationships (s_db (snd (purge (plain_pg 9) (all_signals 3 (new_purge True)) demo_session))))"
  using live_rows_survive_purge [OF surjective_pairing demo_clean(2), where p = "plain_pg 9" and s = demo_session]
  by (simp add: demo_session_def demo_db_def demo_row_def)

text \<open>
  C13.  The safety cap holds: a purge of the loader's configuration never removes nine tenths of a child
  table or more, so a non-empty table keeps more than a tenth of its rows.
\<close>

theorem purge_respects_cap:
  assumes "purge p pu s = (Inr (deleted, pu'), s')" and "sp_max_delete_fraction pu = DEFAULT_MAX_DELETE_FRACTION"
    and "sp_tables pu = RECONCILED_TABLES" and "0 < count_all t (s_db s)"
  shows "count_all t (s_db s) < 10 * count_all t (s_db s')"
proof (cases "veto_reason pu")
  case None
  let ?cap = "9 / 10 :: rat" and ?b = "the (sp_boundary pu)" and ?d = "s_db s"
  from purge_decides [OF assms(1)] None assms(2,3)
  have s': "s_db s' = reconcile_table ?cap ?b ExternalLinks (reconcile_table ?cap ?b Relationships ?d)"
    by (simp add: reconciled_def DEFAULT_MAX_DELETE_FRACTION_def RECONCILED_TABLES_def)
  have "(1 - ?cap) * of_nat (count_all t ?d) < of_nat (count_all t (s_db s'))"
    using assms(4) count_reconcile_same [of ?cap t ?d ?b]
      count_reconcile_same [of ?cap t "reconcile_table ?cap ?b Relationships ?d" ?b]
    by (cases t) (simp_all add: s' count_reconcile_other)
  then have "(of_nat (count_all t ?d) :: rat) < of_nat (10 * count_all t (s_db s'))" by simp
  then show ?thesis by (simp only: of_nat_less_iff)
next
  case (Some v)
  with purge_decides [OF assms(1)] assms(4) show ?thesis by simp
qed

theorem purge_respects_cap_witness:
  "\<exists>deleted pu' s'. purge (plain_pg 9) (all_signals 3 (new_purge True)) demo_session = (Inr (deleted, pu'), s')
     \<and> count_all Relationships demo_db < 10 * count_all Relationships (s_db s')"
proof -
  obtain deleted pu' s' where run: "purge (plain_pg 9) (all_signals 3 (new_purge True)) demo_session = (Inr (deleted, pu'), s')"
    by (rule demo_purge)
  have "sp_max_delete_fraction (all_signals 3 (new_purge True)) = DEFAULT_MAX_DELETE_FRACTION"
    "sp_tables (all_signals 3 (new_purge True)) = RECONCILED_TABLES" "0 < count_all Relationships (s_db demo_session)"
    by code_simp+
  from purge_respects_cap [OF run this] run show ?thesis by (auto simp: demo_session_def)
qed



text \<open>
  C14.  Nothing is purged before all four entity types have completed the same extraction: whenever the
  purge is latched, in any run from a new purge, every data type has sent an \<open>extraction_complete\<close>
  whose \<open>started_at\<close> is the boundary the purge would use.
\<close>

theorem latch_needs_every_type:
  assumes "recon_run f (new_purge admission, d0) evs (pu, d)" and "is_latched pu"
  shows "\<forall>t \<in> {''artists'', ''labels'', ''release-groups'', ''releases''}. \<exists>m. Signal t m \<in> set evs
    \<and> parse_started_at f (get_none m ''started_at'') = sp_boundary pu"
proof
  fix t
  assume "t \<in> {''artists'', ''labels'', ''release-groups'', ''releases''}"
  then have "t \<in> set (sp_expected_data_types pu)"
    using run_config [OF assms(1)] by (simp add: new_purge_def set_data_types)
  with assms(2) have "t \<in> set (signalled pu)" by (auto simp: is_latched_def)
  from run_signals [OF assms(1) _ this] show "\<exists>m. Signal t m \<in> set evs
    \<and> parse_started_at f (get_none m ''started_at'') = sp_boundary pu"
    by (simp add: sent_at_def new_purge_def)
qed

theorem latch_needs_every_type_witness:
  "is_latched (all_signals 3 (new_purge True)) \<and> (\<exists>m. Signal ''labels'' m \<in> set (signal_events 3)
     \<and> parse_started_at demo_fromiso (get_none m ''started_at'') = Some 3)"
  using latch_needs_every_type [OF all_signals_run no_veto_latched [OF demo_clean(1)]]
    no_veto_latched [OF demo_clean(1)] by (simp add: demo_clean(2))

text \<open>
  C10.  A dead letter vetoes: after a delivery was rejected to the dead-letter queue, no purge attempt
  changes a table until an extraction has been decided (or the purge was reset), however many signals,
  loads and failed attempts come in between.
\<close>

theorem dead_letter_vetoes:
  assumes run: "recon_run f (new_purge admission, d0) (before @ DeadLetter t # since) (pu, d)"
    and since: "decided since = []" "Reset \<notin> set since"
    and attempt: "purge p pu s = (r, s')"
  shows "s_db s' = s_db s"
proof -
  from run obtain st1 where "recon_run f st1 ([DeadLetter t] @ since) (pu, d)"
    by (auto elim: recon_run_split)
  then obtain st2 where 1: "recon_run f st1 [DeadLetter t] st2" and 2: "recon_run f st2 since (pu, d)"
    by (rule recon_run_split)
  from 1 have "recon_step f st1 (DeadLetter t) st2"
    by (cases rule: recon_run.cases) (auto elim: recon_run.cases)
  then have "sp_dead_lettered (fst st2) \<noteq> []"
    by (cases rule: recon_step.cases) (auto simp: record_dead_letter_def List.insert_def)
  with run_keeps_mark [of f "fst st2" "snd st2" since pu d] 2 since have "sp_dead_lettered pu \<noteq> []" by simp
  from marked_vetoes [OF this] obtain v where "veto_reason pu = Some v" by blast
  with attempt show ?thesis by (simp add: purge_vetoed_Inr)
qed

theorem dead_letter_vetoes_witness:
  "s_db (snd (purge (plain_pg 9) (all_signals 3 (record_dead_letter ''labels'' (new_purge True))) demo_session)) = demo_db"
proof -
  have run: "recon_run demo_fromiso (new_purge True, demo_db) ([] @ DeadLetter ''labels'' # signal_events 3)
      (all_signals 3 (record_dead_letter ''labels'' (new_purge True)), demo_db)"
    using recon_run_append [OF recon_run_one [OF recon_step.dead] all_signals_run] by simp
  have "decided (signal_events 3) = []" "Reset \<notin> set (signal_events 3)"
    by (simp_all add: signal_events_def MUSICBRAINZ_DATA_TYPES_def ENTITY_TYPES_def)
  from dead_letter_vetoes [OF run this surjective_pairing, where p = "plain_pg 9" and s = demo_session]
  show ?thesis by (simp add: demo_session_def)
qed


end
