(* ===== verification/Purge_Veto.thy ===== *)
theory Purge_Veto
  imports Reconciliation
begin

text \<open>
  \<open>_purge_veto.py\<close>: the rows of \<open>public.loader_extraction_latch\<close> that outlive the process, one per
  extraction, naming the entity types that vetoed its purge.

  The version order of the history is the database's text collation, the key \<open>pg_collate\<close>.
\<close>

section \<open>Operations\<close>

text \<open>\<open>str(x or '').strip()\<close>.\<close>

definition stripped :: "(json \<Rightarrow> string) \<Rightarrow> json \<Rightarrow> string" where
  "stripped repr v = strip (py_str repr (py_or v (JStr '''')))"

definition extraction_key :: "(json \<Rightarrow> string) \<Rightarrow> obj \<Rightarrow> string option" where
  "extraction_key repr data =
     (let version = stripped repr (get_none data ''version'') in
      if version \<noteq> [] then Some version
      else let started_at = stripped repr (get_none data ''started_at'') in
        if started_at \<noteq> [] then Some started_at else None)"

definition purge_veto_column_present :: "pg \<Rightarrow> ('z sess_scheme, bool) eff" where
  "purge_veto_column_present p =
     andthen (exec p Connect)
     (andthen (exec p (ReadColumnType ''public'' ''loader_extraction_latch'' ''purge_vetoed''))
     (bnd get_state (\<lambda>s. ret
       (map_of (db_columns (s_db s)) (''public'', ''loader_extraction_latch'', ''purge_vetoed'') \<noteq> None))))"

definition recorded_vetoes :: "pg \<Rightarrow> string \<Rightarrow> ('z sess_scheme, string list) eff" where
  "recorded_vetoes p version = transaction p
     (andthen (exec p (ReadVetoes version)) (bnd get_state (\<lambda>s. ret
       (case find_row latch_key (LOADER, version) (db_latch (s_db s)) of
          None \<Rightarrow> [] | Some r \<Rightarrow> latch_purge_vetoed r))))"

definition record_extraction :: "pg \<Rightarrow> string \<Rightarrow> string list \<Rightarrow> ('z sess_scheme, unit) eff" where
  "record_extraction p version vetoed = transaction p (exec p (RecordExtraction version vetoed))"

text \<open>The \<open>for ... if not vetoed: break\<close> loop.\<close>

fun count_leading :: "string list list \<Rightarrow> nat" where
  "count_leading [] = 0"
| "count_leading (vetoed # rows) = (if vetoed = [] then 0 else Suc (count_leading rows))"

text \<open>\<open>WHERE loader = 'musicbrainz' ORDER BY version DESC\<close>.\<close>

definition veto_history :: "pg \<Rightarrow> db \<Rightarrow> string list list" where
  "veto_history p d = map latch_purge_vetoed
     (sort_key (\<lambda>r. - pg_collate p (latch_version r)) (filter (\<lambda>r. latch_loader r = LOADER) (db_latch d)))"

definition consecutive_vetoes :: "pg \<Rightarrow> ('z sess_scheme, nat) eff" where
  "consecutive_vetoes p = transaction p
     (andthen (exec p ReadHistory) (bnd get_state (\<lambda>s. ret (count_leading (veto_history p (s_db s))))))"

section \<open>Lemmas\<close>

definition vetoes_of :: "string \<Rightarrow> db \<Rightarrow> string list" where
  "vetoes_of version d = (case find_row latch_key (LOADER, version) (db_latch d) of
     None \<Rightarrow> [] | Some r \<Rightarrow> latch_purge_vetoed r)"

lemma read_transaction_Inr:
  assumes "transaction p (andthen (exec p st) (bnd get_state (\<lambda>s. ret (f (s_db s))))) s = (Inr x, s')"
    and "\<And>d. run_stmt p st d = Inr d"
  shows "x = f (s_db s) \<and> s_db s' = s_db s"
proof -
  from assms(1) obtain s1 s2 where c: "sent p [Connect] s s1" "sent p [Commit] s2 s'"
    and body: "andthen (exec p st) (bnd get_state (\<lambda>s. ret (f (s_db s)))) s1 = (Inr x, s2)"
    by (rule transaction_InrE)
  from body obtain s3 where ex: "exec p st s1 = (Inr (), s3)"
    and r: "bnd get_state (\<lambda>s. ret (f (s_db s))) s3 = (Inr x, s2)"
    by (rule andthen_InrE)
  from r have "x = f (s_db s3)" and "s2 = s3" by (auto simp: bnd_def)
  with c exec_read_Inr [OF ex assms(2)] show ?thesis by simp
qed

lemma recorded_vetoes_Inr:
  "recorded_vetoes p version s = (Inr ys, s') \<Longrightarrow> ys = vetoes_of version (s_db s) \<and> s_db s' = s_db s"
  unfolding recorded_vetoes_def vetoes_of_def by (drule read_transaction_Inr) simp_all

lemma consecutive_vetoes_Inr:
  "consecutive_vetoes p s = (Inr n, s') \<Longrightarrow> n = count_leading (veto_history p (s_db s)) \<and> s_db s' = s_db s"
  unfolding consecutive_vetoes_def by (drule read_transaction_Inr) simp_all

lemma record_extraction_Inr:
  assumes "record_extraction p version vetoed s = (Inr u, s')"
  shows "run_stmt p (RecordExtraction version vetoed) (s_db s) = Inr (s_db s')"
proof -
  from assms obtain s1 s2 where "sent p [Connect] s s1" "sent p [Commit] s2 s'"
    and "exec p (RecordExtraction version vetoed) s1 = (Inr u, s2)"
    unfolding record_extraction_def by (rule transaction_InrE)
  then show ?thesis by (auto dest!: exec_Inr sent_db)
qed

lemma vetoes_of_recorded:
  assumes "run_stmt p (RecordExtraction version vetoed) d = Inr d'"
  shows "set (vetoes_of version d') = set (vetoes_of version d) \<union> set vetoed"
    and "v \<noteq> version \<Longrightarrow> vetoes_of v d' = vetoes_of v d"
proof -
  let ?n = "\<lparr>latch_loader = LOADER, latch_version = version, latch_purge_vetoed = vetoed\<rparr>"
  from assms have d': "db_latch d' = upsert_row latch_key (latch_merge (pg_collate p)) ?n (db_latch d)" by auto
  have key: "latch_key ?n = (LOADER, version)" by (simp add: latch_key_def)
  from latch_t.find_upsert_same [of ?n "pg_collate p" "db_latch d"]
  show "set (vetoes_of version d') = set (vetoes_of version d) \<union> set vetoed"
    by (auto simp: vetoes_of_def d' key latch_merge_def split: option.splits)
  show "v \<noteq> version \<Longrightarrow> vetoes_of v d' = vetoes_of v d"
    using latch_t.find_upsert_other [of "(LOADER, v)" ?n "pg_collate p" "db_latch d"]
    by (simp add: vetoes_of_def d' key)
qed

lemma count_leading_spec:
  "count_leading rows \<le> length rows \<and> (\<forall>i < count_leading rows. rows ! i \<noteq> [])
   \<and> (count_leading rows < length rows \<longrightarrow> rows ! count_leading rows = [])"
  by (induction rows) (auto simp: nth_Cons split: nat.splits)

lemma count_leading_pos: "0 < count_leading rows \<longleftrightarrow> rows \<noteq> [] \<and> hd rows \<noteq> []"
  by (cases rows) auto

lemma strip_by_idem: "strip_by P (strip_by P s) = strip_by P s"
proof -
  let ?u = "dropWhile P s"
  let ?v = "dropWhile P (rev ?u)"
  have v: "?v = [] \<or> \<not> P (hd ?v)" using hd_dropWhile by blast
  have "dropWhile P (rev ?v) = rev ?v"
  proof (cases "?v = []")
    case False
    then have "?u \<noteq> []" by (cases "?u = []") simp_all
    then have "\<not> P (hd ?u)" using hd_dropWhile by blast
    moreover from False have "last ?v = last (rev ?u)"
      by (metis last_append takeWhile_dropWhile_id)
    ultimately have "\<not> P (hd (rev ?v))" using False \<open>?u \<noteq> []\<close> by (simp add: hd_rev last_rev)
    then show ?thesis using False by (metis dropWhile_eq_self_iff)
  next
    case True
    then show ?thesis by (simp only: rev.simps dropWhile.simps)
  qed
  moreover have "dropWhile P ?v = ?v" using v by (metis dropWhile_eq_self_iff)
  ultimately show ?thesis by (simp add: strip_by_def)
qed

lemma strip_idem: "strip (strip s) = strip s"
  by (simp add: strip_def strip_by_idem)

section \<open>Properties\<close>

text \<open>
  A recorded veto is never lost: after an extraction is recorded with some vetoing types, reading
  it back gives exactly those types together with every type recorded for it before, so a redelivered
  signal cannot shrink the record; and no other extraction's record changes.
\<close>

theorem recorded_vetoes_never_shrink:
  assumes "record_extraction p version vetoed s = (Inr u, s1)" and "recorded_vetoes p' version s1 = (Inr ys, s2)"
  shows "set ys = set (vetoes_of version (s_db s)) \<union> set vetoed
    \<and> (\<forall>v. v \<noteq> version \<longrightarrow> vetoes_of v (s_db s1) = vetoes_of v (s_db s))"
  using vetoes_of_recorded [OF record_extraction_Inr [OF assms(1)]] recorded_vetoes_Inr [OF assms(2)] by simp

theorem recorded_vetoes_never_shrink_witness:
  "\<exists>s1 s2 ys. record_extraction (plain_pg 1) ''v1'' [''labels''] \<lparr>s_db = empty_db\<lparr>db_latch :=
       [\<lparr>latch_loader = LOADER, latch_version = ''v1'', latch_purge_vetoed = [''artists'']\<rparr>]\<rparr>, s_trace = []\<rparr> = (Inr (), s1)
     \<and> recorded_vetoes (plain_pg 2) ''v1'' s1 = (Inr ys, s2) \<and> set ys = {''artists'', ''labels''}"
proof -
  let ?s = "\<lparr>s_db = empty_db\<lparr>db_latch :=
       [\<lparr>latch_loader = LOADER, latch_version = ''v1'', latch_purge_vetoed = [''artists'']\<rparr>]\<rparr>, s_trace = []\<rparr> :: sess"
  have p: "no_faults (plain_pg n)" for n by (simp add: no_faults_def plain_pg_def)
  have "succeeds (record_extraction (plain_pg 1) ''v1'' [''labels''] :: (sess, unit) eff)"
    unfolding record_extraction_def by (intro transaction_succeeds exec_succeeds p) simp
  then obtain s1 where 1: "record_extraction (plain_pg 1) ''v1'' [''labels''] ?s = (Inr (), s1)"
    by (auto simp: succeeds_def)
  have "succeeds (recorded_vetoes (plain_pg 2) ''v1'' :: (sess, string list) eff)"
    unfolding recorded_vetoes_def
    by (intro transaction_succeeds succeeds_andthen succeeds_bnd exec_succeeds p succeeds_get_state succeeds_ret) simp
  then obtain ys s2 where 2: "recorded_vetoes (plain_pg 2) ''v1'' s1 = (Inr ys, s2)"
    unfolding succeeds_def by blast
  have "set (vetoes_of ''v1'' (s_db ?s)) = {''artists''}" by (simp add: vetoes_of_def latch_key_def)
  with recorded_vetoes_never_shrink [OF 1 2] 1 2 show ?thesis by auto
qed

text \<open>
  The consecutive-veto count is the length of the run of vetoed extractions at the new end of the
  history: every extraction counted was vetoed, and the next older one, if there is one, was clean.
\<close>

theorem consecutive_vetoes_counts_newest_run:
  assumes "consecutive_vetoes p s = (Inr n, s')"
  shows "n \<le> length (veto_history p (s_db s)) \<and> (\<forall>i < n. veto_history p (s_db s) ! i \<noteq> [])
    \<and> (n < length (veto_history p (s_db s)) \<longrightarrow> veto_history p (s_db s) ! n = [])"
  using consecutive_vetoes_Inr [OF assms] count_leading_spec by auto

theorem consecutive_vetoes_counts_newest_run_witness:
  "\<exists>n s'. consecutive_vetoes (plain_pg 1) \<lparr>s_db = empty_db\<lparr>db_latch :=
       [\<lparr>latch_loader = LOADER, latch_version = ''v1'', latch_purge_vetoed = [''artists'']\<rparr>]\<rparr>, s_trace = []\<rparr>
       = (Inr n, s') \<and> n \<le> 1"
proof -
  let ?s = "\<lparr>s_db = empty_db\<lparr>db_latch :=
       [\<lparr>latch_loader = LOADER, latch_version = ''v1'', latch_purge_vetoed = [''artists'']\<rparr>]\<rparr>, s_trace = []\<rparr> :: sess"
  have p: "no_faults (plain_pg n)" for n by (simp add: no_faults_def plain_pg_def)
  have "succeeds (consecutive_vetoes (plain_pg 1) :: (sess, nat) eff)"
    unfolding consecutive_vetoes_def
    by (intro transaction_succeeds succeeds_andthen succeeds_bnd exec_succeeds p succeeds_get_state succeeds_ret) simp
  then obtain n s' where run: "consecutive_vetoes (plain_pg 1) ?s = (Inr n, s')"
    unfolding succeeds_def by blast
  have "length (veto_history (plain_pg 1) (s_db ?s)) = 1" by (simp add: veto_history_def)
  with consecutive_vetoes_counts_newest_run [OF run] run show ?thesis by auto
qed

text \<open>
  Recording an extraction under its key is well defined: the key is never blank and carries no
  blank at either end, so a version with stray spaces names the same row as the version itself.
\<close>

theorem extraction_key_normal:
  "case extraction_key repr data of
     None \<Rightarrow> stripped repr (get_none data ''version'') = [] \<and> stripped repr (get_none data ''started_at'') = []
   | Some k \<Rightarrow> k \<noteq> [] \<and> strip k = k"
  by (simp add: extraction_key_def stripped_def strip_idem Let_def)

end
