(* ===== verification/Service_State.thy ===== *)
theory Service_State
  imports Purge_Veto
begin

text \<open>
  The process state of \<open>brainztableinator.py\<close>: its module globals, on top of the session of the
  record processor, and the environment the handlers run in.

  A \<open>dict\<close> keyed by data type is an association list, a set of data types a list without
  repetitions.  The queues, the broker connection and channel, the pool and the write admission are
  represented by whether they are there.  \<open>consumer_cancel_tasks\<close> holds for each data type the tag its
  pending timer captured.  \<open>v_log\<close> is what the handlers told the outside: metrics, alerts, the
  cancellation of timers and the calls that declare broker objects or subscribe to them.
\<close>

section \<open>Globals\<close>

datatype broker_call =
    SetQos int
  | DeclareExchange string
  | DeclareQueue string obj
  | Bind string string
  | Consume string

datatype svc_event =
    ConsumerDelta int
  | BrokerCall broker_call
  | VetoGauge nat
  | VetoAlert nat
  | BackoffReset
  | TimerCancelled string

record svc = psess +
  v_completed_files :: "string list"
  v_cancel_tasks :: "(string \<times> string option) list"
  v_consumer_tags :: "(string \<times> string) list"
  v_connection_tags :: "(string \<times> string) list"
  v_queues :: "string list"
  v_watch_started_at :: rat
  v_cancellation_failed :: bool
  v_message_counts :: "(string \<times> nat) list"
  v_last_message_time :: "(string \<times> rat) list"
  v_purge :: "stale_purge option"
  v_pool :: bool
  v_admission :: bool
  v_shutdown :: bool
  v_connection :: bool
  v_channel :: bool
  v_idle_mode :: bool
  v_log :: "svc_event list"

text \<open>
  The environment: the processor's own, the JSON decoder, the clock, \<open>CONSUMER_CANCEL_DELAY\<close>, the
  runtime's \<open>is_permanent_operational_error\<close>, what the broker answers for a dead-letter queue
  (\<open>None\<close> when it cannot say), and \<open>datetime.fromisoformat\<close>.
\<close>

record senv =
  se_env :: env
  se_loads :: "string \<Rightarrow> exn + json"
  se_fromiso :: fromiso
  se_prefix :: string
  se_now :: rat
  se_cancel_delay :: int
  se_permanent :: "exn \<Rightarrow> bool"
  se_dead_letter_count :: "string \<Rightarrow> nat option"

definition logged :: "svc_event \<Rightarrow> 'z svc_scheme \<Rightarrow> 'z svc_scheme" where
  "logged ev v = v\<lparr>v_log := v_log v @ [ev]\<rparr>"

definition initial_counts :: "(string \<times> nat) list" where
  "initial_counts = [(''artists'', 0), (''labels'', 0), (''release-groups'', 0), (''releases'', 0)]"

definition initial_times :: "(string \<times> rat) list" where
  "initial_times = [(''artists'', 0), (''labels'', 0), (''release-groups'', 0), (''releases'', 0)]"

section \<open>Registration and alarms\<close>

definition register_consumer :: "string \<Rightarrow> string \<Rightarrow> 'z svc_scheme \<Rightarrow> 'z svc_scheme" where
  "register_consumer data_type tag v = logged (ConsumerDelta 1)
     (v\<lparr>v_consumer_tags := AList.update data_type tag (v_consumer_tags v),
        v_connection_tags := AList.update data_type tag (v_connection_tags v)\<rparr>)"

definition traffic_seen :: "'z svc_scheme \<Rightarrow> bool" where
  "traffic_seen v \<longleftrightarrow> (\<exists>c \<in> set (v_message_counts v). 0 < snd c)"

definition grace_expired :: "rat \<Rightarrow> rat \<Rightarrow> 'z svc_scheme \<Rightarrow> bool" where
  "grace_expired timeout now v \<longleftrightarrow> 0 < v_watch_started_at v \<and> timeout \<le> now - v_watch_started_at v"

definition last_time :: "string \<Rightarrow> 'z svc_scheme \<Rightarrow> rat" where
  "last_time data_type v = (case map_of (v_last_message_time v) data_type of None \<Rightarrow> 0 | Some x \<Rightarrow> x)"

definition consumer_alarm_types :: "rat \<Rightarrow> rat \<Rightarrow> 'z svc_scheme \<Rightarrow> string list" where
  "consumer_alarm_types timeout now v =
     (if \<not> traffic_seen v \<and> \<not> grace_expired timeout now v then []
      else
        let all_siblings_complete = (length MUSICBRAINZ_DATA_TYPES - 1 \<le> length (v_completed_files v)) in
        filter (\<lambda>t. t \<notin> set (v_completed_files v) \<and>
          (t \<notin> fst ` set (v_consumer_tags v)
           \<or> (grace_expired timeout now v \<and> all_siblings_complete \<and> last_time t v \<le> 0)))
          MUSICBRAINZ_DATA_TYPES)"

text \<open>\<open>get_health_data\<close>: the two fields it decides, then the whole answer.\<close>

datatype status = Starting | Healthy | Unhealthy

definition any_recent :: "rat \<Rightarrow> 'z svc_scheme \<Rightarrow> string option" where
  "any_recent now v = map_option fst (find (\<lambda>(_, t). 0 < t \<and> now - t < 10) (v_last_message_time v))"

definition health_status :: "rat \<Rightarrow> rat \<Rightarrow> 'z svc_scheme \<Rightarrow> status" where
  "health_status timeout now v =
     (if \<not> v_pool v then
        (if v_consumer_tags v = [] \<and> (\<forall>c \<in> set (v_message_counts v). snd c = 0) then Starting else Unhealthy)
      else if consumer_alarm_types timeout now v \<noteq> [] \<or> v_cancellation_failed v then Unhealthy
      else Healthy)"

definition active_task :: "rat \<Rightarrow> rat \<Rightarrow> 'z svc_scheme \<Rightarrow> string option" where
  "active_task timeout now v =
     (let recent = map_option (\<lambda>t. ''Processing '' @ t) (any_recent now v);
          idle = (if recent = None \<and> v_consumer_tags v \<noteq> [] then Some ''Idle - waiting for messages'' else recent);
          stuck = (if consumer_alarm_types timeout now v \<noteq> []
                   then Some ''STUCK - consumers died, awaiting recovery'' else idle)
      in if \<not> v_pool v \<and> v_consumer_tags v = [] \<and> (\<forall>c \<in> set (v_message_counts v). snd c = 0)
         then Some ''Initializing PostgreSQL connection'' else stuck)"

record health_data =
  hd_status :: status
  hd_service :: string
  hd_current_task :: "string option"
  hd_progress :: rat
  hd_message_counts :: "(string \<times> nat) list"
  hd_last_message_time :: "(string \<times> rat) list"
  hd_cancellation_failed :: bool
  hd_active_consumers :: "string list"
  hd_alarm_types :: "string list"
  hd_completed_files :: "string list"
  hd_timestamp :: rat

definition SERVICE_NAME :: string where
  "SERVICE_NAME = ''musicbrainz-sql-loader''"

definition current_progress :: rat where
  "current_progress = 0"

definition get_health_data :: "rat \<Rightarrow> rat \<Rightarrow> 'z svc_scheme \<Rightarrow> health_data" where
  "get_health_data timeout now v =
     \<lparr>hd_status = health_status timeout now v, hd_service = SERVICE_NAME, hd_current_task = active_task timeout now v,
      hd_progress = current_progress, hd_message_counts = v_message_counts v,
      hd_last_message_time = v_last_message_time v, hd_cancellation_failed = v_cancellation_failed v,
      hd_active_consumers = map fst (v_consumer_tags v), hd_alarm_types = consumer_alarm_types timeout now v,
      hd_completed_files = v_completed_files v, hd_timestamp = now\<rparr>"

definition signal_handler :: "'z svc_scheme \<Rightarrow> 'z svc_scheme" where
  "signal_handler v = v\<lparr>v_shutdown := True\<rparr>"

section \<open>Timers\<close>

text \<open>\<open>consumer_cancel_tasks.pop(data_type, None)\<close> and the \<open>cancel()\<close> of what it returned.\<close>

definition pop_timer :: "string \<Rightarrow> 'z svc_scheme \<Rightarrow> 'z svc_scheme" where
  "pop_timer data_type v =
     (if data_type \<in> fst ` set (v_cancel_tasks v)
      then logged (TimerCancelled data_type)
        (v\<lparr>v_cancel_tasks := AList.delete data_type (v_cancel_tasks v)\<rparr>)
      else v)"

definition schedule_consumer_cancellation :: "string \<Rightarrow> 'z svc_scheme \<Rightarrow> 'z svc_scheme" where
  "schedule_consumer_cancellation data_type v =
     (let tag = map_of (v_consumer_tags v) data_type;
          v' = (if data_type \<in> fst ` set (v_cancel_tasks v) then logged (TimerCancelled data_type) v else v)
      in v'\<lparr>v_cancel_tasks := AList.update data_type tag (v_cancel_tasks v')\<rparr>)"

definition check_all_consumers_idle :: "'z svc_scheme \<Rightarrow> bool" where
  "check_all_consumers_idle v \<longleftrightarrow>
     v_consumer_tags v = [] \<and> length MUSICBRAINZ_DATA_TYPES = length (v_completed_files v)"

definition check_consumers_unexpectedly_dead :: "rat \<Rightarrow> rat \<Rightarrow> 'z svc_scheme \<Rightarrow> bool" where
  "check_consumers_unexpectedly_dead timeout now v \<longleftrightarrow> consumer_alarm_types timeout now v \<noteq> []"

definition get_connection :: "'z svc_scheme \<Rightarrow> exn + unit" where
  "get_connection v = (if \<not> v_pool v then Inl (py_error ''RuntimeError'') else Inr ())"

section \<open>Lemmas\<close>

lemma alarm_iff:
  "t \<in> set (consumer_alarm_types timeout now v) \<longleftrightarrow>
     t \<in> set MUSICBRAINZ_DATA_TYPES \<and> (traffic_seen v \<or> grace_expired timeout now v)
     \<and> t \<notin> set (v_completed_files v)
     \<and> (map_of (v_consumer_tags v) t = None
        \<or> grace_expired timeout now v \<and> 3 \<le> length (v_completed_files v) \<and> last_time t v \<le> 0)"
proof -
  have "length MUSICBRAINZ_DATA_TYPES - 1 = 3" by (simp add: MUSICBRAINZ_DATA_TYPES_def ENTITY_TYPES_def)
  then show ?thesis by (auto simp: consumer_alarm_types_def Let_def map_of_eq_None_iff)
qed

section \<open>Properties\<close>

text \<open>
  C39.  A healthy loader is consuming everything that is not finished: when \<open>/health\<close> answers healthy
  and messages have been handled or the startup grace has passed, every incomplete stream has a
  registered consumer, no consumer cancellation is unconfirmed, and a stream left alone by completed
  siblings after the grace has had a delivery.
\<close>

theorem healthy_means_consuming:
  assumes "health_status timeout now v = Healthy" and "traffic_seen v \<or> grace_expired timeout now v"
    and "t \<in> set MUSICBRAINZ_DATA_TYPES" and "t \<notin> set (v_completed_files v)"
  shows "map_of (v_consumer_tags v) t \<noteq> None \<and> v_pool v \<and> \<not> v_cancellation_failed v
    \<and> (grace_expired timeout now v \<and> 3 \<le> length (v_completed_files v) \<longrightarrow> 0 < last_time t v)"
proof -
  from assms(1) have "t \<notin> set (consumer_alarm_types timeout now v)" "v_pool v" "\<not> v_cancellation_failed v"
    by (auto simp: health_status_def split: if_splits)
  with assms(2-) show ?thesis unfolding alarm_iff by (auto simp: not_le)
qed

definition demo_svc :: svc where
  "demo_svc = \<lparr>s_db = empty_db, s_trace = [], p_obs = [], p_conflicts = acs_init 60 0, p_ticks = 0,
     v_completed_files = [''labels''], v_cancel_tasks = [], v_consumer_tags =
       [(''artists'', ''c1''), (''release-groups'', ''c2''), (''releases'', ''c3'')], v_connection_tags = [],
     v_queues = [''artists'', ''labels'', ''release-groups'', ''releases''], v_watch_started_at = 1,
     v_cancellation_failed = False, v_message_counts = [(''artists'', 5)], v_last_message_time = [],
     v_purge = Some (new_purge True), v_pool = True, v_admission = True, v_shutdown = False,
     v_connection = True, v_channel = True, v_idle_mode = False, v_log = []\<rparr>"

theorem healthy_means_consuming_witness:
  "health_status 30 100 demo_svc = Healthy \<and> map_of (v_consumer_tags demo_svc) ''artists'' \<noteq> None"
proof -
  have h: "health_status 30 100 demo_svc = Healthy" "traffic_seen demo_svc \<or> grace_expired 30 100 demo_svc"
    "''artists'' \<in> set MUSICBRAINZ_DATA_TYPES" "''artists'' \<notin> set (v_completed_files demo_svc)"
    by code_simp+
  from healthy_means_consuming [OF this] h(1) show ?thesis by simp
qed

end
