(* ===== verification/Delivery.thy ===== *)
theory Delivery
  imports Service_State
begin

text \<open>
  One delivery from RabbitMQ to its settlement: the message handler of \<open>brainztableinator.py\<close>, the
  failure classifier, the veto gathering before a purge and the entry point \<open>on_data_message\<close>.

  A handler runs here as one step.  \<open>run_delivery\<close>, the settlement authority of the shared runtime,
  is the parameter \<open>auth\<close>: what it makes of the handler's outcome under the classifier.
\<close>

section \<open>Results and failures\<close>

datatype settlement = ACK | REJECT | REQUEUE | DEFER

record delivery_result =
  dr_settlement :: settlement
  dr_outcome :: string
  dr_error_type :: "string option"

definition ack :: "string \<Rightarrow> delivery_result" where
  "ack outcome = \<lparr>dr_settlement = ACK, dr_outcome = outcome, dr_error_type = None\<rparr>"

datatype failure_kind = Transient | Deterministic

definition AMQP_CONSUMER_ID :: string where
  "AMQP_CONSUMER_ID = ''brainztableinator''"

definition MAX_REQUEUES :: int where
  "MAX_REQUEUES = 500"

definition PURGE_VETO_ALERT_RUNS :: nat where
  "PURGE_VETO_ALERT_RUNS = 2"

text \<open>\<open>_broker_handouts\<close>: the largest integer among the two headers, zero without one.\<close>

definition broker_handouts :: "json \<Rightarrow> int" where
  "broker_handouts headers = (case headers of
     JObj h \<Rightarrow>
       (case List.map_filter (\<lambda>name. int_count (get_none h name)) [''x-acquired-count'', ''x-delivery-count''] of
          [] \<Rightarrow> 0 | c # cs \<Rightarrow> fold max cs c)
   | _ \<Rightarrow> 0)"

text \<open>\<open>_MusicBrainzFailureClassifier\<close>: \<open>_classify\<close> and the budget around it.\<close>

definition classify :: "(exn \<Rightarrow> bool) \<Rightarrow> exn \<Rightarrow> failure_kind" where
  "classify permanent x =
     (if permanent x then Deterministic
      else (case exn_class x of
         InterfaceError \<Rightarrow> Transient
       | OperationalError \<Rightarrow> Transient
       | DatabaseUnavailableError \<Rightarrow> Transient
       | DataError \<Rightarrow> Deterministic
       | IntegrityError \<Rightarrow> Deterministic
       | OtherError \<Rightarrow> Transient))"

definition classifier :: "(exn \<Rightarrow> bool) \<Rightarrow> int \<Rightarrow> exn \<Rightarrow> failure_kind" where
  "classifier permanent handouts x =
     (let kind = classify permanent x in
      if kind = Transient \<and> MAX_REQUEUES \<le> handouts then Deterministic else kind)"

section \<open>UUID syntax\<close>

text \<open>
  \<open>uuid.UUID(data_id)\<close>: the prefixes, braces and dashes removed, thirty-two characters must be left
  and read as a hexadecimal integer.  A value that is no string has no \<open>replace\<close>.
\<close>

definition uuid_text :: "string \<Rightarrow> string" where
  "uuid_text s = filter (\<lambda>c. c \<noteq> CHR ''-'')
     (strip_by (\<lambda>c. c = CHR ''{'' \<or> c = CHR ''}'') (remove_all ''uuid:'' (remove_all ''urn:'' s)))"

definition valid_uuid :: "json \<Rightarrow> bool" where
  "valid_uuid v = (case v of
     JStr s \<Rightarrow> length (uuid_text s) = 32 \<and>
       (case py_int 16 (uuid_text s) of None \<Rightarrow> False | Some i \<Rightarrow> 0 \<le> i \<and> i < 2 ^ 128)
   | _ \<Rightarrow> False)"

section \<open>The veto and the purge\<close>

definition update_purge :: "(stale_purge \<Rightarrow> stale_purge) \<Rightarrow> ('z svc_scheme, unit) eff" where
  "update_purge f = modify (\<lambda>v. v\<lparr>v_purge := map_option f (v_purge v)\<rparr>)"

definition log_event :: "svc_event \<Rightarrow> ('z svc_scheme, unit) eff" where
  "log_event ev = modify (logged ev)"

definition dead_letters_waiting :: "senv \<Rightarrow> 'z svc_scheme \<Rightarrow> string \<Rightarrow> nat option" where
  "dead_letters_waiting e v data_type =
     (if \<not> v_connection v then None
      else (case dead_letter_queue_name (se_prefix e) AMQP_CONSUMER_ID data_type of
              Inl _ \<Rightarrow> None | Inr q \<Rightarrow> se_dead_letter_count e q))"

definition holds_dead_letters :: "senv \<Rightarrow> 'z svc_scheme \<Rightarrow> string \<Rightarrow> bool" where
  "holds_dead_letters e v t = (case dead_letters_waiting e v t of None \<Rightarrow> True | Some n \<Rightarrow> 0 < n)"

definition mark_waiting :: "senv \<Rightarrow> 'z svc_scheme \<Rightarrow> stale_purge \<Rightarrow> stale_purge" where
  "mark_waiting e v pu = fold (\<lambda>t pu. if holds_dead_letters e v t then record_dead_letter t pu else pu)
     (sorted_distinct (sp_expected_data_types pu)) pu"

definition dead_lettered_now :: "'z svc_scheme \<Rightarrow> string list" where
  "dead_lettered_now v = (case v_purge v of None \<Rightarrow> [] | Some pu \<Rightarrow> sorted_distinct (sp_dead_lettered pu))"

definition data_key :: "senv \<Rightarrow> obj \<Rightarrow> string option" where
  "data_key e data = extraction_key (lib_repr (e_lib (se_env e))) data"

definition settle_purge_veto :: "senv \<Rightarrow> obj \<Rightarrow> ('z svc_scheme, unit) eff" where
  "settle_purge_veto e data = bnd get_state (\<lambda>v. case v_purge v of
     None \<Rightarrow> ret ()
   | Some pu \<Rightarrow>
       if is_settled pu then ret ()
       else andthen (update_purge (mark_waiting e v))
        (case data_key e data of
           None \<Rightarrow> ret ()
         | Some version \<Rightarrow>
             if \<not> v_pool v then ret ()
             else if \<not> v_admission v then raise database_unavailable
             else bnd (recorded_vetoes (e_pg (se_env e)) version) (\<lambda>vetoing.
               andthen (update_purge (fold record_dead_letter vetoing))
               (bnd get_state (\<lambda>v. record_extraction (e_pg (se_env e)) version (dead_lettered_now v))))))"

definition report_purge_vetoes :: "senv \<Rightarrow> ('z svc_scheme, unit) eff" where
  "report_purge_vetoes e = bnd get_state (\<lambda>v.
     if \<not> v_pool v \<or> \<not> v_admission v then ret ()
     else bnd (try_catch (bnd (consecutive_vetoes (e_pg (se_env e))) (\<lambda>n. ret (Some n))) (\<lambda>_. ret None))
       (\<lambda>answer. case answer of
          None \<Rightarrow> ret ()
        | Some consecutive \<Rightarrow> andthen (log_event (VetoGauge consecutive))
            (if PURGE_VETO_ALERT_RUNS \<le> consecutive then log_event (VetoAlert consecutive) else ret ())))"

definition run_purge :: "senv \<Rightarrow> ('z svc_scheme, unit) eff" where
  "run_purge e = bnd get_state (\<lambda>v. case v_purge v of
     None \<Rightarrow> ret ()
   | Some pu \<Rightarrow> bnd (purge (e_pg (se_env e)) pu) (\<lambda>(deleted, pu'). update_purge (\<lambda>_. pu')))"

definition reconcile_deleted_child_rows :: "senv \<Rightarrow> string \<Rightarrow> obj \<Rightarrow> ('z svc_scheme, bool) eff" where
  "reconcile_deleted_child_rows e data_type data = bnd get_state (\<lambda>v. case v_purge v of
     None \<Rightarrow> ret True
   | Some pu \<Rightarrow>
       let pu' = record_completion (se_fromiso e) data_type data pu in
       andthen (update_purge (\<lambda>_. pu'))
       (if \<not> is_latched pu' then ret True
        else bnd (try_catch (andthen (settle_purge_veto e data) (andthen (run_purge e) (ret True))) (\<lambda>_. ret False))
          (\<lambda>ok. if ok then andthen (log_event BackoffReset) (andthen (report_purge_vetoes e) (ret True))
                else ret False)))"

section \<open>The handler\<close>

definition reject :: "string \<Rightarrow> string \<Rightarrow> ('z svc_scheme, delivery_result) eff" where
  "reject data_type error_type = andthen (update_purge (record_dead_letter data_type))
     (ret \<lparr>dr_settlement = REJECT, dr_outcome = ''failed'', dr_error_type = Some error_type\<rparr>)"

definition complete :: "string \<Rightarrow> ('z svc_scheme, unit) eff" where
  "complete data_type = modify (\<lambda>v. v\<lparr>v_completed_files := List.insert data_type (v_completed_files v)\<rparr>)"

definition withdraw :: "string \<Rightarrow> ('z svc_scheme, unit) eff" where
  "withdraw data_type = modify (\<lambda>v. v\<lparr>v_completed_files := removeAll data_type (v_completed_files v)\<rparr>)"

definition arm_timer :: "senv \<Rightarrow> string \<Rightarrow> ('z svc_scheme, unit) eff" where
  "arm_timer e data_type = modify (\<lambda>v.
     if 0 < se_cancel_delay e \<and> data_type \<in> set (v_queues v) then schedule_consumer_cancellation data_type v else v)"

definition reconciliation_failed :: exn where
  "reconciliation_failed = py_error ''ReconciliationFailed''"

definition handle_file_complete :: "senv \<Rightarrow> string \<Rightarrow> ('z svc_scheme, delivery_result) eff" where
  "handle_file_complete e data_type =
     andthen (arm_timer e data_type) (andthen (complete data_type) (ret (ack ''skipped'')))"

definition handle_extraction_complete :: "senv \<Rightarrow> string \<Rightarrow> obj \<Rightarrow> ('z svc_scheme, delivery_result) eff" where
  "handle_extraction_complete e data_type data =
     andthen (modify (pop_timer data_type)) (andthen (complete data_type)
     (bnd (reconcile_deleted_child_rows e data_type data) (\<lambda>ok.
        if \<not> ok then andthen (withdraw data_type) (raise reconciliation_failed)
        else andthen (arm_timer e data_type) (ret (ack ''skipped'')))))"

definition handle_record :: "senv \<Rightarrow> string \<Rightarrow> obj \<Rightarrow> ('z svc_scheme, delivery_result) eff" where
  "handle_record e data_type data =
     andthen (withdraw data_type) (andthen (modify (pop_timer data_type))
     (case map_of data ''id'' of
        None \<Rightarrow> reject data_type ''ValidationError''
      | Some data_id \<Rightarrow>
          if \<not> truthy data_id then reject data_type ''ValidationError''
          else if \<not> valid_uuid data_id then reject data_type ''ValidationError''
          else (case PROCESSORS (se_env e) data_type of
             None \<Rightarrow> reject data_type ''UnknownEntity''
           | Some processor \<Rightarrow> bnd get_state (\<lambda>v.
               if \<not> v_pool v then raise (py_error ''RuntimeError'')
               else if \<not> v_admission v then raise (py_error ''RuntimeError'')
               else andthen (transaction (e_pg (se_env e)) (processor data)) (ret (ack ''processed''))))))"

definition handle_data_message :: "senv \<Rightarrow> string \<Rightarrow> string \<Rightarrow> ('z svc_scheme, delivery_result) eff" where
  "handle_data_message e body data_type = (case se_loads e body of
     Inl x \<Rightarrow> reject data_type (exn_name x)
   | Inr v \<Rightarrow> bnd (of_result (as_dict v)) (\<lambda>data.
       let kind = get_none data ''type'' in
       if kind = JStr ''file_complete'' then handle_file_complete e data_type
       else if kind = JStr ''extraction_complete'' then handle_extraction_complete e data_type data
       else handle_record e data_type data))"

type_synonym authority = "(exn \<Rightarrow> failure_kind) \<Rightarrow> exn + delivery_result \<Rightarrow> delivery_result"

definition mark_rejected :: "string \<Rightarrow> delivery_result \<Rightarrow> ('z svc_scheme, unit) eff" where
  "mark_rejected data_type result =
     (if dr_settlement result = REJECT \<and> dr_error_type result \<noteq> Some ''ReconciliationFailed''
      then update_purge (record_dead_letter data_type) else ret ())"

definition count_processed :: "senv \<Rightarrow> string \<Rightarrow> delivery_result \<Rightarrow> ('z svc_scheme, unit) eff" where
  "count_processed e data_type result =
     (if dr_settlement result = ACK \<and> dr_outcome result = ''processed''
      then andthen (log_event BackoffReset) (modify (\<lambda>v. case map_of (v_message_counts v) data_type of
         None \<Rightarrow> v
       | Some n \<Rightarrow> v\<lparr>v_message_counts := AList.update data_type (Suc n) (v_message_counts v),
                     v_last_message_time := AList.update data_type (se_now e) (v_last_message_time v)\<rparr>))
      else ret ())"

definition on_data_message ::
  "senv \<Rightarrow> authority \<Rightarrow> json \<Rightarrow> string \<Rightarrow> string \<Rightarrow> 'z svc_scheme \<Rightarrow> delivery_result \<times> 'z svc_scheme" where
  "on_data_message e auth headers body data_type v =
     (if v_shutdown v then (\<lparr>dr_settlement = DEFER, dr_outcome = ''deferred'', dr_error_type = None\<rparr>, v)
      else
        let (outcome, v1) = handle_data_message e body data_type v;
            result = auth (classifier (se_permanent e) (broker_handouts headers)) outcome
        in (result, snd (andthen (mark_rejected data_type result) (count_processed e data_type result) v1)))"

text \<open>
  The callback \<open>make_data_handler\<close> subscribes for a data type.  \<open>admission\<close> is what entering
  \<open>write_admission.handler()\<close> of the shared runtime answers.
\<close>

definition data_handler ::
  "senv \<Rightarrow> authority \<Rightarrow> exn option \<Rightarrow> json \<Rightarrow> string \<Rightarrow> string \<Rightarrow> ('z svc_scheme, delivery_result) eff" where
  "data_handler e auth admission headers body data_type v =
     (if \<not> v_admission v then (Inl (py_error ''RuntimeError''), v)
      else case admission of
        Some x \<Rightarrow> (Inl x, v)
      | None \<Rightarrow> (case on_data_message e auth headers body data_type v of (result, v') \<Rightarrow> (Inr result, v')))"

text \<open>
  What \<open>run_delivery\<close> documents: the handler's result is the settlement; a failure the classifier calls
  transient is requeued, one it calls deterministic is rejected, and the error type is its class name.
\<close>

definition documented :: "authority \<Rightarrow> bool" where
  "documented auth \<longleftrightarrow> (\<forall>cl r. auth cl (Inr r) = r)
     \<and> (\<forall>cl x. dr_settlement (auth cl (Inl x)) = (if cl x = Deterministic then REJECT else REQUEUE)
              \<and> dr_error_type (auth cl (Inl x)) = Some (exn_name x))"

definition simple_authority :: authority where
  "simple_authority cl r = (case r of
     Inr d \<Rightarrow> d
   | Inl x \<Rightarrow> \<lparr>dr_settlement = (if cl x = Deterministic then REJECT else REQUEUE), dr_outcome = ''failed'',
               dr_error_type = Some (exn_name x)\<rparr>)"

lemma simple_authority_documented: "documented simple_authority"
  by (simp add: documented_def simple_authority_def)

section \<open>Frames\<close>

text \<open>What an operation leaves alone: the tables, and the two child tables.\<close>

definition same_db :: "'z sess_scheme \<Rightarrow> 'z sess_scheme \<Rightarrow> bool" where
  "same_db s s' \<longleftrightarrow> s_db s' = s_db s"

definition same_children :: "'z sess_scheme \<Rightarrow> 'z sess_scheme \<Rightarrow> bool" where
  "same_children s s' \<longleftrightarrow> db_relationships (s_db s') = db_relationships (s_db s)
     \<and> db_external_links (s_db s') = db_external_links (s_db s)"

text \<open>What the database calls leave alone: every global of the process.\<close>

definition same_globals :: "'z svc_scheme \<Rightarrow> 'z svc_scheme \<Rightarrow> bool" where
  "same_globals v v' \<longleftrightarrow> v'\<lparr>s_db := s_db v, s_trace := s_trace v\<rparr> = v"

lemma frame_orders [intro, simp]:
  "reflp same_db" "transp same_db" "reflp same_children" "transp same_children"
  by (simp_all add: reflp_def transp_def same_db_def same_children_def)

lemma same_globals_orders [intro, simp]: "reflp same_globals" "transp same_globals"
proof -
  show "reflp (same_globals :: 'z svc_scheme \<Rightarrow> _)" by (simp add: reflp_def same_globals_def)
  show "transp (same_globals :: 'z svc_scheme \<Rightarrow> _)"
    unfolding transp_def same_globals_def
  proof (intro allI impI)
    fix x y z :: "'z svc_scheme"
    assume x: "y\<lparr>s_db := s_db x, s_trace := s_trace x\<rparr> = x" and y: "z\<lparr>s_db := s_db y, s_trace := s_trace y\<rparr> = y"
    have "z\<lparr>s_db := s_db x, s_trace := s_trace x\<rparr> =
        (z\<lparr>s_db := s_db y, s_trace := s_trace y\<rparr>)\<lparr>s_db := s_db x, s_trace := s_trace x\<rparr>" by simp
    also have "\<dots> = x" by (simp only: y x)
    finally show "z\<lparr>s_db := s_db x, s_trace := s_trace x\<rparr> = x" .
  qed
qed

lemma exec_same_globals [intro, simp]: "keeps same_globals (exec p st)"
  by (auto simp: keeps_def exec_def same_globals_def Let_def split: option.splits sum.splits)

lemma transaction_same_globals [intro]:
  assumes "keeps same_globals body"
  shows "keeps same_globals (transaction p body)"
  unfolding keeps_def
proof
  fix s
  let ?m = "andthen (exec p Connect) (bnd body (\<lambda>x. andthen (exec p Commit) (ret x)))"
  have "keeps same_globals ?m" using assms by (auto intro!: keeps_andthen keeps_bnd keeps_ret)
  then have "same_globals s (snd (?m s))" by (simp add: keeps_def)
  then show "same_globals s (snd (transaction p body s))"
    unfolding transaction_def same_globals_def by (cases "?m s"; cases "fst (?m s)") auto
qed

lemma same_globalsD:
  assumes "same_globals v v'"
  shows "v_purge v' = v_purge v" "v_completed_files v' = v_completed_files v" "v_cancel_tasks v' = v_cancel_tasks v"
    "v_message_counts v' = v_message_counts v" "v_queues v' = v_queues v" "v_consumer_tags v' = v_consumer_tags v"
    "v_pool v' = v_pool v" "v_admission v' = v_admission v" "v_connection v' = v_connection v"
  using assms [unfolded same_globals_def, symmetric]
  by (metis (no_types) sess.update_convs svc.select_convs svc.surjective)+

lemma exec_same_children: "entity_stmt st \<Longrightarrow> keeps same_children (exec p st)"
  by (auto simp: keeps_def exec_def same_children_def Let_def split: option.splits sum.splits
      dest: run_entity_stmt)

lemma transaction_same_children [intro]:
  assumes "keeps same_children body"
  shows "keeps same_children (transaction p body)"
  unfolding keeps_def
proof
  fix s
  let ?m = "andthen (exec p Connect) (bnd body (\<lambda>x. andthen (exec p Commit) (ret x)))"
  have "keeps same_children ?m"
    using assms by (auto intro!: keeps_andthen keeps_bnd keeps_ret exec_same_children)
  then have "same_children s (snd (?m s))" by (simp add: keeps_def)
  then show "same_children s (snd (transaction p body s))"
    unfolding transaction_def same_children_def by (cases "?m s"; cases "fst (?m s)") auto
qed

lemma veto_calls_frames:
  "keeps same_children (recorded_vetoes p version)" "keeps same_children (record_extraction p version vs)"
  "keeps same_children (consecutive_vetoes p)"
  unfolding recorded_vetoes_def record_extraction_def consecutive_vetoes_def
  by (auto intro!: transaction_same_children keeps_andthen keeps_bnd keeps_get_state keeps_ret exec_same_children)

lemma veto_calls_globals:
  "keeps same_globals (recorded_vetoes p version)" "keeps same_globals (record_extraction p version vs)"
  "keeps same_globals (consecutive_vetoes p)"
  unfolding recorded_vetoes_def record_extraction_def consecutive_vetoes_def
  by (auto intro!: transaction_same_globals keeps_andthen keeps_bnd keeps_get_state keeps_ret)

lemma local_frames [intro, simp]:
  "keeps same_db (update_purge f)" "keeps same_db (log_event ev)" "keeps same_db (complete t)"
  "keeps same_db (withdraw t)" "keeps same_db (arm_timer e t)" "keeps same_db (modify (pop_timer t))"
  by (simp_all add: keeps_def same_db_def update_purge_def log_event_def logged_def complete_def withdraw_def
      arm_timer_def pop_timer_def schedule_consumer_cancellation_def Let_def)

lemma same_db_children: "keeps same_db m \<Longrightarrow> keeps same_children m"
  by (simp add: keeps_def same_db_def same_children_def)

lemma settlement_frames:
  "keeps same_db (mark_rejected t r)" "keeps same_db (count_processed e t r)"
proof -
  show "keeps same_db (mark_rejected t r)" by (auto simp: mark_rejected_def)
  have "keeps same_db (modify (\<lambda>v. case map_of (v_message_counts v) t of None \<Rightarrow> v
       | Some n \<Rightarrow> v\<lparr>v_message_counts := AList.update t (Suc n) (v_message_counts v),
                     v_last_message_time := AList.update t (se_now e) (v_last_message_time v)\<rparr>))"
    by (auto simp: keeps_def same_db_def split: option.splits)
  then show "keeps same_db (count_processed e t r)" by (auto simp: count_processed_def intro!: keeps_andthen)
qed

section \<open>Records\<close>

lemma keepsD_db: "keeps same_db m \<Longrightarrow> m s = (r, s') \<Longrightarrow> s_db s' = s_db s"
  by (auto simp: same_db_def dest: keepsD)

lemma reject_db: "reject t x v = (r, v') \<Longrightarrow> s_db v' = s_db v
    \<and> (\<exists>d. r = Inr d \<and> dr_settlement d = REJECT)"
  by (auto simp: reject_def update_purge_def)

text \<open>A record message either commits its processor's transaction or leaves the tables alone.\<close>

lemma handle_record_cases:
  fixes v v' :: "'z svc_scheme"
  assumes "handle_record e t data v = (r, v')"
  shows "(\<exists>f (v1 :: 'z svc_scheme) v2. PROCESSORS (se_env e) t = Some f \<and> s_db v1 = s_db v \<and> f data v1 = (Inr (), v2)
      \<and> s_db v' = s_db v2 \<and> r = Inr (ack ''processed''))
    \<or> s_db v' = s_db v \<and> (\<forall>d. r = Inr d \<longrightarrow> dr_settlement d = REJECT)"
proof -
  obtain v0 where v0: "andthen (withdraw t) (modify (pop_timer t)) v = (Inr (), v0)"
    by (simp add: withdraw_def andthen_def bnd_def)
  have db0: "s_db v0 = s_db v"
    by (rule keepsD_db [where m = "andthen (withdraw t) (modify (pop_timer t))" and s = v])
      (auto intro!: keeps_andthen simp: v0)
  let ?rest = "case map_of data ''id'' of
        None \<Rightarrow> reject t ''ValidationError''
      | Some data_id \<Rightarrow>
          if \<not> truthy data_id then reject t ''ValidationError''
          else if \<not> valid_uuid data_id then reject t ''ValidationError''
          else (case PROCESSORS (se_env e) t of
             None \<Rightarrow> reject t ''UnknownEntity''
           | Some processor \<Rightarrow> bnd get_state (\<lambda>v.
               if \<not> v_pool v then raise (py_error ''RuntimeError'')
               else if \<not> v_admission v then raise (py_error ''RuntimeError'')
               else andthen (transaction (e_pg (se_env e)) (processor data)) (ret (ack ''processed''))))"
  have run: "?rest v0 = (r, v')"
    using assms v0 by (simp add: handle_record_def withdraw_def)
  show ?thesis
  proof (cases "\<exists>data_id (f :: obj \<Rightarrow> ('z svc_scheme, unit) eff). map_of data ''id'' = Some data_id \<and> truthy data_id \<and> valid_uuid data_id
      \<and> PROCESSORS (se_env e) t = Some f \<and> v_pool v0 \<and> v_admission v0")
    case False
    with run db0 show ?thesis
      by (auto split: option.splits if_splits dest: reject_db)
  next
    case True
    then obtain f where f: "PROCESSORS (se_env e) t = Some f"
      and tx: "andthen (transaction (e_pg (se_env e)) (f data)) (ret (ack ''processed'')) v0 = (r, v')"
      using run by auto
    obtain x v1 where t1: "transaction (e_pg (se_env e)) (f data) v0 = (x, v1)" by fastforce
    show ?thesis
    proof (cases x)
      case (Inl y)
      with t1 have "s_db v1 = s_db v0" using transaction_Inl_db by blast
      with Inl t1 tx db0 show ?thesis by auto
    next
      case (Inr u)
      obtain s1 s2 where c: "sent (e_pg (se_env e)) [Connect] v0 s1" and body: "f data s1 = (Inr u, s2)"
        and c2: "sent (e_pg (se_env e)) [Commit] s2 v1"
        by (rule transaction_InrE [OF t1 [unfolded Inr]])
      from c c2 have "s_db s1 = s_db v" "s_db v1 = s_db s2" using db0 by simp_all
      with f body Inr t1 tx show ?thesis by auto
    qed
  qed
qed

lemma on_data_message_run:
  fixes v v' :: "'z svc_scheme"
  assumes "\<not> v_shutdown v" and "on_data_message e auth headers body t v = (r, v')"
  obtains outcome v1 where "handle_data_message e body t v = (outcome, v1)"
    and "r = auth (classifier (se_permanent e) (broker_handouts headers)) outcome"
    and "s_db v' = s_db v1"
    and "v' = snd (andthen (mark_rejected t r) (count_processed e t r) v1)"
proof -
  obtain outcome v1 where h: "handle_data_message e body t v = (outcome, v1)" by fastforce
  with assms have r: "r = auth (classifier (se_permanent e) (broker_handouts headers)) outcome"
    and v': "v' = snd (andthen (mark_rejected t r) (count_processed e t r) v1)"
    by (auto simp: on_data_message_def Let_def)
  have "keeps same_db (andthen (mark_rejected t r) (count_processed e t r) :: ('z svc_scheme, unit) eff)"
    by (intro keeps_andthen settlement_frames) simp
  then have "s_db v' = s_db v1" by (simp add: v' keeps_def same_db_def)
  with h r v' show thesis by (intro that)
qed

lemma documented_ACK:
  "documented auth \<Longrightarrow> dr_settlement (auth cl outcome) = ACK \<Longrightarrow> outcome = Inr (auth cl outcome)"
  by (cases outcome) (auto simp: documented_def split: if_splits)

definition is_record :: "obj \<Rightarrow> bool" where
  "is_record data \<longleftrightarrow> get_none data ''type'' \<noteq> JStr ''file_complete''
     \<and> get_none data ''type'' \<noteq> JStr ''extraction_complete''"

lemma handle_record_message:
  "se_loads e body = Inr (JObj data) \<Longrightarrow> is_record data \<Longrightarrow>
     handle_data_message e body t v = handle_record e t data v"
  by (simp add: handle_data_message_def is_record_def Let_def as_dict_def)

section \<open>Gathering the veto\<close>

text \<open>An operation on the purge that only adds dead-letter marks.\<close>

definition marks :: "stale_purge \<Rightarrow> stale_purge \<Rightarrow> bool" where
  "marks pu pu' \<longleftrightarrow> pu'\<lparr>sp_dead_lettered := sp_dead_lettered pu\<rparr> = pu
     \<and> set (sp_dead_lettered pu) \<subseteq> set (sp_dead_lettered pu')"

lemma marks_refl [simp]: "marks pu pu"
  by (simp add: marks_def)

lemma marks_trans: "marks a b \<Longrightarrow> marks b c \<Longrightarrow> marks a c"
proof -
  assume ab: "marks a b" and bc: "marks b c"
  then have b: "c\<lparr>sp_dead_lettered := sp_dead_lettered b\<rparr> = b" and a: "b\<lparr>sp_dead_lettered := sp_dead_lettered a\<rparr> = a"
    by (simp_all add: marks_def)
  have "c\<lparr>sp_dead_lettered := sp_dead_lettered a\<rparr> =
      (c\<lparr>sp_dead_lettered := sp_dead_lettered b\<rparr>)\<lparr>sp_dead_lettered := sp_dead_lettered a\<rparr>" by simp
  also have "\<dots> = a" by (simp only: b a)
  finally show "marks a c" using ab bc by (auto simp: marks_def)
qed

lemma record_dead_letter_marks [simp]: "marks pu (record_dead_letter t pu)"
  by (auto simp: marks_def record_dead_letter_def)

lemma fold_marks: "(\<And>x pu. x \<in> set xs \<Longrightarrow> marks pu (f x pu)) \<Longrightarrow> marks pu (fold f xs pu)"
  by (induction xs arbitrary: pu) (auto intro: marks_trans)

lemma mark_waiting_marks [simp]: "marks pu (mark_waiting e v pu)"
  unfolding mark_waiting_def by (rule fold_marks) simp

lemma marks_fields:
  assumes "marks pu pu'"
  shows "sp_boundary pu' = sp_boundary pu" "sp_signals pu' = sp_signals pu"
    "sp_expected_data_types pu' = sp_expected_data_types pu" "sp_settled_boundary pu' = sp_settled_boundary pu"
    "is_latched pu' = is_latched pu" "is_settled pu' = is_settled pu"
proof -
  from assms obtain ms where "pu' = pu\<lparr>sp_dead_lettered := ms\<rparr>"
    unfolding marks_def by (metis stale_purge.update_convs(7) stale_purge.surjective)
  then show "sp_boundary pu' = sp_boundary pu" "sp_signals pu' = sp_signals pu"
    "sp_expected_data_types pu' = sp_expected_data_types pu" "sp_settled_boundary pu' = sp_settled_boundary pu"
    "is_latched pu' = is_latched pu" "is_settled pu' = is_settled pu"
    by (simp_all add: is_latched_def is_settled_def signalled_def)
qed

lemma marks_nonempty: "marks pu pu' \<Longrightarrow> sp_dead_lettered pu \<noteq> [] \<Longrightarrow> sp_dead_lettered pu' \<noteq> []"
  by (auto simp: marks_def)

lemma fold_mark_some:
  assumes "x \<in> set xs" and "P x"
  shows "sp_dead_lettered (fold (\<lambda>t pu. if P t then record_dead_letter t pu else pu) xs pu) \<noteq> []"
  using assms
proof (induction xs arbitrary: pu)
  case Nil
  then show ?case by simp
next
  case (Cons a xs)
  have m: "marks pu (fold (\<lambda>t pu. if P t then record_dead_letter t pu else pu) xs pu)" for pu
    by (rule fold_marks) simp
  show ?case
  proof (cases "x = a")
    case True
    with Cons.prems have "sp_dead_lettered (record_dead_letter a pu) \<noteq> []" and "P a"
      by (auto simp: record_dead_letter_def List.insert_def)
    with True show ?thesis by (simp add: marks_nonempty [OF m])
  next
    case False
    with Cons show ?thesis by simp
  qed
qed

definition purge_marked :: "'z svc_scheme \<Rightarrow> 'z svc_scheme \<Rightarrow> bool" where
  "purge_marked v v' \<longleftrightarrow> (case v_purge v of None \<Rightarrow> v_purge v' = None
     | Some pu \<Rightarrow> \<exists>pu'. v_purge v' = Some pu' \<and> marks pu pu')"

lemma purge_marked_orders [intro, simp]: "reflp purge_marked" "transp purge_marked"
  by (auto simp: reflp_def transp_def purge_marked_def intro: marks_trans split: option.splits)

lemma same_globals_purge: "same_globals v v' \<Longrightarrow> purge_marked v v'"
  by (drule same_globalsD(1)) (simp add: purge_marked_def split: option.split)

lemma same_globals_marked: "keeps same_globals m \<Longrightarrow> keeps purge_marked m"
  unfolding keeps_def by (blast intro: same_globals_purge)

lemma update_purge_marked: "(\<And>pu. marks pu (f pu)) \<Longrightarrow> keeps purge_marked (update_purge f)"
  by (auto simp: keeps_def purge_marked_def update_purge_def split: option.splits)

lemma update_marking_marked:
  "keeps purge_marked (update_purge (mark_waiting e v))" "keeps purge_marked (update_purge (fold record_dead_letter ts))"
  by (auto intro!: update_purge_marked fold_marks)

lemma settle_purge_veto_frames:
  "keeps same_children (settle_purge_veto e data)" "keeps purge_marked (settle_purge_veto e data)"
  unfolding settle_purge_veto_def
  by (auto intro!: keeps_bnd keeps_andthen keeps_get_state keeps_ret keeps_raise veto_calls_frames
      same_db_children [OF local_frames(1)] same_globals_marked [OF veto_calls_globals(1)]
      same_globals_marked [OF veto_calls_globals(2)] update_marking_marked
      split: option.splits)

lemma keeps_run: "keeps R m \<Longrightarrow> R s (snd (m s))"
  by (simp add: keeps_def)

text \<open>If the veto has any source, gathering it leaves a mark (or the extraction was settled already).\<close>

definition veto_sourced :: "senv \<Rightarrow> obj \<Rightarrow> stale_purge \<Rightarrow> 'z svc_scheme \<Rightarrow> bool" where
  "veto_sourced e data pu v \<longleftrightarrow>
     sp_dead_lettered pu \<noteq> [] \<or> (\<exists>t \<in> set (sp_expected_data_types pu). dead_letters_waiting e v t \<noteq> Some 0)
     \<or> (v_pool v \<and> (\<exists>version. data_key e data = Some version \<and> vetoes_of version (s_db v) \<noteq> []))"

lemma holds_dead_letters_iff: "holds_dead_letters e v t \<longleftrightarrow> dead_letters_waiting e v t \<noteq> Some 0"
  by (simp add: holds_dead_letters_def split: option.split)

lemma fold_record_nonempty: "ts \<noteq> [] \<Longrightarrow> sp_dead_lettered (fold record_dead_letter ts pu) \<noteq> []"
  using fold_mark_some [where P = "\<lambda>_. True" and x = "hd ts" and xs = ts and pu = pu] by simp

lemma settle_purge_veto_gathers:
  assumes run: "settle_purge_veto e data v = (Inr (), v')" and pu: "v_purge v = Some pu"
    and undecided: "\<not> is_settled pu" and src: "veto_sourced e data pu v"
  obtains pu' where "v_purge v' = Some pu'" and "marks pu pu'" and "sp_dead_lettered pu' \<noteq> []"
proof -
  let ?p = "e_pg (se_env e)" and ?pu1 = "mark_waiting e v pu"
  let ?v1 = "v\<lparr>v_purge := Some ?pu1\<rparr>"
  let ?rest = "case data_key e data of
           None \<Rightarrow> ret ()
         | Some version \<Rightarrow>
             if \<not> v_pool v then ret ()
             else if \<not> v_admission v then raise database_unavailable
             else bnd (recorded_vetoes ?p version) (\<lambda>vetoing.
               andthen (update_purge (fold record_dead_letter vetoing))
               (bnd get_state (\<lambda>v. record_extraction ?p version (dead_lettered_now v))))"
  have rest: "?rest ?v1 = (Inr (), v')"
    using run pu undecided by (simp add: settle_purge_veto_def update_purge_def)
  from keepsD [OF settle_purge_veto_frames(2) run] pu obtain pu' where
    pu': "v_purge v' = Some pu'" "marks pu pu'" by (auto simp: purge_marked_def)
  have marked_rest: "keeps purge_marked ?rest"
    by (auto intro!: keeps_bnd keeps_andthen keeps_get_state keeps_ret keeps_raise
      same_globals_marked [OF veto_calls_globals(1)] same_globals_marked [OF veto_calls_globals(2)]
      update_marking_marked split: option.splits)
  from keepsD [OF marked_rest rest] pu' have m1: "marks ?pu1 pu'" by (auto simp: purge_marked_def)
  have "sp_dead_lettered pu' \<noteq> []"
  proof (cases "sp_dead_lettered ?pu1 = []")
    case False
    with m1 show ?thesis by (rule marks_nonempty)
  next
    case True
    with mark_waiting_marks [of pu e v] have "sp_dead_lettered pu = []" by (auto simp: marks_def)
    moreover from True have "\<not> (\<exists>t \<in> set (sp_expected_data_types pu). holds_dead_letters e v t)"
      unfolding mark_waiting_def using fold_mark_some [where P = "holds_dead_letters e v"] by fastforce
    ultimately obtain version where key: "data_key e data = Some version" and pool: "v_pool v"
      and old: "vetoes_of version (s_db v) \<noteq> []"
      using src by (auto simp: veto_sourced_def holds_dead_letters_iff)
    with rest have "v_admission v" by (auto split: if_splits)
    with rest key pool obtain vetoing v2 where rec: "recorded_vetoes ?p version ?v1 = (Inr vetoing, v2)"
      and more: "andthen (update_purge (fold record_dead_letter vetoing))
               (bnd get_state (\<lambda>v. record_extraction ?p version (dead_lettered_now v))) v2 = (Inr (), v')"
      by (auto elim!: bnd_InrE)
    from recorded_vetoes_Inr [OF rec] old have "vetoing \<noteq> []" by simp
    from keepsD [OF veto_calls_globals(1) rec] have p2: "v_purge v2 = Some ?pu1"
      by (simp add: same_globalsD(1))
    let ?v3 = "v2\<lparr>v_purge := Some (fold record_dead_letter vetoing ?pu1)\<rparr>"
    from more p2 have "record_extraction ?p version (dead_lettered_now ?v3) ?v3 = (Inr (), v')"
      by (simp add: update_purge_def)
    from keepsD [OF veto_calls_globals(2) this] pu' have "pu' = fold record_dead_letter vetoing ?pu1"
      by (simp add: same_globalsD(1))
    with fold_record_nonempty [OF \<open>vetoing \<noteq> []\<close>] show ?thesis by simp
  qed
  with pu' show thesis by (rule that)
qed

section \<open>The reconciliation step\<close>

lemma keeps_marked_settled: "marks pu pu' \<Longrightarrow> is_settled pu \<Longrightarrow> is_latched pu \<Longrightarrow> veto_reason pu' \<noteq> None"
  using marks_fields [of pu pu'] by (auto simp: veto_reason_def is_settled_def)

lemma purge_table_globals: "keeps same_globals (purge_table p cap b t)"
  unfolding purge_table_def Let_def
  by (auto intro!: keeps_andthen keeps_bnd keeps_get_state keeps_ret)

lemma purge_tables_globals: "keeps same_globals (purge_tables p cap b ts)"
proof (induction ts)
  case Nil
  show ?case by (simp add: keeps_def same_globals_def)
next
  case (Cons t ts)
  then show ?case by (auto intro!: keeps_bnd keeps_ret purge_table_globals)
qed

lemma purge_same_globals: "keeps same_globals (purge p pu)"
  unfolding purge_def
  by (auto intro!: keeps_ret keeps_raise keeps_bnd transaction_same_globals purge_tables_globals split: option.splits)

lemma run_purge_Inr:
  assumes "run_purge e v = (Inr (), v')" and "v_purge v = Some pu" and "is_latched pu"
  obtains deleted v1 where "purge (e_pg (se_env e)) pu v = (Inr (deleted, settle (sp_boundary pu) pu), v1)"
    and "v' = v1\<lparr>v_purge := Some (settle (sp_boundary pu) pu)\<rparr>" and "v_purge v1 = Some pu"
proof -
  from assms obtain deleted pu' v1 where run: "purge (e_pg (se_env e)) pu v = (Inr (deleted, pu'), v1)"
    and v': "update_purge (\<lambda>_. pu') v1 = (Inr (), v')"
    by (auto simp: run_purge_def elim!: bnd_InrE)
  from purge_decides [OF run] assms(3) have pu': "pu' = settle (sp_boundary pu) pu" by simp
  from keepsD [OF purge_same_globals run] have "v_purge v1 = Some pu" using assms(2) by (simp add: same_globalsD(1))
  with run v' pu' show thesis by (intro that) (auto simp: update_purge_def)
qed

lemma report_purge_vetoes_frames:
  "keeps same_children (report_purge_vetoes e)" "keeps purge_marked (report_purge_vetoes e)"
proof -
  have "keeps purge_marked (log_event ev)" for ev
    by (simp add: keeps_def purge_marked_def log_event_def logged_def split: option.splits)
  then show "keeps purge_marked (report_purge_vetoes e)"
    unfolding report_purge_vetoes_def
    by (auto intro!: keeps_bnd keeps_andthen keeps_get_state keeps_ret keeps_try_catch
        same_globals_marked [OF veto_calls_globals(3)] split: option.splits)
  show "keeps same_children (report_purge_vetoes e)"
    unfolding report_purge_vetoes_def
    by (auto intro!: keeps_bnd keeps_andthen keeps_get_state keeps_ret keeps_try_catch veto_calls_frames
        same_db_children [OF local_frames(2)] split: option.splits)
qed

text \<open>The body of the \<open>try\<close> block.\<close>

definition gather_and_purge :: "senv \<Rightarrow> obj \<Rightarrow> ('z svc_scheme, bool) eff" where
  "gather_and_purge e data = andthen (settle_purge_veto e data) (andthen (run_purge e) (ret True))"

lemma gather_and_purge_Inr:
  assumes "gather_and_purge e data v = (Inr b, v')" and "v_purge v = Some pu" and "is_latched pu"
  obtains v1 v2 pu' deleted where "b" and "settle_purge_veto e data v = (Inr (), v1)"
    and "v_purge v1 = Some pu'" and "marks pu pu'"
    and "purge (e_pg (se_env e)) pu' v1 = (Inr (deleted, settle (sp_boundary pu') pu'), v2)"
    and "v' = v2\<lparr>v_purge := Some (settle (sp_boundary pu') pu')\<rparr>"
proof -
  from assms(1) obtain v1 where gather: "settle_purge_veto e data v = (Inr (), v1)"
    and rest: "andthen (run_purge e) (ret True) v1 = (Inr b, v')"
    unfolding gather_and_purge_def by (rule andthen_InrE)
  from rest obtain v2 where run: "run_purge e v1 = (Inr (), v2)" and v': "b" "v' = v2"
    by (auto elim: andthen_InrE)
  from keepsD [OF settle_purge_veto_frames(2) gather] assms(2) obtain pu' where
    pu': "v_purge v1 = Some pu'" "marks pu pu'" by (auto simp: purge_marked_def)
  with assms(3) have "is_latched pu'" by (simp add: marks_fields)
  from run_purge_Inr [OF run pu'(1) this] obtain deleted v3 where
    "purge (e_pg (se_env e)) pu' v1 = (Inr (deleted, settle (sp_boundary pu') pu'), v3)"
    and "v2 = v3\<lparr>v_purge := Some (settle (sp_boundary pu') pu')\<rparr>" by blast
  with gather pu' v' show thesis by (intro that) auto
qed

lemma reconcile_cases:
  assumes run: "reconcile_deleted_child_rows e t data v = (r, v')" and pu: "v_purge v = Some pu"
  defines "pu1 \<equiv> record_completion (se_fromiso e) t data pu"
  obtains (waiting) "\<not> is_latched pu1" "r = Inr True" "v' = v\<lparr>v_purge := Some pu1\<rparr>"
    | (failed) x where "is_latched pu1" "r = Inr False"
        "gather_and_purge e data (v\<lparr>v_purge := Some pu1\<rparr>) = (Inl x, v')"
    | (decided) v2 where "is_latched pu1" "r = Inr True"
        "gather_and_purge e data (v\<lparr>v_purge := Some pu1\<rparr>) = (Inr True, v2)"
        "same_children v2 v'" "purge_marked v2 v'"
proof -
  let ?v1 = "v\<lparr>v_purge := Some pu1\<rparr>"
  obtain g v2 where g: "gather_and_purge e data ?v1 = (g, v2)" by fastforce
  show thesis
  proof (cases "is_latched pu1")
    case False
    with run pu show ?thesis
      by (intro waiting) (auto simp: reconcile_deleted_child_rows_def pu1_def update_purge_def Let_def)
  next
    case True
    with run pu have main: "bnd (try_catch (gather_and_purge e data) (\<lambda>_. ret False))
          (\<lambda>ok. if ok then andthen (log_event BackoffReset) (andthen (report_purge_vetoes e) (ret True))
                else ret False) ?v1 = (r, v')"
      by (auto simp: reconcile_deleted_child_rows_def pu1_def update_purge_def gather_and_purge_def Let_def)
    show ?thesis
    proof (cases g)
      case (Inl x)
      with main g have "r = Inr False" "v' = v2" by (auto simp: try_catch_def bnd_def)
      with True Inl g show ?thesis by (intro failed) auto
    next
      case (Inr b)
      have "pu1 = the (v_purge ?v1)" by simp
      from Inr g have "gather_and_purge e data ?v1 = (Inr b, v2)" by simp
      then have b by (rule gather_and_purge_Inr [where pu = pu1]) (use True in auto)
      with Inr main g have tail: "andthen (log_event BackoffReset) (andthen (report_purge_vetoes e) (ret True)) v2 = (r, v')"
        by (auto simp: try_catch_def bnd_def)
      then obtain v3 rr where rep: "report_purge_vetoes e (logged BackoffReset v2) = (rr, v3)" by fastforce
      have total: "\<exists>u. rr = Inr u"
        using rep by (auto simp: report_purge_vetoes_def bnd_def try_catch_def log_event_def split: if_splits sum.splits prod.splits option.splits)
      with rep tail have "r = Inr True" "v' = v3" by (auto simp: log_event_def)
      moreover from keepsD [OF report_purge_vetoes_frames(1) rep] have "same_children v2 v3"
        by (simp add: same_children_def logged_def)
      moreover from keepsD [OF report_purge_vetoes_frames(2) rep] have "purge_marked v2 v3"
        by (simp add: purge_marked_def logged_def)
      ultimately show ?thesis using True Inr g \<open>b\<close> by (intro decided) auto
    qed
  qed
qed

section \<open>The process globals across a delivery\<close>

definition same_completed :: "'z svc_scheme \<Rightarrow> 'z svc_scheme \<Rightarrow> bool" where
  "same_completed v v' \<longleftrightarrow> v_completed_files v' = v_completed_files v"

text \<open>The purge object is created once: a delivery never drops it nor makes one.\<close>

definition same_purging :: "'z svc_scheme \<Rightarrow> 'z svc_scheme \<Rightarrow> bool" where
  "same_purging v v' \<longleftrightarrow> (v_purge v' = None) = (v_purge v = None)"

lemma global_orders [intro, simp]:
  "reflp same_completed" "transp same_completed" "reflp same_purging" "transp same_purging"
  by (auto simp: reflp_def transp_def same_completed_def same_purging_def)

lemma more_globals:
  assumes "same_more v v'"
  shows "same_completed v v'" "same_purging v v'" "purge_marked v v'"
  using assms by (cases v; cases v'; simp add: same_more_def same_completed_def same_purging_def purge_marked_def
      split: option.splits)+

lemma globals_more: "keeps same_globals m \<Longrightarrow> keeps same_completed m \<and> keeps same_purging m"
  unfolding keeps_def same_completed_def same_purging_def by (metis same_globalsD(1,2))

lemma update_completed [intro, simp]: "keeps same_completed (update_purge f)" "keeps same_completed (log_event ev)"
  "keeps same_purging (update_purge f)" "keeps same_purging (log_event ev)" "keeps same_purging (complete t)"
  "keeps same_purging (withdraw t)" "keeps same_purging (arm_timer e t)" "keeps same_purging (modify (pop_timer t))"
  "keeps same_completed (arm_timer e t)" "keeps same_completed (modify (pop_timer t))"
  by (simp_all add: keeps_def same_completed_def same_purging_def update_purge_def log_event_def logged_def complete_def
      withdraw_def arm_timer_def pop_timer_def schedule_consumer_cancellation_def Let_def)

lemma veto_calls_globals':
  "keeps same_completed (recorded_vetoes p version)" "keeps same_completed (record_extraction p version vs)"
  "keeps same_completed (consecutive_vetoes p)" "keeps same_purging (recorded_vetoes p version)"
  "keeps same_purging (record_extraction p version vs)" "keeps same_purging (consecutive_vetoes p)"
  using veto_calls_globals globals_more by blast+

lemma purge_globals:
  "keeps same_completed (purge p pu)" "keeps same_purging (purge p pu)"
  using globals_more [OF purge_same_globals] by blast+

lemma settle_purge_veto_globals:
  "keeps same_completed (settle_purge_veto e data)" "keeps same_purging (settle_purge_veto e data)"
  unfolding settle_purge_veto_def
  by (auto intro!: keeps_bnd keeps_andthen keeps_get_state keeps_ret keeps_raise veto_calls_globals' split: option.splits)

lemma report_globals:
  "keeps same_completed (report_purge_vetoes e)" "keeps same_purging (report_purge_vetoes e)"
  unfolding report_purge_vetoes_def
  by (auto intro!: keeps_bnd keeps_andthen keeps_get_state keeps_ret keeps_try_catch veto_calls_globals' split: option.splits)

lemma run_purge_globals:
  "keeps same_completed (run_purge e)" "keeps same_purging (run_purge e)"
  unfolding run_purge_def
  by (auto intro!: keeps_bnd keeps_get_state keeps_ret purge_globals split: option.splits prod.splits)

lemma reconcile_globals:
  "keeps same_completed (reconcile_deleted_child_rows e t data)" "keeps same_purging (reconcile_deleted_child_rows e t data)"
  unfolding reconcile_deleted_child_rows_def Let_def
  by (auto intro!: keeps_bnd keeps_andthen keeps_get_state keeps_ret keeps_try_catch settle_purge_veto_globals
      run_purge_globals report_globals split: option.splits)

lemma transaction_same_more [intro]:
  assumes "keeps same_more body"
  shows "keeps same_more (transaction p body)"
  unfolding keeps_def
proof
  fix s
  let ?m = "andthen (exec p Connect) (bnd body (\<lambda>x. andthen (exec p Commit) (ret x)))"
  have "keeps same_more ?m" using assms by (auto intro!: keeps_andthen keeps_bnd keeps_ret)
  then have "same_more s (snd (?m s))" by (simp add: keeps_def)
  then show "same_more s (snd (transaction p body s))"
    unfolding transaction_def same_more_def by (cases "?m s"; cases "fst (?m s)") auto
qed

lemma processed_globals:
  assumes "PROCESSORS e t = Some f"
  shows "keeps same_purging (transaction p (f record))"
  unfolding keeps_def
  using more_globals(2) transaction_same_more [OF processor_same_more [OF assms], unfolded keeps_def] by blast

lemma handle_keeps_purging: "keeps same_purging (handle_data_message e body t)"
  unfolding handle_data_message_def handle_file_complete_def handle_extraction_complete_def handle_record_def
    reject_def Let_def
  by (auto intro!: keeps_bnd keeps_andthen keeps_get_state keeps_ret keeps_raise keeps_of_result reconcile_globals
      processed_globals split: sum.splits option.splits)

section \<open>Vetoed purges\<close>

lemma settle_keeps_children_vetoed:
  assumes "gather_and_purge e data v = (Inr b, v')" and pu: "v_purge v = Some pu" "is_latched pu"
    and src: "veto_sourced e data pu v \<or> is_settled pu"
  shows "same_children v v'"
proof -
  from assms(1) pu obtain v1 v2 pu' deleted where
    gather: "settle_purge_veto e data v = (Inr (), v1)" and p1: "v_purge v1 = Some pu'" and m: "marks pu pu'"
    and run: "purge (e_pg (se_env e)) pu' v1 = (Inr (deleted, settle (sp_boundary pu') pu'), v2)"
    and v': "v' = v2\<lparr>v_purge := Some (settle (sp_boundary pu') pu')\<rparr>"
    by (rule gather_and_purge_Inr)
  have "veto_reason pu' \<noteq> None"
  proof (cases "is_settled pu")
    case True
    with m pu(2) show ?thesis by (intro keeps_marked_settled)
  next
    case False
    with src have "veto_sourced e data pu v" by simp
    from settle_purge_veto_gathers [OF gather pu(1) False this] p1 have "sp_dead_lettered pu' \<noteq> []" by auto
    then show ?thesis by (rule marked_vetoes)
  qed
  then obtain w where "veto_reason pu' = Some w" by blast
  with run have "v2 = v1" by (simp add: purge_vetoed_Inr)
  with keepsD [OF settle_purge_veto_frames(1) gather] v' show ?thesis by (simp add: same_children_def)
qed

lemma failed_keeps_children:
  assumes "gather_and_purge e data v = (Inl x, v')" and pu: "v_purge v = Some pu"
  shows "same_children v v'"
proof -
  obtain r v1 where gather: "settle_purge_veto e data v = (r, v1)" by fastforce
  note c1 = keepsD [OF settle_purge_veto_frames(1) gather]
  show ?thesis
  proof (cases r)
    case (Inl y)
    with assms gather c1 show ?thesis by (auto simp: gather_and_purge_def)
  next
    case (Inr u)
    from keepsD [OF settle_purge_veto_frames(2) gather] pu obtain pu' where p1: "v_purge v1 = Some pu'"
      by (auto simp: purge_marked_def)
    obtain q v2 where q: "purge (e_pg (se_env e)) pu' v1 = (q, v2)" by fastforce
    with assms gather Inr p1 obtain y where "q = Inl y" and v': "v' = v2"
      by (cases q) (auto simp: gather_and_purge_def run_purge_def andthen_def bnd_def update_purge_def)
    with q have "s_db v2 = s_db v1" using purge_Inl_db by blast
    with c1 v' show ?thesis by (simp add: same_children_def)
  qed
qed

lemma reconcile_keeps_children_vetoed:
  assumes run: "reconcile_deleted_child_rows e t data v = (r, v')" and pu: "v_purge v = Some pu"
    and src: "veto_sourced e data (record_completion (se_fromiso e) t data pu) v"
  shows "same_children v v'"
  using run pu
proof (cases rule: reconcile_cases)
  case waiting
  then show ?thesis by (simp add: same_children_def)
next
  case (failed x)
  from failed_keeps_children [OF failed(3)] show ?thesis by (simp add: same_children_def)
next
  case (decided v2)
  let ?v1 = "v\<lparr>v_purge := Some (record_completion (se_fromiso e) t data pu)\<rparr>"
  have "veto_sourced e data (record_completion (se_fromiso e) t data pu) ?v1"
    using src by (simp add: veto_sourced_def dead_letters_waiting_def)
  with settle_keeps_children_vetoed [OF decided(3) _ decided(1)] have "same_children ?v1 v2" by simp
  with decided(4) show ?thesis by (simp add: same_children_def)
qed

lemma good_record_settles:
  fixes v :: "'z svc_scheme"
  assumes doc: "documented auth" and load: "se_loads e body = Inr (JObj data)" and rec: "is_record data"
    and up: "\<not> v_shutdown v" "v_pool v" "v_admission v"
    and id: "map_of data ''id'' = Some (JStr i)" "valid_uuid (JStr i)"
    and f: "PROCESSORS (se_env e) t = Some (f :: obj \<Rightarrow> ('z svc_scheme, unit) eff)"
    and ok: "no_faults (e_pg (se_env e))" "lib_total (e_lib (se_env e))" "well_shaped (e_lib (se_env e)) t data"
    and n: "map_of (v_message_counts v) t = Some n"
  shows "\<exists>v'. on_data_message e auth headers body t v = (ack ''processed'', v')
    \<and> map_of (v_message_counts v') t = Some (Suc n) \<and> map_of (v_last_message_time v') t = Some (se_now e)"
proof -
  let ?v0 = "pop_timer t (v\<lparr>v_completed_files := removeAll t (v_completed_files v)\<rparr>)"
  have v0: "v_pool ?v0" "v_admission ?v0" "v_message_counts ?v0 = v_message_counts v"
    using up by (simp_all add: pop_timer_def logged_def)
  have "i \<noteq> []" using id(2) by (auto simp: valid_uuid_def uuid_text_def strip_by_def split: option.splits)
  have succ: "succeeds (transaction (e_pg (se_env e)) (f data))"
    by (intro transaction_succeeds ok processor_succeeds [OF f])
  then obtain v1 where tx: "transaction (e_pg (se_env e)) (f data) ?v0 = (Inr (), v1)"
    unfolding succeeds_def by (metis old.unit.exhaust)
  have h: "handle_data_message e body t v = (Inr (ack ''processed''), v1)"
    using id \<open>i \<noteq> []\<close> f v0 tx
    by (simp add: handle_record_message [OF load rec] handle_record_def withdraw_def)
  have "keeps same_more (transaction (e_pg (se_env e)) (f data))"
    by (rule transaction_same_more) (rule processor_same_more [OF f])
  from keepsD [OF this tx] v0(3) have counts: "v_message_counts v1 = v_message_counts v"
    by (cases v1; cases ?v0) (simp add: same_more_def)
  from doc have r: "auth cl (Inr (ack ''processed'')) = ack ''processed''" for cl by (simp add: documented_def)
  note r = r [unfolded ack_def]
  show ?thesis
    using up h n counts
    by (simp add: on_data_message_def r mark_rejected_def count_processed_def ack_def log_event_def logged_def
        update_conv' Let_def)
qed

section \<open>Properties\<close>

text \<open>
  C2.  A record is acknowledged exactly when its rows are committed: when a delivery of a record
  message is settled ACK, its processor ran to the end on the tables the delivery found and the tables
  are what it left; in every other case, whatever failed and wherever, the tables are as before the
  delivery.
\<close>

theorem record_acked_iff_committed:
  fixes v v' :: "'z svc_scheme"
  assumes "documented auth" and "se_loads e body = Inr (JObj data)" and "is_record data"
    and "on_data_message e auth headers body t v = (r, v')"
  shows "if dr_settlement r = ACK
    then \<exists>f (v1 :: 'z svc_scheme) v2. PROCESSORS (se_env e) t = Some f \<and> s_db v1 = s_db v
      \<and> f data v1 = (Inr (), v2) \<and> s_db v' = s_db v2
    else s_db v' = s_db v"
proof (cases "v_shutdown v")
  case True
  with assms(4) show ?thesis by (auto simp: on_data_message_def)
next
  case False
  from False assms(4) obtain outcome v1 where h: "handle_data_message e body t v = (outcome, v1)"
    and r: "r = auth (classifier (se_permanent e) (broker_handouts headers)) outcome" and db: "s_db v' = s_db v1"
    by (rule on_data_message_run)
  from h have "handle_record e t data v = (outcome, v1)"
    by (simp add: handle_record_message [OF assms(2,3)])
  from handle_record_cases [OF this] show ?thesis
  proof
    assume "\<exists>f (va :: 'z svc_scheme) v2. PROCESSORS (se_env e) t = Some f \<and> s_db va = s_db v \<and> f data va = (Inr (), v2)
      \<and> s_db v1 = s_db v2 \<and> outcome = Inr (ack ''processed'')"
    moreover from this assms(1) r have "dr_settlement r = ACK" by (auto simp: documented_def ack_def)
    ultimately show ?thesis using db by fastforce
  next
    assume *: "s_db v1 = s_db v \<and> (\<forall>d. outcome = Inr d \<longrightarrow> dr_settlement d = REJECT)"
    with documented_ACK [OF assms(1)] r have "dr_settlement r \<noteq> ACK" by fastforce
    with * db show ?thesis by simp
  qed
qed

definition demo_senv :: senv where
  "demo_senv = \<lparr>se_env = demo_env 9, se_loads = (\<lambda>b. if b = [] then Inl (py_error ''JSONDecodeError'')
       else if b = ''done'' then Inr (JObj ((''type'', JStr ''extraction_complete'') # completion 3))
       else Inr (JObj [(''id'', JStr b), (''name'', JStr ''x'')])),
     se_fromiso = demo_fromiso, se_prefix = ''p'', se_now = 7, se_cancel_delay = 300, se_permanent = (\<lambda>_. False),
     se_dead_letter_count = (\<lambda>_. Some 0)\<rparr>"

theorem record_acked_iff_committed_witness:
  "s_db (snd (on_data_message demo_senv simple_authority JNull ''bad'' ''artists'' demo_svc)) = empty_db"
proof -
  have l: "se_loads demo_senv ''bad'' = Inr (JObj [(''id'', JStr ''bad''), (''name'', JStr ''x'')])"
    by (simp add: demo_senv_def)
  have rec: "is_record [(''id'', JStr ''bad''), (''name'', JStr ''x'')]" by (simp add: is_record_def)
  have "dr_settlement (fst (on_data_message demo_senv simple_authority JNull ''bad'' ''artists'' demo_svc)) = REJECT"
    by code_simp
  with record_acked_iff_committed [OF simple_authority_documented l rec surjective_pairing,
      where headers = JNull and t = "''artists''" and v = demo_svc]
  show ?thesis by (simp add: demo_svc_def)
qed

text \<open>
  C15.  Every dead-lettered delivery vetoes the next purge: when a delivery is rejected for any reason but
  a failed reconciliation, its data type is marked on the purge object, whether the handler or the
  classifier rejected it.
\<close>

theorem rejected_delivery_marks_purge:
  assumes "on_data_message e auth headers body t v = (r, v')" and "dr_settlement r = REJECT"
    and "dr_error_type r \<noteq> Some ''ReconciliationFailed''" and "v_purge v \<noteq> None"
  shows "\<exists>pu'. v_purge v' = Some pu' \<and> t \<in> set (sp_dead_lettered pu')"
proof -
  have up: "\<not> v_shutdown v" using assms(1,2) by (auto simp: on_data_message_def)
  from up assms(1) obtain outcome v1 where h: "handle_data_message e body t v = (outcome, v1)"
    and v': "v' = snd (andthen (mark_rejected t r) (count_processed e t r) v1)"
    by (rule on_data_message_run)
  from keepsD [OF handle_keeps_purging h] assms(4) obtain pu where "v_purge v1 = Some pu"
    by (auto simp: same_purging_def)
  with v' assms(2,3) show ?thesis
    by (auto simp: mark_rejected_def count_processed_def update_purge_def record_dead_letter_def)
qed

theorem rejected_delivery_marks_purge_witness:
  "\<exists>pu'. v_purge (snd (on_data_message demo_senv simple_authority JNull ''bad'' ''artists'' demo_svc)) = Some pu'
     \<and> ''artists'' \<in> set (sp_dead_lettered pu')"
proof (rule rejected_delivery_marks_purge [OF surjective_pairing])
  show "dr_settlement (fst (on_data_message demo_senv simple_authority JNull ''bad'' ''artists'' demo_svc)) = REJECT"
    "dr_error_type (fst (on_data_message demo_senv simple_authority JNull ''bad'' ''artists'' demo_svc)) \<noteq> Some ''ReconciliationFailed''"
    by code_simp+
  show "v_purge demo_svc \<noteq> None" by (simp add: demo_svc_def)
qed



text \<open>The two ends of a completion signal: answered with its extraction decided, or failed and withdrawn.\<close>

lemma extraction_complete_cases:
  assumes run: "handle_extraction_complete e t data v = (outcome, v1)" and pu: "v_purge v = Some pu"
  obtains (answered) pu' where "outcome = Inr (ack ''skipped'')" "t \<in> set (v_completed_files v1)"
      "v_purge v1 = Some pu'" "is_latched pu' \<longrightarrow> is_settled pu'"
    | (failed) "outcome = Inl reconciliation_failed" "t \<notin> set (v_completed_files v1)"
proof -
  let ?v0 = "(pop_timer t v)\<lparr>v_completed_files := List.insert t (v_completed_files (pop_timer t v))\<rparr>"
  have p0: "v_purge ?v0 = Some pu" using pu by (simp add: pop_timer_def logged_def)
  obtain q v2 where rec: "reconcile_deleted_child_rows e t data ?v0 = (q, v2)" by fastforce
  have tail: "bnd (reconcile_deleted_child_rows e t data) (\<lambda>ok.
        if \<not> ok then andthen (withdraw t) (raise reconciliation_failed)
        else andthen (arm_timer e t) (ret (ack ''skipped''))) ?v0 = (outcome, v1)"
    using run by (simp add: handle_extraction_complete_def complete_def)
  have finished: "t \<in> set (v_completed_files v2)"
    using keepsD [OF reconcile_globals(1) rec] by (simp add: same_completed_def)
  have ok: thesis if q: "q = Inr True" and p2: "v_purge v2 = Some pu'" "is_latched pu' \<longrightarrow> is_settled pu'" for pu'
  proof -
    from tail rec q have "andthen (arm_timer e t) (ret (ack ''skipped'')) v2 = (outcome, v1)" by (simp add: bnd_def)
    then have "outcome = Inr (ack ''skipped'')" and v1: "v1 = snd (arm_timer e t v2)" by (auto simp: arm_timer_def)
    moreover have "v_completed_files v1 = v_completed_files v2" "v_purge v1 = v_purge v2"
      by (simp_all add: v1 arm_timer_def schedule_consumer_cancellation_def logged_def Let_def)
    ultimately show thesis using finished p2 by (intro answered [of pu']) simp_all
  qed
  from rec p0 show thesis
  proof (cases rule: reconcile_cases)
    case waiting
    then show thesis by (intro ok) auto
  next
    case (failed x)
    with tail rec have "andthen (withdraw t) (raise reconciliation_failed) v2 = (outcome, v1)" by (simp add: bnd_def)
    then show thesis by (intro that(2)) (auto simp: withdraw_def)
  next
    case (decided v3)
    let ?pu = "record_completion (se_fromiso e) t data pu"
    from decided(3) obtain w v4 pu' deleted where v3: "v3 = v4\<lparr>v_purge := Some (settle (sp_boundary pu') pu')\<rparr>"
      by (rule gather_and_purge_Inr [where pu = ?pu]) (use decided(1) in auto)
    from decided(5) v3 obtain pu2 where p2: "v_purge v2 = Some pu2" and "marks (settle (sp_boundary pu') pu') pu2"
      by (auto simp: purge_marked_def)
    then have "is_latched pu2 \<longrightarrow> is_settled pu2"
      by (simp add: marks_fields) (simp add: settle_def is_settled_def is_latched_def)
    with decided(2) p2 show thesis by (intro ok) auto
  qed
qed

text \<open>
  C11.  A completion signal is acknowledged only when its extraction has been decided: after an
  \<open>extraction_complete\<close> delivery is settled ACK, the data type counts as complete and, if all four types
  have signalled, the boundary is settled; when the reconciliation failed, completion is withdrawn and the
  signal is requeued, or dead-lettered once its budget is spent.
\<close>

theorem completion_acked_only_when_decided:
  assumes doc: "documented auth" and load: "se_loads e body = Inr (JObj data)"
    and kind: "get_none data ''type'' = JStr ''extraction_complete''" and up: "\<not> v_shutdown v"
    and pu: "v_purge v = Some pu" and run: "on_data_message e auth headers body t v = (r, v')"
  shows "if dr_settlement r = ACK
    then t \<in> set (v_completed_files v') \<and> (\<exists>pu'. v_purge v' = Some pu' \<and> (is_latched pu' \<longrightarrow> is_settled pu'))
    else t \<notin> set (v_completed_files v') \<and> (dr_settlement r = REQUEUE \<or> dr_settlement r = REJECT)"
proof -
  from up run obtain outcome v1 where h: "handle_data_message e body t v = (outcome, v1)"
    and r: "r = auth (classifier (se_permanent e) (broker_handouts headers)) outcome"
    and v': "v' = snd (andthen (mark_rejected t r) (count_processed e t r) v1)"
    by (rule on_data_message_run)
  have "handle_extraction_complete e t data v = (outcome, v1)"
    using h by (simp add: handle_data_message_def load kind Let_def as_dict_def)
  then show ?thesis
    using pu
  proof (cases rule: extraction_complete_cases)
    case (answered pu')
    with r doc have r': "r = ack ''skipped''" by (simp add: documented_def)
    then have "v' = v1" using v' by (simp add: mark_rejected_def count_processed_def ack_def)
    with r' answered show ?thesis by (auto simp: ack_def)
  next
    case failed
    with r doc have r': "dr_settlement r = REQUEUE \<or> dr_settlement r = REJECT" "dr_error_type r = Some ''ReconciliationFailed''"
      by (auto simp: documented_def reconciliation_failed_def py_error_def)
    then have "v' = v1" using v' by (auto simp: mark_rejected_def count_processed_def)
    with r' failed show ?thesis by auto
  qed
qed

theorem completion_acked_only_when_decided_witness:
  "''artists'' \<in> set (v_completed_files (snd (on_data_message demo_senv simple_authority JNull ''done'' ''artists'' demo_svc)))"
proof -
  have l: "se_loads demo_senv ''done'' = Inr (JObj ((''type'', JStr ''extraction_complete'') # completion 3))"
    by (simp add: demo_senv_def)
  have k: "get_none ((''type'', JStr ''extraction_complete'') # completion 3) ''type'' = JStr ''extraction_complete''" by simp
  have v: "\<not> v_shutdown demo_svc" "v_purge demo_svc = Some (new_purge True)" by (simp_all add: demo_svc_def)
  have "dr_settlement (fst (on_data_message demo_senv simple_authority JNull ''done'' ''artists'' demo_svc)) = ACK"
    by code_simp
  with completion_acked_only_when_decided [OF simple_authority_documented l k v surjective_pairing,
      where headers = JNull and t = "''artists''"]
  show ?thesis by simp
qed

text \<open>
  The classifier sends to the dead-letter queue exactly what retrying cannot help: a permanent error,
  a data or integrity error, or a message already handed out five hundred times; every other failure,
  database outages first among them, is retried.
\<close>

theorem classifier_dead_letters_exactly:
  "classifier permanent (broker_handouts headers) x = Deterministic \<longleftrightarrow>
     permanent x \<or> exn_class x = DataError \<or> exn_class x = IntegrityError \<or> 500 \<le> broker_handouts headers"
  by (cases "exn_class x") (simp_all add: classifier_def classify_def MAX_REQUEUES_def Let_def)



text \<open>
  C32.  A data type counts as complete as soon as its \<open>file_complete\<close> message is handled, before any
  \<open>extraction_complete\<close>: completion is not evidence that the extraction's own signal was delivered.
\<close>

theorem file_complete_marks_complete:
  assumes "se_loads e body = Inr (JObj data)" and "get_none data ''type'' = JStr ''file_complete''"
  shows "fst (handle_data_message e body t v) = Inr (ack ''skipped'')
    \<and> t \<in> set (v_completed_files (snd (handle_data_message e body t v)))"
  using assms by (simp add: handle_data_message_def handle_file_complete_def as_dict_def Let_def complete_def arm_timer_def)

theorem file_complete_marks_complete_witness:
  "''labels'' \<in> set (v_completed_files (snd (handle_data_message
     (demo_senv\<lparr>se_loads := (\<lambda>_. Inr (JObj [(''type'', JStr ''file_complete'')]))\<rparr>) ''b'' ''labels'' (demo_svc\<lparr>v_completed_files := []\<rparr>))))"
  by (rule conjunct2 [OF file_complete_marks_complete [where data = "[(''type'', JStr ''file_complete'')]"]]) simp_all

end
