(* ===== verification/Consumers.thy ===== *)
theory Consumers
  imports Delivery
begin

text \<open>
  The life of the four subscriptions: cancellation, connection closure, the queue checker and recovery
  (\<open>brainztableinator.py\<close>).

  What the broker answers is an argument: \<open>closing\<close> says whether each close was confirmed in time,
  \<open>broker\<close> what the calls of one recovery answer.  A timer is modelled by its segments between two
  awaits, so other handlers may run in between; a close and a recovery run as one step.  The
  parameter \<open>own\<close> of a timer says whether it is the one registered for its data type.
\<close>

section \<open>What the broker answers\<close>

record closing =
  cl_channel :: bool
  cl_connection :: bool

record broker =
  br_connect :: "exn option"
  br_call :: "broker_call \<Rightarrow> exn option"
  br_backlog :: "string \<Rightarrow> exn + nat"
  br_consume :: "string \<Rightarrow> exn + string"
  br_drop :: closing
  br_idle :: closing
  br_abandon :: closing

definition DEFAULT_POOL_MAX :: int where
  "DEFAULT_POOL_MAX = 12"

definition consumer_prefetch :: "int option \<Rightarrow> int" where
  "consumer_prefetch pool_max_size = (case pool_max_size of None \<Rightarrow> DEFAULT_POOL_MAX | Some n \<Rightarrow> n)"

section \<open>Closing\<close>

definition close_channel :: "closing \<Rightarrow> bool \<times> 'z svc_scheme \<Rightarrow> bool \<times> 'z svc_scheme" where
  "close_channel cl = (\<lambda>(confirmed, v).
     if v_channel v \<and> cl_channel cl then (True, v\<lparr>v_channel := False\<rparr>) else (confirmed, v))"

definition close_connection :: "closing \<Rightarrow> bool \<times> 'z svc_scheme \<Rightarrow> bool \<times> 'z svc_scheme" where
  "close_connection cl = (\<lambda>(confirmed, v).
     if v_connection v \<and> cl_connection cl then (True, v\<lparr>v_connection := False, v_channel := False\<rparr>)
     else (confirmed, v))"

definition close_rabbitmq_connection :: "closing \<Rightarrow> ('z svc_scheme, bool) eff" where
  "close_rabbitmq_connection cl v =
     (let confirmed0 = (\<not> v_connection v \<and> \<not> v_channel v \<and> v_consumer_tags v = []);
          (confirmed, v1) = close_connection cl (close_channel cl (confirmed0, v))
      in if \<not> confirmed then (Inr False, v1\<lparr>v_cancellation_failed := True\<rparr>)
         else
           let v2 = (logged (ConsumerDelta (- int (length (v_consumer_tags v1)))) v1)
                 \<lparr>v_consumer_tags := [], v_connection_tags := [], v_cancellation_failed := v_connection v1\<rparr>
           in (Inr (\<not> v_cancellation_failed v2), v2))"

section \<open>Cancelling\<close>

text \<open>Drop a registration the broker confirmed cancelled, unless the stream has another one by now.\<close>

definition forget_consumer :: "string \<Rightarrow> string \<Rightarrow> 'z svc_scheme \<Rightarrow> 'z svc_scheme" where
  "forget_consumer data_type tag v =
     (if map_of (v_consumer_tags v) data_type = Some tag
      then logged (ConsumerDelta (-1)) (v\<lparr>v_consumer_tags := AList.delete data_type (v_consumer_tags v)\<rparr>)
      else v)"

definition cancellation_failed :: "'z svc_scheme \<Rightarrow> 'z svc_scheme" where
  "cancellation_failed v = v\<lparr>v_cancellation_failed := True\<rparr>"

text \<open>The segments of \<open>cancel_after_delay\<close>: the check after its sleep, and how its cancel call ends.\<close>

definition timer_due :: "string \<Rightarrow> string option \<Rightarrow> 'z svc_scheme \<Rightarrow> bool" where
  "timer_due data_type tag v \<longleftrightarrow> tag \<noteq> None \<and> map_of (v_consumer_tags v) data_type = tag"

definition timer_finished :: "string \<Rightarrow> bool \<Rightarrow> 'z svc_scheme \<Rightarrow> 'z svc_scheme" where
  "timer_finished data_type own v =
     (if own then v\<lparr>v_cancel_tasks := AList.delete data_type (v_cancel_tasks v)\<rparr> else v)"

definition timer_confirmed :: "closing \<Rightarrow> string \<Rightarrow> string \<Rightarrow> bool \<Rightarrow> 'z svc_scheme \<Rightarrow> 'z svc_scheme" where
  "timer_confirmed cl data_type tag own v =
     (let v1 = forget_consumer data_type tag v;
          v2 = (if check_all_consumers_idle v1 then snd (close_rabbitmq_connection cl v1) else v1)
      in timer_finished data_type own v2)"

definition timer_failed :: "string \<Rightarrow> bool \<Rightarrow> 'z svc_scheme \<Rightarrow> 'z svc_scheme" where
  "timer_failed data_type own v = timer_finished data_type own (cancellation_failed v)"

definition timer_interrupted :: "string \<Rightarrow> bool \<Rightarrow> bool \<Rightarrow> 'z svc_scheme \<Rightarrow> 'z svc_scheme" where
  "timer_interrupted data_type own cancel_started v =
     timer_finished data_type own (if cancel_started then cancellation_failed v else v)"

text \<open>
  \<open>cancel_all_consumers\<close>: \<open>in_flight\<close> tells which pending timers had sent their cancel call when they
  were interrupted, \<open>confirms\<close> which of the calls made here the broker confirms.
\<close>

definition interrupt_timers :: "(string \<Rightarrow> bool) \<Rightarrow> 'z svc_scheme \<Rightarrow> 'z svc_scheme" where
  "interrupt_timers in_flight v =
     fold (\<lambda>t. timer_interrupted t True (in_flight t)) (map fst (v_cancel_tasks v)) v"

fun cancel_each :: "(string \<Rightarrow> string \<Rightarrow> bool) \<Rightarrow> (string \<times> string) list \<Rightarrow> 'z svc_scheme \<Rightarrow> 'z svc_scheme" where
  "cancel_each confirms [] v = v"
| "cancel_each confirms ((data_type, tag) # rest) v =
     (if data_type \<notin> set (v_queues v) then cancel_each confirms rest (cancellation_failed v)
      else if confirms data_type tag then cancel_each confirms rest (forget_consumer data_type tag v)
      else cancellation_failed v)"

definition cancel_all_consumers ::
  "(string \<Rightarrow> bool) \<Rightarrow> (string \<Rightarrow> string \<Rightarrow> bool) \<Rightarrow> 'z svc_scheme \<Rightarrow> 'z svc_scheme" where
  "cancel_all_consumers in_flight confirms v =
     (let v1 = interrupt_timers in_flight v in cancel_each confirms (v_consumer_tags v1) v1)"

section \<open>Declaring and subscribing\<close>

text \<open>
  The calls that declare one data type's objects, in order: its exchange, its dead-letter exchange
  with the queue bound to it, and its own queue, a quorum queue that dead-letters into that exchange.
\<close>

definition queue_args :: "string \<Rightarrow> obj" where
  "queue_args dlx = [(''x-queue-type'', JStr ''quorum''), (''x-dead-letter-exchange'', JStr dlx),
     (''x-delivery-limit'', JInt 20)]"

definition topology_calls :: "string \<Rightarrow> string \<Rightarrow> exn + broker_call list" where
  "topology_calls prefix data_type =
     rbind (exchange_name prefix data_type) (\<lambda>exchange.
     rbind (queue_name prefix AMQP_CONSUMER_ID data_type) (\<lambda>queue.
     rbind (dead_letter_exchange_name prefix AMQP_CONSUMER_ID data_type) (\<lambda>dlx.
     rbind (dead_letter_queue_name prefix AMQP_CONSUMER_ID data_type) (\<lambda>dlq.
       Inr [DeclareExchange exchange, DeclareExchange dlx,
            DeclareQueue dlq [(''x-queue-type'', JStr ''classic'')], Bind dlq dlx,
            DeclareQueue queue (queue_args dlx), Bind queue exchange]))))"

definition call_broker :: "broker \<Rightarrow> broker_call \<Rightarrow> ('z svc_scheme, unit) eff" where
  "call_broker b c = andthen (log_event (BrokerCall c))
     (case br_call b c of None \<Rightarrow> ret () | Some x \<Rightarrow> raise x)"

definition declare_type :: "senv \<Rightarrow> broker \<Rightarrow> string \<Rightarrow> ('z svc_scheme, unit) eff" where
  "declare_type e b data_type =
     bnd (of_result (topology_calls (se_prefix e) data_type)) (\<lambda>calls.
       andthen (for_each (call_broker b) calls)
       (modify (\<lambda>v. v\<lparr>v_queues := v_queues v @ [data_type]\<rparr>)))"

definition declare_all :: "senv \<Rightarrow> broker \<Rightarrow> ('z svc_scheme, unit) eff" where
  "declare_all e b = andthen (modify (\<lambda>v. v\<lparr>v_queues := []\<rparr>))
     (for_each (declare_type e b) MUSICBRAINZ_DATA_TYPES)"

definition consume :: "broker \<Rightarrow> string \<Rightarrow> ('z svc_scheme, unit) eff" where
  "consume b data_type = andthen (log_event (BrokerCall (Consume data_type)))
     (bnd (of_result (br_consume b data_type)) (\<lambda>tag. modify (register_consumer data_type tag)))"

section \<open>Recovery\<close>

fun read_backlogs :: "senv \<Rightarrow> broker \<Rightarrow> string list \<Rightarrow> exn + (string \<times> nat) list" where
  "read_backlogs e b [] = Inr []"
| "read_backlogs e b (t # ts) =
     rbind (queue_name (se_prefix e) AMQP_CONSUMER_ID t) (\<lambda>q.
     rbind (br_backlog b q) (\<lambda>n.
     rbind (read_backlogs e b ts) (\<lambda>rest. Inr (if 0 < n then (t, n) # rest else rest))))"

definition recover_consumer :: "senv \<Rightarrow> broker \<Rightarrow> (string \<times> nat) list \<Rightarrow> string \<Rightarrow> ('z svc_scheme, unit) eff" where
  "recover_consumer e b backlog data_type = bnd get_state (\<lambda>v.
     if data_type \<in> set (v_queues v) \<and> data_type \<notin> fst ` set (v_consumer_tags v)
     then andthen (consume b data_type)
       (andthen (if data_type \<in> fst ` set backlog then withdraw data_type else ret ())
       (modify (\<lambda>v. v\<lparr>v_last_message_time := AList.update data_type (se_now e) (v_last_message_time v)\<rparr>)))
     else ret ())"

definition restart_consumers ::
  "senv \<Rightarrow> broker \<Rightarrow> int option \<Rightarrow> (string \<times> nat) list \<Rightarrow> ('z svc_scheme, unit) eff" where
  "restart_consumers e b pool_max backlog =
     andthen (modify (\<lambda>v. v\<lparr>v_connection := True, v_channel := True, v_connection_tags := [],
       v_watch_started_at := se_now e\<rparr>))
     (andthen (call_broker b (SetQos (consumer_prefetch pool_max)))
     (andthen (declare_all e b)
     (andthen (for_each (recover_consumer e b backlog) MUSICBRAINZ_DATA_TYPES)
       (modify (\<lambda>v. v\<lparr>v_idle_mode := False\<rparr>)))))"

definition recovery_session :: "senv \<Rightarrow> broker \<Rightarrow> int option \<Rightarrow> ('z svc_scheme, unit) eff" where
  "recovery_session e b pool_max =
     bnd (of_result (read_backlogs e b MUSICBRAINZ_DATA_TYPES)) (\<lambda>backlog.
       if backlog \<noteq> [] then restart_consumers e b pool_max backlog
       else if cl_channel (br_idle b) \<and> cl_connection (br_idle b) then ret ()
       else raise (py_error ''TimeoutError''))"

definition abandon_session :: "broker \<Rightarrow> ('z svc_scheme, unit) eff" where
  "abandon_session b =
     andthen (modify (\<lambda>v. v\<lparr>v_connection := True, v_channel := True\<rparr>))
     (bnd (close_rabbitmq_connection (br_abandon b)) (\<lambda>closed.
       if closed then modify (\<lambda>v. v\<lparr>v_queues := []\<rparr>) else ret ()))"

definition recover_consumers :: "senv \<Rightarrow> broker \<Rightarrow> int option \<Rightarrow> ('z svc_scheme, unit) eff" where
  "recover_consumers e b pool_max = bnd get_state (\<lambda>v.
     bnd (if v_connection v \<or> v_channel v \<or> v_cancellation_failed v
          then close_rabbitmq_connection (br_drop b) else ret True) (\<lambda>closed.
       if \<not> closed then ret ()
       else case br_connect b of
         Some x \<Rightarrow> ret ()
       | None \<Rightarrow> try_catch (recovery_session e b pool_max) (\<lambda>_. abandon_session b)))"

section \<open>The queue checker\<close>

text \<open>
  What one round of \<open>periodic_queue_checker\<close> does after its sleep: whether it recovers, and the time of
  the last full check it leaves.  \<open>interval\<close> is \<open>QUEUE_CHECK_INTERVAL\<close>.
\<close>

definition queue_check :: "rat \<Rightarrow> rat \<Rightarrow> rat \<Rightarrow> rat \<Rightarrow> 'z svc_scheme \<Rightarrow> bool \<times> rat" where
  "queue_check timeout interval now last_full_check v =
     (if v_cancellation_failed v then (True, last_full_check)
      else if check_consumers_unexpectedly_dead timeout now v then (True, last_full_check)
      else if now - last_full_check < interval then (False, last_full_check)
      else if v_connection v \<or> 0 < length (v_consumer_tags v) then (False, last_full_check)
      else (True, now))"

definition queue_check_round ::
  "senv \<Rightarrow> broker \<Rightarrow> int option \<Rightarrow> rat \<Rightarrow> rat \<Rightarrow> rat \<times> 'z svc_scheme \<Rightarrow> rat \<times> 'z svc_scheme" where
  "queue_check_round e b pool_max timeout interval = (\<lambda>(last_full_check, v).
     let (recover, last') = queue_check timeout interval (se_now e) last_full_check v
     in (last', if recover then snd (recover_consumers e b pool_max v) else v))"

section \<open>The invariant of the registrations\<close>

text \<open>
  The gauge is the sum of what was reported to it.  The registrations are in order when no data type has
  two, every one of them is in the evidence of the current connection, the broker session they belong to
  is still held, and the gauge shows their number.
\<close>

definition gauge :: "'z svc_scheme \<Rightarrow> int" where
  "gauge v = sum_list (map (\<lambda>ev. case ev of ConsumerDelta d \<Rightarrow> d | _ \<Rightarrow> 0) (v_log v))"

definition registered_ok :: "'z svc_scheme \<Rightarrow> bool" where
  "registered_ok v \<longleftrightarrow> distinct (map fst (v_consumer_tags v))
     \<and> map_of (v_consumer_tags v) \<subseteq>\<^sub>m map_of (v_connection_tags v)
     \<and> (v_consumer_tags v \<noteq> [] \<longrightarrow> v_connection v \<or> v_channel v)
     \<and> gauge v = int (length (v_consumer_tags v))"

text \<open>What the handlers leave alone.\<close>

definition same_consumers :: "'z svc_scheme \<Rightarrow> 'z svc_scheme \<Rightarrow> bool" where
  "same_consumers v v' \<longleftrightarrow> v_consumer_tags v' = v_consumer_tags v \<and> v_connection_tags v' = v_connection_tags v
     \<and> v_connection v' = v_connection v \<and> v_channel v' = v_channel v \<and> gauge v' = gauge v
     \<and> v_cancellation_failed v' = v_cancellation_failed v"

lemma same_consumers_orders [intro, simp]: "reflp same_consumers" "transp same_consumers"
  by (auto simp: reflp_def transp_def same_consumers_def)

lemma same_consumers_ok: "same_consumers v v' \<Longrightarrow> registered_ok v' = registered_ok v"
  by (simp add: same_consumers_def registered_ok_def)

lemma gauge_logged [simp]:
  "gauge (logged ev v) = gauge v + (case ev of ConsumerDelta d \<Rightarrow> d | _ \<Rightarrow> 0)"
  by (simp add: gauge_def logged_def)

lemma logged_fields [simp]:
  "v_consumer_tags (logged ev v) = v_consumer_tags v" "v_connection_tags (logged ev v) = v_connection_tags v"
  "v_connection (logged ev v) = v_connection v" "v_channel (logged ev v) = v_channel v"
  "v_cancellation_failed (logged ev v) = v_cancellation_failed v" "v_completed_files (logged ev v) = v_completed_files v"
  "v_queues (logged ev v) = v_queues v" "v_cancel_tasks (logged ev v) = v_cancel_tasks v"
  "v_last_message_time (logged ev v) = v_last_message_time v" "v_log (logged ev v) = v_log v @ [ev]"
  by (simp_all add: logged_def)

lemma gauge_update [simp]:
  "gauge (v\<lparr>v_consumer_tags := a\<rparr>) = gauge v" "gauge (v\<lparr>v_connection_tags := a\<rparr>) = gauge v"
  "gauge (v\<lparr>v_connection := c\<rparr>) = gauge v" "gauge (v\<lparr>v_channel := c\<rparr>) = gauge v"
  "gauge (v\<lparr>v_cancellation_failed := c\<rparr>) = gauge v" "gauge (v\<lparr>v_cancel_tasks := ts\<rparr>) = gauge v"
  "gauge (v\<lparr>v_queues := qs\<rparr>) = gauge v" "gauge (v\<lparr>v_watch_started_at := r\<rparr>) = gauge v"
  "gauge (v\<lparr>v_completed_files := qs\<rparr>) = gauge v" "gauge (v\<lparr>v_last_message_time := lt\<rparr>) = gauge v"
  "gauge (v\<lparr>v_idle_mode := c\<rparr>) = gauge v" "gauge (v\<lparr>v_purge := pu\<rparr>) = gauge v"
  "gauge (v\<lparr>v_message_counts := mc\<rparr>) = gauge v" "gauge (v\<lparr>v_shutdown := c\<rparr>) = gauge v"
  "gauge (v\<lparr>v_pool := c\<rparr>) = gauge v" "gauge (v\<lparr>v_admission := c\<rparr>) = gauge v"
  by (simp_all add: gauge_def)

section \<open>Frames of a delivery\<close>

text \<open>What only talks to the database leaves every global alone.\<close>

lemma veto_calls_more:
  "keeps same_more (recorded_vetoes p version)" "keeps same_more (record_extraction p version vs)"
  "keeps same_more (consecutive_vetoes p)"
  unfolding recorded_vetoes_def record_extraction_def consecutive_vetoes_def
  by (auto intro!: transaction_same_more keeps_andthen keeps_bnd keeps_get_state keeps_ret)

lemma purge_table_more: "keeps same_more (purge_table p cap b t)"
  unfolding purge_table_def Let_def
  by (auto intro!: keeps_andthen keeps_bnd keeps_get_state keeps_ret)

lemma purge_tables_more: "keeps same_more (purge_tables p cap b ts)"
proof (induction ts)
  case Nil
  show ?case by (simp add: keeps_def same_more_def)
qed (auto intro!: keeps_bnd keeps_ret purge_table_more)

lemma purge_more: "keeps same_more (purge p pu)"
  unfolding purge_def
  by (auto intro!: keeps_ret keeps_raise keeps_bnd transaction_same_more purge_tables_more split: option.splits)

lemmas keeps_flow = keeps_bnd keeps_andthen keeps_get_state keeps_ret keeps_raise keeps_of_result keeps_try_catch

text \<open>
  A relation every local change of a handler satisfies holds across a whole delivery, however it ends.
  The changes are those of the database session, the purge, the completed types, the timers, the log
  (the active-consumer gauge apart) and the counters.
\<close>

locale handler_frame =
  fixes frame :: "'z svc_scheme \<Rightarrow> 'z svc_scheme \<Rightarrow> bool"
  assumes orders: "reflp frame" "transp frame"
    and session: "same_more v v' \<Longrightarrow> frame v v'"
    and purging: "frame v (v\<lparr>v_purge := pu\<rparr>)"
    and completing: "frame v (v\<lparr>v_completed_files := ts\<rparr>)"
    and timing: "frame v (v\<lparr>v_cancel_tasks := timers\<rparr>)"
    and logging: "\<forall>d. ev \<noteq> ConsumerDelta d \<Longrightarrow> frame v (logged ev v)"
    and counting: "map_of (v_message_counts v) t = Some n \<Longrightarrow>
      frame v (v\<lparr>v_message_counts := AList.update t (Suc n) (v_message_counts v), v_last_message_time := m\<rparr>)"
begin

lemma frame_refl: "frame v v"
  using orders(1) by (rule reflpD)

lemma frame_trans: "frame v v' \<Longrightarrow> frame v' v'' \<Longrightarrow> frame v v''"
  using orders(2) by (blast dest: transpD)

lemma log_kept: "\<forall>d. ev \<noteq> ConsumerDelta d \<Longrightarrow> keeps frame (log_event ev)"
  unfolding log_event_def by (intro keeps_modify logging)

lemma pop_kept: "frame v (pop_timer t v)"
  using frame_trans [OF timing logging] by (auto simp: pop_timer_def intro: frame_refl)

lemma schedule_kept: "frame v (schedule_consumer_cancellation t v)"
  unfolding schedule_consumer_cancellation_def Let_def
  by (auto intro: timing frame_trans [OF logging timing])

lemma local_kept:
  "keeps frame (update_purge f)" "keeps frame (complete t)" "keeps frame (withdraw t)"
  "keeps frame (arm_timer e t)" "keeps frame (modify (pop_timer t))" "keeps frame (log_event BackoffReset)"
  "keeps frame (log_event (VetoGauge n))" "keeps frame (log_event (VetoAlert n))" "keeps frame (log_event (BrokerCall c))"
  unfolding update_purge_def complete_def withdraw_def arm_timer_def
  by (auto intro!: keeps_modify log_kept intro: purging completing pop_kept schedule_kept frame_refl)

lemma session_kept: "keeps same_more m \<Longrightarrow> keeps frame m"
  by (erule keeps_mono) (rule session)

lemmas db_kept = session_kept [OF veto_calls_more(1)] session_kept [OF veto_calls_more(2)]
  session_kept [OF veto_calls_more(3)] session_kept [OF purge_more]

lemma report_kept: "keeps frame (report_purge_vetoes e)"
  unfolding report_purge_vetoes_def by (auto intro!: keeps_flow orders db_kept local_kept split: option.splits)

lemma settle_kept: "keeps frame (settle_purge_veto e data)"
  unfolding settle_purge_veto_def by (auto intro!: keeps_flow orders db_kept local_kept split: option.splits)

lemma run_purge_kept: "keeps frame (run_purge e)"
  unfolding run_purge_def by (auto intro!: keeps_flow orders db_kept local_kept split: option.splits prod.splits)

lemma reconcile_kept: "keeps frame (reconcile_deleted_child_rows e t data)"
  unfolding reconcile_deleted_child_rows_def Let_def
  by (auto intro!: keeps_flow orders settle_kept run_purge_kept report_kept local_kept split: option.splits)

lemma processed_kept: "PROCESSORS e t = Some f \<Longrightarrow> keeps frame (transaction p (f record))"
  by (intro session_kept transaction_same_more processor_same_more)

lemma handle_kept: "keeps frame (handle_data_message e body t)"
  unfolding handle_data_message_def handle_file_complete_def handle_extraction_complete_def handle_record_def
    reject_def Let_def
  by (auto intro!: keeps_flow orders local_kept reconcile_kept processed_kept split: sum.splits option.splits)

lemma settled_kept:
  "keeps frame (mark_rejected t r)" "keeps frame (count_processed e t r)"
proof -
  show "keeps frame (mark_rejected t r)" by (auto simp: mark_rejected_def intro!: keeps_ret orders local_kept)
  have "keeps frame (modify (\<lambda>v. case map_of (v_message_counts v) t of None \<Rightarrow> v
       | Some n \<Rightarrow> v\<lparr>v_message_counts := AList.update t (Suc n) (v_message_counts v),
                     v_last_message_time := AList.update t (se_now e) (v_last_message_time v)\<rparr>))"
    by (rule keeps_modify) (auto intro: counting frame_refl split: option.splits)
  then show "keeps frame (count_processed e t r)"
    by (auto simp: count_processed_def intro!: keeps_flow orders local_kept)
qed

lemma delivery_kept:
  assumes "on_data_message e auth headers body t v = (r, v')"
  shows "frame v v'"
proof (cases "v_shutdown v")
  case True
  with assms show ?thesis by (simp add: on_data_message_def frame_refl)
next
  case False
  from on_data_message_run [OF False assms] obtain outcome v1
    where h: "handle_data_message e body t v = (outcome, v1)"
      and v': "v' = snd (andthen (mark_rejected t r) (count_processed e t r) v1)" by blast
  have "keeps frame (andthen (mark_rejected t r) (count_processed e t r))"
    by (intro keeps_andthen settled_kept orders)
  from keepsD [OF handle_kept h] keeps_run [OF this, of v1] show ?thesis
    unfolding v' by (rule frame_trans)
qed

lemma handler_kept: "keeps frame (data_handler e auth admission headers body t)"
  unfolding keeps_def data_handler_def
  by (auto intro: frame_refl delivery_kept split: option.split prod.split)

end

interpretation consumers: handler_frame same_consumers
proof unfold_locales
  show "same_more v v' \<Longrightarrow> same_consumers v v'" for v v' :: "'z svc_scheme"
    by (cases v; cases v') (simp add: same_more_def same_consumers_def gauge_def)
  show "\<forall>d. ev \<noteq> ConsumerDelta d \<Longrightarrow> same_consumers v (logged ev v)" for ev and v :: "'z svc_scheme"
    by (cases ev) (simp_all add: same_consumers_def)
qed (simp_all add: same_consumers_def)

declare consumers.local_kept [intro, simp]

section \<open>Every step keeps the registrations in order\<close>

lemma map_le_delete: "m \<subseteq>\<^sub>m m' \<Longrightarrow> m(k := None) \<subseteq>\<^sub>m m'"
  by (auto simp: map_le_def)

lemma close_fields:
  assumes "close_rabbitmq_connection cl v = (r, v')"
  shows "(v_consumer_tags v' = [] \<and> v_connection_tags v' = [] \<and> gauge v' = gauge v - int (length (v_consumer_tags v))
      \<and> v_cancellation_failed v' = v_connection v' \<and> r = Inr (\<not> v_connection v') \<and> \<not> v_channel v' )
    \<or> (v' = v\<lparr>v_cancellation_failed := True\<rparr> \<and> r = Inr False
      \<and> (v_connection v \<or> v_channel v \<or> v_consumer_tags v \<noteq> []))"
  using assms
  by (auto simp: close_rabbitmq_connection_def close_channel_def close_connection_def Let_def split: if_splits prod.splits)

lemma close_ok: "close_rabbitmq_connection cl v = (r, v') \<Longrightarrow> registered_ok v \<Longrightarrow> registered_ok v'"
  by (drule close_fields) (auto simp: registered_ok_def)

lemma close_keeps_ok: "keeps (preserves registered_ok) (close_rabbitmq_connection cl)"
  by (auto simp: keeps_def preserves_def intro: close_ok [OF surjective_pairing])

lemma length_delete_key:
  "distinct (map fst xs) \<Longrightarrow> map_of xs k = Some y \<Longrightarrow> Suc (length (AList.delete k xs)) = length xs"
  by (induction xs) (auto simp: AList.delete_idem split: if_splits)

lemma update_fresh: "k \<notin> fst ` set xs \<Longrightarrow> AList.update k y xs = xs @ [(k, y)]"
  by (induction xs) auto

lemma delete_nonempty: "AList.delete k xs \<noteq> [] \<Longrightarrow> xs \<noteq> []"
  by auto

lemma forget_ok: "registered_ok v \<Longrightarrow> registered_ok (forget_consumer t tag v)"
  using length_delete_key [of "v_consumer_tags v" t tag]
  by (auto simp: registered_ok_def forget_consumer_def AList.distinct_delete AList.delete_conv' map_le_def
      dest: delete_nonempty)

lemma flag_ok [simp]: "registered_ok (cancellation_failed v) = registered_ok v"
  by (simp add: registered_ok_def cancellation_failed_def)

lemma timer_finished_ok [simp]: "registered_ok (timer_finished t own v) = registered_ok v"
  by (simp add: registered_ok_def timer_finished_def)

lemma timer_confirmed_ok: "registered_ok v \<Longrightarrow> registered_ok (timer_confirmed cl t tag own v)"
  by (auto simp: timer_confirmed_def Let_def intro!: forget_ok close_ok [OF surjective_pairing])

lemma timer_interrupted_ok [simp]: "registered_ok (timer_interrupted t own started v) = registered_ok v"
  by (simp add: timer_interrupted_def)

lemma fold_ok: "(\<And>x v. registered_ok (f x v) = registered_ok v) \<Longrightarrow> registered_ok (fold f xs v) = registered_ok v"
  by (induction xs arbitrary: v) simp_all

lemma cancel_each_ok: "registered_ok v \<Longrightarrow> registered_ok (cancel_each confirms xs v)"
  by (induction confirms xs v rule: cancel_each.induct) (simp_all add: forget_ok)

lemma cancel_all_ok: "registered_ok v \<Longrightarrow> registered_ok (cancel_all_consumers in_flight confirms v)"
  by (simp add: cancel_all_consumers_def interrupt_timers_def Let_def cancel_each_ok fold_ok)

lemma register_ok:
  assumes "registered_ok v" and "t \<notin> fst ` set (v_consumer_tags v)" and "v_connection v \<or> v_channel v"
  shows "registered_ok (register_consumer t tag v)"
proof -
  let ?v = "register_consumer t tag v"
  have "map_of (v_consumer_tags ?v) \<subseteq>\<^sub>m map_of (v_connection_tags ?v)"
    using assms(1) by (simp add: registered_ok_def register_consumer_def AList.update_conv' map_le_upd)
  moreover have "v_consumer_tags ?v = v_consumer_tags v @ [(t, tag)]"
    using assms(2) by (simp add: register_consumer_def update_fresh)
  moreover have "gauge ?v = gauge v + 1" "v_connection ?v = v_connection v" "v_channel ?v = v_channel v"
    by (simp_all add: register_consumer_def)
  ultimately show ?thesis using assms by (simp add: registered_ok_def)
qed

text \<open>The declaring and subscribing part of a recovery runs with its session held.\<close>

definition session_ok :: "'z svc_scheme \<Rightarrow> bool" where
  "session_ok v \<longleftrightarrow> registered_ok v \<and> v_connection v"

lemma session_neutral:
  assumes "\<And>v. same_consumers v (f v)"
  shows "keeps (preserves session_ok) (modify f)"
proof (rule keeps_modify)
  fix v
  from assms [of v] show "preserves session_ok v (f v)"
    using same_consumers_ok by (auto simp: preserves_def session_ok_def same_consumers_def)
qed

lemma consumers_session: "keeps same_consumers m \<Longrightarrow> keeps (preserves session_ok) m"
  by (erule keeps_mono) (auto simp: preserves_def session_ok_def same_consumers_def registered_ok_def)

lemma call_broker_same: "keeps same_consumers (call_broker b c)"
  unfolding call_broker_def by (auto intro!: keeps_flow split: option.splits)

lemma declare_all_same: "keeps same_consumers (declare_all e b)"
proof -
  have "keeps same_consumers (modify (\<lambda>v. v\<lparr>v_queues := v_queues v @ [t]\<rparr>))" for t
    by (simp add: keeps_def same_consumers_def)
  then have "keeps same_consumers (declare_type e b t)" for t
    unfolding declare_type_def by (auto intro!: keeps_flow keeps_for_each call_broker_same)
  moreover have "keeps same_consumers (modify (\<lambda>v. v\<lparr>v_queues := []\<rparr>))"
    by (simp add: keeps_def same_consumers_def)
  ultimately show ?thesis unfolding declare_all_def by (auto intro!: keeps_flow keeps_for_each)
qed

lemma recover_consumer_session: "keeps (preserves session_ok) (recover_consumer e b backlog t)"
  unfolding keeps_def preserves_def
proof (intro allI impI)
  fix v :: "'a svc_scheme"
  assume ok: "session_ok v"
  show "session_ok (snd (recover_consumer e b backlog t v))"
  proof (cases "t \<in> set (v_queues v) \<and> t \<notin> fst ` set (v_consumer_tags v)")
    case False
    with ok show ?thesis by (auto simp: recover_consumer_def bnd_def)
  next
    case True
    let ?v1 = "logged (BrokerCall (Consume t)) v"
    have ok1: "session_ok ?v1" using ok by (simp add: session_ok_def registered_ok_def)
    show ?thesis
    proof (cases "br_consume b t")
      case (Inl x)
      with True ok1 show ?thesis
        by (simp add: recover_consumer_def consume_def log_event_def bnd_def andthen_def of_result_def)
    next
      case (Inr tag)
      let ?v2 = "register_consumer t tag ?v1"
      have "registered_ok ?v2" using ok1 True by (intro register_ok) (simp_all add: session_ok_def)
      then have "session_ok ?v2" using ok1 by (simp add: session_ok_def register_consumer_def)
      with True Inr show ?thesis
        by (simp add: recover_consumer_def consume_def log_event_def bnd_def andthen_def of_result_def
            session_ok_def registered_ok_def withdraw_def)
    qed
  qed
qed

lemma restart_session:
  assumes "registered_ok v" and "v_consumer_tags v = []"
  shows "session_ok (snd (restart_consumers e b pool_max backlog v))"
proof -
  let ?v1 = "v\<lparr>v_connection := True, v_channel := True, v_connection_tags := [], v_watch_started_at := se_now e\<rparr>"
  let ?m = "andthen (call_broker b (SetQos (consumer_prefetch pool_max))) (andthen (declare_all e b)
     (andthen (for_each (recover_consumer e b backlog) MUSICBRAINZ_DATA_TYPES)
       (modify (\<lambda>v. v\<lparr>v_idle_mode := False\<rparr>))))"
  have last: "keeps (preserves session_ok) (modify (\<lambda>v. v\<lparr>v_idle_mode := False\<rparr>))"
    by (rule session_neutral) (simp add: same_consumers_def)
  have "keeps (preserves session_ok) ?m"
    by (intro keeps_andthen keeps_for_each preserves_orders last recover_consumer_session
        consumers_session [OF call_broker_same] consumers_session [OF declare_all_same])
  moreover have "session_ok ?v1" using assms by (simp add: session_ok_def registered_ok_def)
  ultimately have "session_ok (snd (?m ?v1))" by (auto simp: keeps_def preserves_def)
  then show ?thesis by (simp add: restart_consumers_def)
qed

lemma abandon_ok: "registered_ok v \<Longrightarrow> registered_ok (snd (abandon_session b v))"
proof -
  assume "registered_ok v"
  then have "registered_ok (v\<lparr>v_connection := True, v_channel := True\<rparr>)" by (simp add: registered_ok_def)
  moreover obtain r v1 where c: "close_rabbitmq_connection (br_abandon b) (v\<lparr>v_connection := True, v_channel := True\<rparr>) = (r, v1)"
    by fastforce
  ultimately have "registered_ok v1" by (blast intro: close_ok)
  with c show ?thesis by (cases r) (auto simp: abandon_session_def registered_ok_def)
qed

lemma recover_ok:
  assumes ok: "registered_ok v"
  shows "registered_ok (snd (recover_consumers e b pool_max v))"
proof -
  let ?held = "v_connection v \<or> v_channel v \<or> v_cancellation_failed v"
  let ?close = "if ?held then close_rabbitmq_connection (br_drop b) else ret True"
  obtain r v1 where c: "?close v = (r, v1)" by fastforce
  have ok1: "registered_ok v1" and closed: "r = Inr True \<longrightarrow> v_consumer_tags v1 = []" and total: "\<exists>x. r = Inr x"
    using c ok close_ok [of "br_drop b" v] close_fields [of "br_drop b" v]
    by (auto simp: registered_ok_def split: if_splits)
  show ?thesis
  proof (cases "r = Inr True \<and> br_connect b = None")
    case False
    from total obtain x where "r = Inr x" by blast
    with False c ok1 show ?thesis
      by (cases x) (auto simp: recover_consumers_def)
  next
    case True
    obtain x v2 where s: "recovery_session e b pool_max v1 = (x, v2)" by fastforce
    have "registered_ok w" if "restart_consumers e b pool_max backlog v1 = (y, w)" for backlog y w
      using restart_session [OF ok1, of e b pool_max backlog] that closed True by (simp add: session_ok_def)
    then have "registered_ok v2"
      using s ok1 by (auto simp: recovery_session_def bnd_def split: sum.splits if_splits)
    moreover have "recover_consumers e b pool_max v = try_catch (recovery_session e b pool_max) (\<lambda>_. abandon_session b) v1"
      using c True by (simp add: recover_consumers_def)
    ultimately show ?thesis using s by (cases x) (auto simp: try_catch_def abandon_ok)
  qed
qed

section \<open>The steps of the running service\<close>

text \<open>
  Everything that can happen to the registrations while the service runs, in any order: a delivery, a
  timer's call ending one way or another, a shutdown cancellation, a close, a round of the queue checker.
\<close>

inductive background_step :: "'z svc_scheme \<Rightarrow> 'z svc_scheme \<Rightarrow> bool" where
  confirmed: "background_step v (timer_confirmed cl t tag own v)"
| failed: "background_step v (timer_failed t own v)"
| interrupted: "background_step v (timer_interrupted t own started v)"
| cancel_all: "background_step v (cancel_all_consumers in_flight confirms v)"
| close: "close_rabbitmq_connection cl v = (r, v') \<Longrightarrow> background_step v v'"
| checker: "background_step v (snd (queue_check_round e b pool_max timeout interval (last_check, v)))"
| shutdown: "background_step v (signal_handler v)"

inductive service_step :: "'z svc_scheme \<Rightarrow> 'z svc_scheme \<Rightarrow> bool" where
  delivery: "data_handler e auth admission headers body t v = (r, v') \<Longrightarrow> service_step v v'"
| background: "background_step v v' \<Longrightarrow> service_step v v'"

lemmas service_steps = service_step.background [OF background_step.checker] service_step.background [OF background_step.shutdown]

inductive service_run :: "'z svc_scheme \<Rightarrow> 'z svc_scheme \<Rightarrow> bool" where
  start: "service_run v v"
| more: "service_run v v' \<Longrightarrow> service_step v' v'' \<Longrightarrow> service_run v v''"

lemma background_step_ok: "background_step v v' \<Longrightarrow> registered_ok v \<Longrightarrow> registered_ok v'"
proof (induction rule: background_step.induct)
  case (close cl v r v')
  then show ?case by (blast intro: close_ok)
next
  case (shutdown v)
  then show ?case by (simp add: registered_ok_def signal_handler_def)
qed (auto simp: timer_confirmed_ok timer_failed_def cancel_all_ok queue_check_round_def recover_ok split: prod.splits)

lemma service_step_ok: "service_step v v' \<Longrightarrow> registered_ok v \<Longrightarrow> registered_ok v'"
proof (induction rule: service_step.induct)
  case (delivery e auth admission headers body t v r v')
  with keepsD [OF consumers.handler_kept] same_consumers_ok show ?case by blast
qed (rule background_step_ok)

lemma service_run_ok: "service_run v v' \<Longrightarrow> registered_ok v \<Longrightarrow> registered_ok v'"
  by (induction rule: service_run.induct) (auto intro: service_step_ok)

text \<open>What the background leaves alone: the tables, the purge, the counters; idle mode is only ever left.\<close>

definition same_work :: "'z svc_scheme \<Rightarrow> 'z svc_scheme \<Rightarrow> bool" where
  "same_work v v' \<longleftrightarrow> s_db v' = s_db v \<and> v_purge v' = v_purge v \<and> v_message_counts v' = v_message_counts v
     \<and> v_pool v' = v_pool v \<and> v_admission v' = v_admission v \<and> (v_idle_mode v' \<longrightarrow> v_idle_mode v)"

lemma same_work_orders [intro, simp]: "reflp same_work" "transp same_work"
  by (auto simp: reflp_def transp_def same_work_def)

lemma work_refl: "same_work v v"
  by (simp add: same_work_def)

lemma work_trans: "same_work v v' \<Longrightarrow> same_work v' v'' \<Longrightarrow> same_work v v''"
  using same_work_orders(2) by (blast dest: transpD)

lemma close_work: "keeps same_work (close_rabbitmq_connection cl)"
  unfolding keeps_def
  by (auto simp: close_rabbitmq_connection_def close_channel_def close_connection_def logged_def Let_def
      same_work_def split: prod.split)

lemma forget_work: "same_work v (forget_consumer t tag v)"
  by (simp add: same_work_def forget_consumer_def logged_def)

lemma flag_work: "same_work v (cancellation_failed v)"
  by (simp add: same_work_def cancellation_failed_def)

lemma finished_work: "same_work v (timer_finished t own v)"
  by (simp add: same_work_def timer_finished_def)

lemma confirmed_work: "same_work v (timer_confirmed cl t tag own v)"
  unfolding timer_confirmed_def Let_def
  by (auto intro!: work_trans [OF _ finished_work] intro: forget_work
      work_trans [OF forget_work keeps_run [OF close_work]])

lemma interrupted_work: "same_work v (timer_interrupted t own started v)"
  unfolding timer_interrupted_def by (auto intro: work_trans [OF flag_work finished_work] finished_work)

lemma fold_work: "(\<And>x v. same_work v (f x v)) \<Longrightarrow> same_work v (fold f xs v)"
proof (induction xs arbitrary: v)
  case Nil
  show ?case by (simp add: work_refl)
next
  case (Cons x xs)
  from work_trans [OF Cons.prems Cons.IH [OF Cons.prems]] show ?case by simp
qed

lemma cancel_each_work: "same_work v (cancel_each confirms xs v)"
  by (induction confirms xs v rule: cancel_each.induct)
    (auto intro: work_refl work_trans [OF forget_work] work_trans [OF flag_work] flag_work)

lemma cancel_all_work: "same_work v (cancel_all_consumers in_flight confirms v)"
  unfolding cancel_all_consumers_def interrupt_timers_def Let_def
  by (intro work_trans [OF fold_work cancel_each_work] interrupted_work)

lemma modify_work: "(\<And>v. same_work v (f v)) \<Longrightarrow> keeps same_work (modify f)"
  by (rule keeps_modify)

lemma log_work: "keeps same_work (log_event ev)"
  unfolding log_event_def by (rule modify_work) (simp add: same_work_def logged_def)

lemma call_broker_work: "keeps same_work (call_broker b c)"
  unfolding call_broker_def by (auto intro!: keeps_flow log_work split: option.split)

lemma consume_work: "keeps same_work (consume b t)"
  unfolding consume_def
  by (intro keeps_flow log_work modify_work) (simp_all add: same_work_def register_consumer_def logged_def)

lemma restart_work: "keeps same_work (restart_consumers e b pool_max backlog)"
proof -
  have "keeps same_work (declare_type e b t)" for t
    unfolding declare_type_def by (auto intro!: keeps_flow keeps_for_each call_broker_work modify_work simp: same_work_def)
  then have "keeps same_work (declare_all e b)"
    unfolding declare_all_def by (auto intro!: keeps_flow keeps_for_each modify_work simp: same_work_def)
  moreover have "keeps same_work (recover_consumer e b backlog t)" for t
    unfolding recover_consumer_def
    by (auto intro!: keeps_flow consume_work log_work modify_work simp: withdraw_def same_work_def)
  ultimately show ?thesis
    unfolding restart_consumers_def by (auto intro!: keeps_flow keeps_for_each call_broker_work modify_work simp: same_work_def)
qed

lemma recover_work: "keeps same_work (recover_consumers e b pool_max)"
proof -
  have "keeps same_work (abandon_session b)"
    unfolding abandon_session_def by (auto intro!: keeps_flow close_work modify_work simp: same_work_def)
  moreover have "keeps same_work (recovery_session e b pool_max)"
    unfolding recovery_session_def by (auto intro!: keeps_flow restart_work)
  ultimately show ?thesis
    unfolding recover_consumers_def by (auto intro!: keeps_flow close_work split: option.split)
qed

lemma background_step_work: "background_step v v' \<Longrightarrow> same_work v v'"
proof (induction rule: background_step.induct)
  case (close cl v r v')
  with close_work show ?case by (rule keepsD)
next
  case (failed v t own)
  show ?case unfolding timer_failed_def by (rule work_trans [OF flag_work finished_work])
next
  case (checker v e b pool_max timeout interval last_check)
  show ?case using keeps_run [OF recover_work]
    by (auto simp: queue_check_round_def work_refl split: prod.split)
next
  case (shutdown v)
  show ?case by (simp add: signal_handler_def same_work_def)
qed (auto intro: confirmed_work interrupted_work cancel_all_work)

section \<open>A recovery the broker answers\<close>

text \<open>A broker that closes the old session and answers every call.\<close>

definition broker_up :: "broker \<Rightarrow> bool" where
  "broker_up b \<longleftrightarrow> br_connect b = None \<and> (\<forall>c. br_call b c = None) \<and> (\<forall>q. \<not> isl (br_backlog b q))
     \<and> (\<forall>t. \<not> isl (br_consume b t)) \<and> cl_channel (br_drop b) \<and> cl_connection (br_drop b)"

definition waiting_in :: "senv \<Rightarrow> broker \<Rightarrow> string \<Rightarrow> nat" where
  "waiting_in e b t = projr (br_backlog b (projr (queue_name (se_prefix e) AMQP_CONSUMER_ID t)))"

definition tag_for :: "broker \<Rightarrow> string \<Rightarrow> string" where
  "tag_for b t = projr (br_consume b t)"

text \<open>The broker calls an effect has made, and the frame of the effects that only make calls.\<close>

definition calls :: "'z svc_scheme \<Rightarrow> broker_call list" where
  "calls v = List.map_filter (\<lambda>ev. case ev of BrokerCall c \<Rightarrow> Some c | _ \<Rightarrow> None) (v_log v)"

lemma calls_logged [simp]:
  "calls (logged (BrokerCall c) v) = calls v @ [c]" "calls (logged (ConsumerDelta d) v) = calls v"
  by (simp_all add: calls_def logged_def List.map_filter_def)

lemma names_exist:
  assumes "t \<in> set MUSICBRAINZ_DATA_TYPES"
  shows "queue_name prefix AMQP_CONSUMER_ID t = Inr (prefix @ ''-brainztableinator-'' @ t)"
    and "exchange_name prefix t = Inr (prefix @ ''-'' @ t)"
    and "dead_letter_queue_name prefix AMQP_CONSUMER_ID t = Inr (prefix @ ''-brainztableinator-'' @ t @ ''.dlq'')"
    and "dead_letter_exchange_name prefix AMQP_CONSUMER_ID t = Inr (prefix @ ''-brainztableinator-'' @ t @ ''.dlx'')"
  using assms by (simp_all add: queue_name_def exchange_name_def dead_letter_queue_name_def dead_letter_exchange_name_def
      MUSICBRAINZ_DATA_TYPES_def AMQP_CONSUMER_ID_def CONSUMERS_def)

lemma read_backlogs_up:
  assumes "broker_up b" and "set ts \<subseteq> set MUSICBRAINZ_DATA_TYPES"
  shows "read_backlogs e b ts = Inr (map (\<lambda>t. (t, waiting_in e b t)) (filter (\<lambda>t. 0 < waiting_in e b t) ts))"
  using assms(2)
proof (induction ts)
  case Nil
  then show ?case by simp
next
  case (Cons t ts)
  then have q: "queue_name (se_prefix e) AMQP_CONSUMER_ID t = Inr (se_prefix e @ ''-brainztableinator-'' @ t)"
    by (simp add: names_exist)
  obtain n where n: "br_backlog b (se_prefix e @ ''-brainztableinator-'' @ t) = Inr n"
    using assms(1) unfolding broker_up_def by (metis isl_def sum.exhaust_sel)
  with q have "waiting_in e b t = n" by (simp add: waiting_in_def)
  with Cons q n show ?case by simp
qed

lemma call_all_up:
  assumes "broker_up b"
  shows "\<exists>l. for_each (call_broker b) cs v = (Inr (), v\<lparr>v_log := l\<rparr>) \<and> calls (v\<lparr>v_log := l\<rparr>) = calls v @ cs"
proof (induction cs arbitrary: v)
  case Nil
  have "v = v\<lparr>v_log := v_log v\<rparr>" by simp
  then show ?case by (metis append_Nil2 for_each.simps(1) ret_apply)
next
  case (Cons c cs)
  let ?v1 = "logged (BrokerCall c) v"
  from Cons.IH [of ?v1] obtain l where l: "for_each (call_broker b) cs ?v1 = (Inr (), ?v1\<lparr>v_log := l\<rparr>)"
    "calls (?v1\<lparr>v_log := l\<rparr>) = calls v @ c # cs" by auto
  have "?v1\<lparr>v_log := l\<rparr> = v\<lparr>v_log := l\<rparr>" by (simp add: logged_def)
  moreover have "call_broker b c v = (Inr (), ?v1)"
    using assms by (simp add: call_broker_def log_event_def broker_up_def)
  ultimately show ?case using l by auto
qed

definition type_calls :: "string \<Rightarrow> string \<Rightarrow> broker_call list" where
  "type_calls prefix t = projr (topology_calls prefix t)"

lemma topology_exists:
  "t \<in> set MUSICBRAINZ_DATA_TYPES \<Longrightarrow> topology_calls prefix t = Inr (type_calls prefix t)"
  by (simp add: topology_calls_def type_calls_def names_exist)

lemma declare_types_up:
  assumes "broker_up b" and "set ts \<subseteq> set MUSICBRAINZ_DATA_TYPES"
  shows "\<exists>l. for_each (declare_type e b) ts v = (Inr (), v\<lparr>v_log := l, v_queues := v_queues v @ ts\<rparr>)
    \<and> calls (v\<lparr>v_log := l\<rparr>) = calls v @ concat (map (type_calls (se_prefix e)) ts)"
  using assms(2)
proof (induction ts arbitrary: v)
  case Nil
  have "v = v\<lparr>v_log := v_log v\<rparr>" by simp
  then show ?case by (intro exI [of _ "v_log v"]) simp
next
  case (Cons t ts)
  from call_all_up [OF assms(1), of "type_calls (se_prefix e) t" v] obtain l1 where
    1: "for_each (call_broker b) (type_calls (se_prefix e) t) v = (Inr (), v\<lparr>v_log := l1\<rparr>)"
      "calls (v\<lparr>v_log := l1\<rparr>) = calls v @ type_calls (se_prefix e) t" by blast
  let ?v1 = "v\<lparr>v_log := l1, v_queues := v_queues v @ [t]\<rparr>"
  have d: "declare_type e b t v = (Inr (), ?v1)"
    using Cons.prems 1(1) by (simp add: declare_type_def topology_exists)
  from Cons.IH [of ?v1] Cons.prems obtain l2 where
    2: "for_each (declare_type e b) ts ?v1 = (Inr (), ?v1\<lparr>v_log := l2, v_queues := v_queues ?v1 @ ts\<rparr>)"
      "calls (?v1\<lparr>v_log := l2\<rparr>) = calls ?v1 @ concat (map (type_calls (se_prefix e)) ts)" by auto
  have "?v1\<lparr>v_log := l2, v_queues := v_queues ?v1 @ ts\<rparr> = v\<lparr>v_log := l2, v_queues := v_queues v @ t # ts\<rparr>" by simp
  moreover have "calls (v\<lparr>v_log := l2\<rparr>) = calls v @ concat (map (type_calls (se_prefix e)) (t # ts))"
    using 1(2) 2(2) by (simp add: calls_def)
  ultimately show ?case using d 2(1) by (intro exI [of _ l2]) simp
qed

lemma recover_types_up:
  assumes up: "broker_up b" and "distinct ts" and "set ts \<subseteq> set (v_queues v)"
    and "set ts \<inter> fst ` set (v_consumer_tags v) = {}"
  shows "\<exists>l c m. for_each (recover_consumer e b backlog) ts v = (Inr (), v\<lparr>v_log := l,
      v_consumer_tags := v_consumer_tags v @ map (\<lambda>t. (t, tag_for b t)) ts, v_connection_tags := c,
      v_completed_files := filter (\<lambda>t. \<not> (t \<in> set ts \<and> t \<in> fst ` set backlog)) (v_completed_files v),
      v_last_message_time := m\<rparr>)
    \<and> calls (v\<lparr>v_log := l\<rparr>) = calls v @ map Consume ts"
  using assms(2-)
proof (induction ts arbitrary: v)
  case Nil
  show ?case
    by (rule exI [of _ "v_log v"], rule exI [of _ "v_connection_tags v"], rule exI [of _ "v_last_message_time v"]) simp
next
  case (Cons t ts)
  obtain tag where tag: "br_consume b t = Inr tag"
    using up unfolding broker_up_def by (metis isl_def sum.exhaust_sel)
  then have tf: "tag_for b t = tag" by (simp add: tag_for_def)
  let ?files = "\<lambda>fs. if t \<in> fst ` set backlog then removeAll t fs else fs"
  let ?m1 = "AList.update t (se_now e) (v_last_message_time v)"
  let ?v1 = "v\<lparr>v_log := (v_log v @ [BrokerCall (Consume t)]) @ [ConsumerDelta 1],
      v_consumer_tags := v_consumer_tags v @ [(t, tag)],
      v_connection_tags := AList.update t tag (v_connection_tags v),
      v_completed_files := ?files (v_completed_files v), v_last_message_time := ?m1\<rparr>"
  from Cons.prems(2,3) have "recover_consumer e b backlog t v = (Inr (), ?v1)"
    by (simp add: recover_consumer_def consume_def log_event_def logged_def tag register_consumer_def update_fresh
        withdraw_def)
  moreover from Cons.IH [of ?v1] Cons.prems obtain l c m where
    "for_each (recover_consumer e b backlog) ts ?v1 = (Inr (), ?v1\<lparr>v_log := l,
      v_consumer_tags := v_consumer_tags ?v1 @ map (\<lambda>t. (t, tag_for b t)) ts, v_connection_tags := c,
      v_completed_files := filter (\<lambda>t. \<not> (t \<in> set ts \<and> t \<in> fst ` set backlog)) (v_completed_files ?v1),
      v_last_message_time := m\<rparr>)"
    and 2: "calls (?v1\<lparr>v_log := l\<rparr>) = calls ?v1 @ map Consume ts" by auto
  moreover have "filter (\<lambda>x. \<not> (x \<in> set ts \<and> x \<in> fst ` set backlog)) (?files (v_completed_files v))
      = filter (\<lambda>x. \<not> (x \<in> set (t # ts) \<and> x \<in> fst ` set backlog)) (v_completed_files v)"
    by (auto simp: removeAll_filter_not_eq intro!: filter_cong)
  moreover have "calls (v\<lparr>v_log := l\<rparr>) = calls v @ map Consume (t # ts)"
    using 2 by (simp add: calls_def List.map_filter_def)
  ultimately show ?case by (intro exI [of _ l] exI [of _ c] exI [of _ m]) (simp add: tf)
qed

lemma close_up:
  assumes "cl_channel cl" and "cl_connection cl" and "registered_ok v"
  shows "\<exists>v1. close_rabbitmq_connection cl v = (Inr True, v1) \<and> v_consumer_tags v1 = [] \<and> \<not> v_cancellation_failed v1
    \<and> v_completed_files v1 = v_completed_files v \<and> calls v1 = calls v"
  using assms
  by (cases "v_connection v"; cases "v_channel v")
    (simp_all add: close_rabbitmq_connection_def close_channel_def close_connection_def registered_ok_def calls_def
      List.map_filter_def Let_def)

lemma recovery_up:
  assumes up: "broker_up b" and ok: "registered_ok v"
    and backlog: "t0 \<in> set MUSICBRAINZ_DATA_TYPES" "0 < waiting_in e b t0"
  shows "\<exists>w. recover_consumers e b pool_max v = (Inr (), w)
    \<and> v_consumer_tags w = map (\<lambda>t. (t, tag_for b t)) MUSICBRAINZ_DATA_TYPES
    \<and> v_completed_files w = filter (\<lambda>t. \<not> (t \<in> set MUSICBRAINZ_DATA_TYPES \<and> 0 < waiting_in e b t)) (v_completed_files v)
    \<and> \<not> v_cancellation_failed w \<and> v_watch_started_at w = se_now e
    \<and> calls w = calls v @ SetQos (consumer_prefetch pool_max)
        # concat (map (type_calls (se_prefix e)) MUSICBRAINZ_DATA_TYPES) @ map Consume MUSICBRAINZ_DATA_TYPES"
proof -
  let ?held = "v_connection v \<or> v_channel v \<or> v_cancellation_failed v"
  let ?close = "if ?held then close_rabbitmq_connection (br_drop b) else ret True"
  let ?bl = "map (\<lambda>t. (t, waiting_in e b t)) (filter (\<lambda>t. 0 < waiting_in e b t) MUSICBRAINZ_DATA_TYPES)"
  from backlog have bl: "?bl \<noteq> []" by (auto simp: filter_empty_conv)
  have keys: "fst ` set ?bl = {t \<in> set MUSICBRAINZ_DATA_TYPES. 0 < waiting_in e b t}" by force
  obtain v1 where c: "?close v = (Inr True, v1)" and v1: "v_consumer_tags v1 = []" "\<not> v_cancellation_failed v1"
      "v_completed_files v1 = v_completed_files v" "calls v1 = calls v"
    using up ok close_up [of "br_drop b" v] by (cases ?held) (auto simp: registered_ok_def broker_up_def)
  let ?v2 = "v1\<lparr>v_connection := True, v_channel := True, v_connection_tags := [], v_watch_started_at := se_now e\<rparr>"
  from call_all_up [OF up, of "[SetQos (consumer_prefetch pool_max)]" ?v2] obtain l1 where
    q: "call_broker b (SetQos (consumer_prefetch pool_max)) ?v2 = (Inr (), ?v2\<lparr>v_log := l1\<rparr>)"
      "calls (?v2\<lparr>v_log := l1\<rparr>) = calls ?v2 @ [SetQos (consumer_prefetch pool_max)]"
    by (auto simp: andthen_def bnd_def split: prod.splits sum.splits)
  let ?v3 = "?v2\<lparr>v_log := l1, v_queues := []\<rparr>"
  from declare_types_up [OF up order_refl, of e ?v3] obtain l2 where
    d: "for_each (declare_type e b) MUSICBRAINZ_DATA_TYPES ?v3
        = (Inr (), ?v3\<lparr>v_log := l2, v_queues := MUSICBRAINZ_DATA_TYPES\<rparr>)"
      "calls (?v3\<lparr>v_log := l2\<rparr>) = calls ?v3 @ concat (map (type_calls (se_prefix e)) MUSICBRAINZ_DATA_TYPES)"
    by auto
  let ?v4 = "?v3\<lparr>v_log := l2, v_queues := MUSICBRAINZ_DATA_TYPES\<rparr>"
  from recover_types_up [OF up distinct_data_types, of ?v4 e ?bl] obtain l c m where
    r: "for_each (recover_consumer e b ?bl) MUSICBRAINZ_DATA_TYPES ?v4 = (Inr (), ?v4\<lparr>v_log := l,
      v_consumer_tags := v_consumer_tags ?v4 @ map (\<lambda>t. (t, tag_for b t)) MUSICBRAINZ_DATA_TYPES, v_connection_tags := c,
      v_completed_files := filter (\<lambda>t. \<not> (t \<in> set MUSICBRAINZ_DATA_TYPES \<and> t \<in> fst ` set ?bl)) (v_completed_files ?v4),
      v_last_message_time := m\<rparr>)"
      "calls (?v4\<lparr>v_log := l\<rparr>) = calls ?v4 @ map Consume MUSICBRAINZ_DATA_TYPES"
    using v1(1) by auto
  let ?v' = "v1\<lparr>v_log := l, v_connection := True, v_channel := True, v_watch_started_at := se_now e, v_queues := MUSICBRAINZ_DATA_TYPES,
      v_consumer_tags := map (\<lambda>t. (t, tag_for b t)) MUSICBRAINZ_DATA_TYPES, v_connection_tags := c,
      v_completed_files := filter (\<lambda>t. \<not> (t \<in> set MUSICBRAINZ_DATA_TYPES \<and> 0 < waiting_in e b t)) (v_completed_files v),
      v_last_message_time := m, v_idle_mode := False\<rparr>"
  have restart: "restart_consumers e b pool_max ?bl v1 = (Inr (), ?v')"
    using q(1) d(1) r(1) [unfolded keys] v1(1,3)
    by (simp add: restart_consumers_def declare_all_def del: filter.simps set_map set_filter cong: filter_cong)
  have "recovery_session e b pool_max v1 = (Inr (), ?v')"
    using bl restart by (simp only: recovery_session_def read_backlogs_up [OF up order_refl] bnd_of_result if_True simp_thms if_False not_False_eq_True)
  with c up have run: "recover_consumers e b pool_max v = (Inr (), ?v')"
    by (simp add: recover_consumers_def broker_up_def try_catch_def)
  have "calls ?v' = calls v @ SetQos (consumer_prefetch pool_max)
        # concat (map (type_calls (se_prefix e)) MUSICBRAINZ_DATA_TYPES) @ map Consume MUSICBRAINZ_DATA_TYPES"
    using q(2) d(2) r(2) v1(4) by (simp add: calls_def)
  with run v1(2) show ?thesis by (intro exI [of _ ?v']) simp
qed

section \<open>Properties\<close>

text \<open>
  C17.  The loader heals itself: a round of the queue checker that finds an unconfirmed cancellation or an
  incomplete stream without a working consumer, with a broker that answers and at least one message
  waiting, ends with a consumer on every one of the four queues, no alarm, nothing unconfirmed, and
  exactly the streams that have a backlog no longer counted as complete.  It declares every exchange,
  dead-letter pair and queue before the first subscription.
\<close>

theorem queue_check_heals:
  assumes ok: "registered_ok v" and up: "broker_up b" and wait: "0 < timeout"
    and backlog: "t0 \<in> set MUSICBRAINZ_DATA_TYPES" "0 < waiting_in e b t0"
    and stuck: "v_cancellation_failed v \<or> consumer_alarm_types timeout (se_now e) v \<noteq> []"
    and round: "queue_check_round e b pool_max timeout interval (last_check, v) = (last_check', v')"
  shows "(\<forall>t \<in> set MUSICBRAINZ_DATA_TYPES. map_of (v_consumer_tags v') t = Some (tag_for b t))
    \<and> consumer_alarm_types timeout (se_now e) v' = [] \<and> \<not> v_cancellation_failed v'
    \<and> v_completed_files v' = filter (\<lambda>t. \<not> (t \<in> set MUSICBRAINZ_DATA_TYPES \<and> 0 < waiting_in e b t)) (v_completed_files v)
    \<and> calls v' = calls v @ SetQos (consumer_prefetch pool_max)
        # concat (map (type_calls (se_prefix e)) MUSICBRAINZ_DATA_TYPES) @ map Consume MUSICBRAINZ_DATA_TYPES"
proof -
  from recovery_up [OF up ok backlog, of pool_max] obtain w where
    rec: "recover_consumers e b pool_max v = (Inr (), w)"
    and w: "v_consumer_tags w = map (\<lambda>t. (t, tag_for b t)) MUSICBRAINZ_DATA_TYPES" "v_watch_started_at w = se_now e"
    and fields: "v_completed_files w = filter (\<lambda>t. \<not> (t \<in> set MUSICBRAINZ_DATA_TYPES \<and> 0 < waiting_in e b t)) (v_completed_files v)"
      "\<not> v_cancellation_failed w"
      "calls w = calls v @ SetQos (consumer_prefetch pool_max)
        # concat (map (type_calls (se_prefix e)) MUSICBRAINZ_DATA_TYPES) @ map Consume MUSICBRAINZ_DATA_TYPES"
    by metis
  from round stuck rec have "v' = w"
    by (auto simp: queue_check_round_def queue_check_def check_consumers_unexpectedly_dead_def split: if_splits)
  moreover have tags: "map_of (v_consumer_tags w) t = Some (tag_for b t)" if "t \<in> set MUSICBRAINZ_DATA_TYPES" for t
    using that by (simp add: w map_of_map_restrict)
  moreover have "t \<notin> set (consumer_alarm_types timeout (se_now e) w)" for t
    unfolding alarm_iff using wait tags [of t] by (auto simp: grace_expired_def w)
  then have "consumer_alarm_types timeout (se_now e) w = []"
    by (metis last_in_set)
  ultimately show ?thesis using fields by simp
qed

definition demo_broker :: broker where
  "demo_broker = \<lparr>br_connect = None, br_call = (\<lambda>_. None),
     br_backlog = (\<lambda>q. Inr (if q = ''p-brainztableinator-artists'' then 3 else 0)),
     br_consume = (\<lambda>t. Inr (''new-'' @ t)), br_drop = \<lparr>cl_channel = True, cl_connection = True\<rparr>,
     br_idle = \<lparr>cl_channel = True, cl_connection = True\<rparr>, br_abandon = \<lparr>cl_channel = True, cl_connection = True\<rparr>\<rparr>"

text \<open>All four consumers were lost with the connection after five records had been handled.\<close>

definition demo_lost :: svc where
  "demo_lost = demo_svc\<lparr>v_consumer_tags := [], v_connection_tags := [], v_connection := False, v_channel := False\<rparr>"

lemma demo_lost_ok: "registered_ok demo_lost"
  by (simp add: registered_ok_def demo_lost_def demo_svc_def gauge_def)

lemma demo_broker_up: "broker_up demo_broker"
  by (simp add: broker_up_def demo_broker_def)

lemma demo_waiting: "''artists'' \<in> set MUSICBRAINZ_DATA_TYPES" "0 < waiting_in demo_senv demo_broker ''artists''"
proof -
  show t: "''artists'' \<in> set MUSICBRAINZ_DATA_TYPES" by (simp add: set_data_types)
  show "0 < waiting_in demo_senv demo_broker ''artists''"
    by (simp add: waiting_in_def names_exist [OF t] demo_senv_def demo_broker_def)
qed

lemma demo_stuck: "consumer_alarm_types 30 now demo_lost \<noteq> []"
proof -
  have "''artists'' \<in> set (consumer_alarm_types 30 now demo_lost)"
    unfolding alarm_iff by (simp add: demo_waiting traffic_seen_def demo_lost_def demo_svc_def)
  then show ?thesis by auto
qed

lemma demo_round:
  "v_consumer_tags (snd (queue_check_round demo_senv demo_broker None 30 3600 (0, demo_lost)))
     = map (\<lambda>t. (t, tag_for demo_broker t)) MUSICBRAINZ_DATA_TYPES"
proof -
  from recovery_up [OF demo_broker_up demo_lost_ok demo_waiting, of None] obtain w
    where "recover_consumers demo_senv demo_broker None demo_lost = (Inr (), w)"
      and "v_consumer_tags w = map (\<lambda>t. (t, tag_for demo_broker t)) MUSICBRAINZ_DATA_TYPES" by metis
  then show ?thesis
    by (simp add: queue_check_round_def queue_check_def check_consumers_unexpectedly_dead_def demo_stuck)
qed

theorem queue_check_heals_witness:
  "map_of (v_consumer_tags (snd (queue_check_round demo_senv demo_broker None 30 3600 (0, demo_lost)))) ''artists''
     = Some ''new-artists''"
proof -
  have wait: "0 < (30 :: rat)" by simp
  from queue_check_heals [OF demo_lost_ok demo_broker_up wait demo_waiting disjI2 [OF demo_stuck] surjective_pairing,
      where interval = 3600 and pool_max = None and last_check = 0] demo_waiting(1)
  show ?thesis by (simp add: tag_for_def demo_broker_def)
qed

text \<open>
  C18.  Registrations never drift: from a state in order, whatever sequence of deliveries, timers,
  cancellations, closes and recoveries follows, no stream has two consumers, each consumer is in the
  evidence of the connection it was made on, a consumer is only ever remembered while its broker session
  is held, and the active-consumer gauge shows their exact number.
\<close>

theorem registrations_stay_in_order:
  assumes "service_run v v'" and "registered_ok v"
  shows "distinct (map fst (v_consumer_tags v')) \<and> gauge v' = int (length (v_consumer_tags v'))
    \<and> (\<forall>t tag. map_of (v_consumer_tags v') t = Some tag \<longrightarrow> map_of (v_connection_tags v') t = Some tag)
    \<and> (v_consumer_tags v' \<noteq> [] \<longrightarrow> v_connection v' \<or> v_channel v')"
proof -
  from service_run_ok [OF assms] have ok: "registered_ok v'" .
  then have "map_of (v_connection_tags v') t = Some tag" if "map_of (v_consumer_tags v') t = Some tag" for t tag
    using that unfolding registered_ok_def map_le_def by (metis domI)
  with ok show ?thesis by (simp add: registered_ok_def)
qed

theorem registrations_stay_in_order_witness:
  "gauge (snd (queue_check_round demo_senv demo_broker None 30 3600 (0, demo_lost))) = 4"
proof -
  let ?w = "snd (queue_check_round demo_senv demo_broker None 30 3600 (0, demo_lost))"
  have "service_run demo_lost ?w" by (rule service_run.more [OF service_run.start service_steps(1)])
  from registrations_stay_in_order [OF this demo_lost_ok]
  have "gauge ?w = int (length (v_consumer_tags ?w))" by simp
  moreover have "length (v_consumer_tags ?w) = 4"
    by (simp add: demo_round MUSICBRAINZ_DATA_TYPES_def ENTITY_TYPES_def)
  ultimately show ?thesis by simp
qed

text \<open>
  An uncertain session is never replaced: while the old broker connection cannot be confirmed closed,
  a recovery makes no call on a new one, keeps the connection and stays flagged for another attempt; and
  if its channel was not confirmed closed either, every registration is kept.
\<close>

theorem recovery_waits_for_closure:
  assumes "v_connection v" and "\<not> cl_connection (br_drop b)"
  shows "let v' = snd (recover_consumers e b pool_max v) in
    v_cancellation_failed v' \<and> v_connection v' \<and> calls v' = calls v
    \<and> (v_channel v \<and> cl_channel (br_drop b) \<or> v_consumer_tags v' = v_consumer_tags v \<and> v_connection_tags v' = v_connection_tags v)"
proof -
  obtain v1 where c: "close_rabbitmq_connection (br_drop b) v = (Inr False, v1)"
    and v1: "v_cancellation_failed v1" "v_connection v1" "calls v1 = calls v"
      "v_channel v \<and> cl_channel (br_drop b) \<or> v_consumer_tags v1 = v_consumer_tags v \<and> v_connection_tags v1 = v_connection_tags v"
    using assms
    by (cases "v_channel v \<and> cl_channel (br_drop b)")
      (auto simp: close_rabbitmq_connection_def close_channel_def close_connection_def calls_def List.map_filter_def Let_def)
  from assms(1) c have "recover_consumers e b pool_max v = (Inr (), v1)"
    by (simp add: recover_consumers_def bnd_def)
  with v1 show ?thesis by (simp add: Let_def)
qed

theorem recovery_waits_for_closure_witness:
  "v_cancellation_failed (snd (recover_consumers demo_senv (demo_broker\<lparr>br_drop := \<lparr>cl_channel = False, cl_connection = False\<rparr>\<rparr>)
     None demo_svc))"
  using recovery_waits_for_closure [of demo_svc "demo_broker\<lparr>br_drop := \<lparr>cl_channel = False, cl_connection = False\<rparr>\<rparr>"
      demo_senv None] by (simp add: demo_svc_def Let_def)

text \<open>
  A completion timer stops only the consumer it was armed for: when its cancel is confirmed, every
  other registration is kept, a consumer registered for the same stream since then included, and the
  connection is closed only when no consumer is left and as many streams are complete as there are.
\<close>

theorem timer_stops_only_its_consumer:
  assumes "map_of (v_consumer_tags v) t' = Some x" and "(t', x) \<noteq> (t, tag)"
  shows "map_of (v_consumer_tags (timer_confirmed cl t tag own v)) t' = Some x
    \<and> v_connection (timer_confirmed cl t tag own v) = v_connection v"
proof -
  have "map_of (v_consumer_tags (forget_consumer t tag v)) t' = Some x"
    using assms by (auto simp: forget_consumer_def AList.delete_conv')
  moreover from this have "\<not> check_all_consumers_idle (forget_consumer t tag v)"
    by (auto simp: check_all_consumers_idle_def)
  moreover have "v_connection (forget_consumer t tag v) = v_connection v" by (simp add: forget_consumer_def)
  ultimately show ?thesis by (simp add: timer_confirmed_def timer_finished_def Let_def)
qed

theorem timer_stops_only_its_consumer_witness:
  "map_of (v_consumer_tags (timer_confirmed \<lparr>cl_channel = True, cl_connection = True\<rparr> ''artists'' ''old'' True demo_svc)) ''artists''
     = Some ''c1''"
  using timer_stops_only_its_consumer [of demo_svc "''artists''" "''c1''" "''artists''" "''old''"
      "\<lparr>cl_channel = True, cl_connection = True\<rparr>" True] by (simp add: demo_svc_def)

end
