(* ===== verification/Loader_Config.thy ===== *)
theory Loader_Config
  imports Py_Values
begin

text \<open>
  The configuration read from the environment: \<open>brainztableinator/config.py\<close>.

  \<open>getenv\<close> is the environment.  The helpers of the shared package are parameters: \<open>cfg_get_secret\<close> for
  \<open>get_secret\<close>, \<open>cfg_amqp_url\<close> and \<open>cfg_connstr\<close> for the two builders, \<open>cfg_pool_sizes\<close> for
  \<open>resolve_postgres_pool_sizes\<close> (its two defaults given); each may raise.
\<close>

section \<open>Environment and helpers\<close>

type_synonym environ = "string \<Rightarrow> string option"

record config_lib =
  cfg_get_secret :: "environ \<Rightarrow> string \<Rightarrow> string option"
  cfg_amqp_url :: "environ \<Rightarrow> exn + string"
  cfg_connstr :: "environ \<Rightarrow> exn + string"
  cfg_pool_sizes :: "environ \<Rightarrow> int \<Rightarrow> int \<Rightarrow> exn + int \<times> int"

definition DEFAULT_HEALTH_PORT :: int where
  "DEFAULT_HEALTH_PORT = 8002"

record loader_config =
  amqp_connection :: string
  postgres_host :: string
  postgres_username :: string
  postgres_password :: string
  postgres_database :: string
  postgres_pool_min_size :: int
  postgres_pool_max_size :: int
  health_port :: int

definition value_error :: exn where
  "value_error = py_error ''ValueError''"

text \<open>\<open>int(os.environ.get(name, default))\<close>.\<close>

definition env_int :: "string \<Rightarrow> int \<Rightarrow> environ \<Rightarrow> exn + int" where
  "env_int name def getenv = (case getenv name of
     None \<Rightarrow> Inr def
   | Some s \<Rightarrow> (case py_int 10 s of None \<Rightarrow> Inl value_error | Some n \<Rightarrow> Inr n))"

definition resolve_health_port :: "environ \<Rightarrow> exn + int" where
  "resolve_health_port getenv = (case getenv ''HEALTH_PORT'' of
     None \<Rightarrow> Inr DEFAULT_HEALTH_PORT
   | Some raw \<Rightarrow>
       (case py_int 10 (strip raw) of
          None \<Rightarrow> Inl value_error
        | Some port \<Rightarrow> if \<not> (1 \<le> port \<and> port \<le> 65535) then Inl value_error else Inr port))"

text \<open>The required variables with what each holds; a variable is missing when it is unset or empty.\<close>

definition required_vars :: "config_lib \<Rightarrow> environ \<Rightarrow> (string \<times> string option) list" where
  "required_vars l getenv =
     [(''RABBITMQ_USERNAME'', cfg_get_secret l getenv ''RABBITMQ_USERNAME''),
      (''RABBITMQ_PASSWORD'', cfg_get_secret l getenv ''RABBITMQ_PASSWORD''),
      (''POSTGRES_HOST'', getenv ''POSTGRES_HOST''),
      (''POSTGRES_USERNAME'', cfg_get_secret l getenv ''POSTGRES_USERNAME''),
      (''POSTGRES_PASSWORD'', cfg_get_secret l getenv ''POSTGRES_PASSWORD''),
      (''POSTGRES_DATABASE'', getenv ''POSTGRES_DATABASE'')]"

definition missing_vars :: "config_lib \<Rightarrow> environ \<Rightarrow> string list" where
  "missing_vars l getenv = map fst (filter (\<lambda>(_, v). v = None \<or> v = Some []) (required_vars l getenv))"

definition from_env :: "config_lib \<Rightarrow> environ \<Rightarrow> exn + loader_config" where
  "from_env l getenv =
     (if missing_vars l getenv \<noteq> [] then Inl value_error
      else rbind (resolve_health_port getenv) (\<lambda>port.
        rbind (cfg_pool_sizes l getenv 2 12) (\<lambda>(pool_min, pool_max).
        rbind (cfg_amqp_url l getenv) (\<lambda>amqp.
        rbind (cfg_connstr l getenv) (\<lambda>host.
          Inr \<lparr>amqp_connection = amqp, postgres_host = host,
            postgres_username = the (cfg_get_secret l getenv ''POSTGRES_USERNAME''),
            postgres_password = the (cfg_get_secret l getenv ''POSTGRES_PASSWORD''),
            postgres_database = the (getenv ''POSTGRES_DATABASE''),
            postgres_pool_min_size = pool_min, postgres_pool_max_size = pool_max, health_port = port\<rparr>)))))"

section \<open>Decimal round trip\<close>

lemma digit_value_char: "n < 10 \<Longrightarrow> digit_value (char_of (48 + n)) = Some n"
  by (simp add: digit_value_def Let_def of_char_of)

text \<open>A digit differs from every character outside the code points 48 to 57.\<close>

lemma digit_neq:
  assumes "d < 10" and "(of_char x :: nat) < 48"
    shows "char_of (48 + d :: nat) \<noteq> x"
proof
  assume "char_of (48 + d) = x"
  then have "of_char (char_of (48 + d) :: char) = (of_char x :: nat)" by simp
  with assms show False by (simp add: of_char_of)
qed

lemma digit_not_underscore:
  assumes "d < 10"
  shows "char_of (48 + d :: nat) \<noteq> CHR ''_''"
proof
  assume "char_of (48 + d) = CHR ''_''"
  then have "of_char (char_of (48 + d) :: char) = (of_char (CHR ''_'') :: nat)" by simp
  with assms show False by (simp add: of_char_of)
qed

lemma parse_digit [simp]:
  assumes n: "n < 10"
  shows "parse_digits 10 acc b (char_of (48 + n) # cs) = parse_digits 10 (acc * 10 + n) True cs"
  unfolding parse_digits.simps digit_value_char [OF n]
  using digit_not_underscore [OF n] by (simp only: if_False option.case n if_True)

lemma parse_show_nat:
  "parse_digits 10 acc b (show_nat n @ cs) = parse_digits 10 (acc * 10 ^ length (show_nat n) + n) True cs"
proof (induction n arbitrary: cs rule: show_nat.induct)
  case (1 n)
  show ?case
  proof (cases "n < 10")
    case True
    then show ?thesis by (simp add: show_nat.simps [of n] del: parse_digits.simps)
  next
    case False
    then have "show_nat n = show_nat (n div 10) @ [char_of (48 + n mod 10)]" by (simp add: show_nat.simps [of n])
    with 1 False show ?thesis by (simp add: algebra_simps del: parse_digits.simps)
  qed
qed

lemma show_nat_digits: "c \<in> set (show_nat n) \<Longrightarrow> \<exists>d < (10 :: nat). c = char_of (48 + d)"
proof (induction n rule: show_nat.induct)
  case (1 n)
  show ?case
  proof (cases "n < 10")
    case True
    with 1 have "c = char_of (48 + n)" by (simp add: show_nat.simps [of n])
    with True show ?thesis by blast
  next
    case False
    with 1(2) have "c \<in> set (show_nat (n div 10)) \<or> c = char_of (48 + n mod 10)"
      by (auto simp: show_nat.simps [of n])
    moreover have "n mod 10 < 10" by simp
    ultimately show ?thesis using 1(1) False by blast
  qed
qed

lemma digit_plain:
  assumes "d < 10"
  shows "\<not> is_space (char_of (48 + d :: nat))" "char_of (48 + d :: nat) \<noteq> CHR ''-''" "char_of (48 + d :: nat) \<noteq> CHR ''+''"
proof -
  have "of_char (char_of (48 + d) :: char) = (48 + d :: nat)" using assms by (simp add: of_char_of)
  then show "\<not> is_space (char_of (48 + d :: nat))" using assms by (simp add: is_space_def Let_def)
qed (rule digit_neq [OF assms]; simp)+

text \<open>Blanks around digits are stripped, and stripping digits alone does nothing.\<close>

lemma strip_padded:
  assumes "\<forall>c \<in> set pre. is_space c" and "\<forall>c \<in> set post. is_space c" and "s \<noteq> []" and "\<forall>c \<in> set s. \<not> is_space c"
  shows "strip (pre @ s @ post) = s"
proof -
  have front: "dropWhile is_space (xs @ ys) = ys" if "\<forall>c \<in> set xs. is_space c" "ys \<noteq> []" "\<not> is_space (hd ys)" for xs ys
    using that by (cases ys) (auto simp: dropWhile_append2)
  have "\<not> is_space (hd (s @ post))" "\<not> is_space (hd (rev s))" using assms(3,4) by (auto simp: hd_rev)
  then show ?thesis
    using assms front [of pre "s @ post"] front [of "rev post" "rev s"] by (simp add: strip_def strip_by_def)
qed

lemma strip_show_nat: "\<forall>c \<in> set pre. is_space c \<Longrightarrow> \<forall>c \<in> set post. is_space c \<Longrightarrow> strip (pre @ show_nat n @ post) = show_nat n"
  by (rule strip_padded) (auto simp: show_nat_nonempty dest!: show_nat_digits digit_plain(1))

lemma py_int_show_nat: "py_int 10 (show_nat n) = Some (int n)"
proof -
  have "strip (show_nat n) = show_nat n" using strip_show_nat [of "[]" "[]" n] by simp
  moreover obtain c cs where s: "show_nat n = c # cs" using show_nat_nonempty by (cases "show_nat n") auto
  moreover from s have "c \<in> set (show_nat n)" by simp
  from show_nat_digits [OF this] obtain d :: nat where d: "d < 10" and c: "c = char_of (48 + d)" by (elim exE conjE)
  have "c \<noteq> CHR ''-''" "c \<noteq> CHR ''+''" unfolding c by (rule digit_plain [OF d])+
  moreover have "parse_unsigned 10 (show_nat n) = Some n"
    using parse_show_nat [of 0 False n "[]"] by (simp add: parse_unsigned_def)
  ultimately show ?thesis by (simp add: py_int_def)
qed

section \<open>Properties\<close>

text \<open>
  The health port: what the loader accepts is a port between 1 and 65535, every such port written
  in decimal is read back, blanks around it or not, and a variable that is not set means 8002.
\<close>

theorem health_port_round_trip:
  "(\<forall>port. resolve_health_port getenv = Inr port \<longrightarrow> 1 \<le> port \<and> port \<le> 65535)
   \<and> (\<forall>n pre post. 1 \<le> n \<and> n \<le> 65535 \<and> (\<forall>c \<in> set (pre @ post). is_space c) \<and> getenv ''HEALTH_PORT'' = Some (pre @ show_nat n @ post)
        \<longrightarrow> resolve_health_port getenv = Inr (int n))
   \<and> (getenv ''HEALTH_PORT'' = None \<longrightarrow> resolve_health_port getenv = Inr 8002)"
proof (intro conjI allI impI)
  fix port
  assume "resolve_health_port getenv = Inr port"
  then show "1 \<le> port" "port \<le> 65535"
    by (auto simp: resolve_health_port_def DEFAULT_HEALTH_PORT_def split: option.splits if_splits)
next
  fix n pre post
  assume "1 \<le> n \<and> n \<le> 65535 \<and> (\<forall>c \<in> set (pre @ post). is_space c) \<and> getenv ''HEALTH_PORT'' = Some (pre @ show_nat n @ post)"
  then show "resolve_health_port getenv = Inr (int n)"
    using strip_show_nat [of pre post n] by (simp add: resolve_health_port_def py_int_show_nat)
next
  assume "getenv ''HEALTH_PORT'' = None"
  then show "resolve_health_port getenv = Inr 8002" by (simp add: resolve_health_port_def DEFAULT_HEALTH_PORT_def)
qed

theorem health_port_round_trip_witness:
  "resolve_health_port (\<lambda>_. Some ('' '' @ show_nat 8080 @ [])) = Inr 8080"
  by (rule HOL.trans [OF health_port_round_trip [THEN conjunct2, THEN conjunct1, THEN spec [of _ 8080], THEN spec [of _ "'' ''"],
      THEN spec [of _ "[]"], THEN mp]]) (simp_all add: is_space_def)


definition demo_config_lib :: config_lib where
  "demo_config_lib = \<lparr>cfg_get_secret = (\<lambda>getenv name. getenv name), cfg_amqp_url = (\<lambda>_. Inr ''amqp''),
     cfg_connstr = (\<lambda>_. Inr ''host''), cfg_pool_sizes = (\<lambda>_ lo hi. Inr (lo, hi))\<rparr>"

definition demo_environ :: environ where
  "demo_environ name = (if name = ''HEALTH_PORT'' then Some ''80'' else Some ''x'')"


end
