(* ===== verification/Lifecycle.thy ===== *)
theory Lifecycle
  imports Consumers Loader_Config
begin

text \<open>
  The life of the process: \<open>main\<close>, the disposal of a retained delivery lifecycle and \<open>cli\<close>
  (\<open>brainztableinator.py\<close>).

  The state is that of the service with what only \<open>main\<close> touches: the uncertainty flag, the persistence
  writer whose refresh the startup probe turns on, the configuration and the port of the running health
  server.  What the outside answers during one start is the record \<open>startup\<close>: the environment, the
  construction and the initialisation of the pool, the connection attempts by number, whether a shutdown
  was requested before each, and how a disposal ends.
\<close>

section \<open>State and answers\<close>

record life = svc +
  l_cleanup_uncertain :: bool
  l_writer :: writer
  l_config :: "loader_config option"
  l_health :: "int option"

record startup =
  su_config_lib :: config_lib
  su_environ :: environ
  su_host_port :: "exn option"
  su_pool_new :: "exn option"
  su_pool_init :: "exn option"
  su_connects :: "nat \<Rightarrow> bool"
  su_stop :: "nat \<Rightarrow> bool"
  su_channel :: "exn option"
  su_broker :: broker
  su_close :: closing
  su_drains :: bool
  su_pool_closes :: bool

definition startup_error :: exn where
  "startup_error = py_error ''StartupError''"

definition CONSUMER_CANCEL_DELAY :: "environ \<Rightarrow> exn + int" where
  "CONSUMER_CANCEL_DELAY = env_int ''CONSUMER_CANCEL_DELAY'' 300"

definition QUEUE_CHECK_INTERVAL :: "environ \<Rightarrow> exn + int" where
  "QUEUE_CHECK_INTERVAL = env_int ''QUEUE_CHECK_INTERVAL'' 3600"

definition STUCK_CHECK_INTERVAL :: "environ \<Rightarrow> exn + int" where
  "STUCK_CHECK_INTERVAL = env_int ''STUCK_CHECK_INTERVAL'' 30"

definition STARTUP_IDLE_TIMEOUT :: "environ \<Rightarrow> exn + int" where
  "STARTUP_IDLE_TIMEOUT = env_int ''STARTUP_IDLE_TIMEOUT'' 30"

definition IDLE_LOG_INTERVAL :: "environ \<Rightarrow> exn + int" where
  "IDLE_LOG_INTERVAL = env_int ''IDLE_LOG_INTERVAL'' 300"

definition startup_delay :: "environ \<Rightarrow> exn + int" where
  "startup_delay = env_int ''STARTUP_DELAY'' 5"

section \<open>Disposal\<close>

definition dispose_retained_delivery_lifecycle :: "closing \<Rightarrow> bool \<Rightarrow> bool \<Rightarrow> ('z life_scheme, bool) eff" where
  "dispose_retained_delivery_lifecycle cl drains pool_closes v =
     (let (r, v1) = close_rabbitmq_connection cl v;
          broker_closed = (r = Inr True);
          drained = (if broker_closed \<and> v_admission v1 then drains else \<not> v_admission v1)
      in if \<not> broker_closed \<or> \<not> drained then (Inr False, v1\<lparr>l_cleanup_uncertain := True\<rparr>)
         else if v_pool v1 \<and> \<not> pool_closes then (Inr False, v1\<lparr>l_cleanup_uncertain := True\<rparr>)
         else (Inr True, v1\<lparr>v_pool := False, v_admission := False, v_purge := None, l_cleanup_uncertain := False\<rparr>))"

definition close_pool_and_health :: "startup \<Rightarrow> ('z life_scheme, unit) eff" where
  "close_pool_and_health su =
     andthen (modify (\<lambda>v. v\<lparr>l_health := None\<rparr>))
     (bnd (dispose_retained_delivery_lifecycle (su_close su) (su_drains su) (su_pool_closes su)) (\<lambda>_. ret ()))"

section \<open>Startup\<close>

definition startup_blocked :: "'z life_scheme \<Rightarrow> bool" where
  "startup_blocked v \<longleftrightarrow> l_cleanup_uncertain v \<or> v_pool v \<or> v_connection v \<or> v_channel v
     \<or> v_consumer_tags v \<noteq> [] \<or> v_connection_tags v \<noteq> [] \<or> v_cancellation_failed v"

definition open_pool :: "startup \<Rightarrow> ('z life_scheme, unit) eff" where
  "open_pool su = try_catch
     (case su_pool_new su of
        Some x \<Rightarrow> raise x
      | None \<Rightarrow> andthen (modify (\<lambda>v. v\<lparr>v_pool := True\<rparr>))
          (case su_pool_init su of
             Some x \<Rightarrow> raise x
           | None \<Rightarrow> modify (\<lambda>v. v\<lparr>v_admission := True\<rparr>)))
     (\<lambda>_. andthen (close_pool_and_health su) (raise startup_error))"

definition enable_reconciliation :: "senv \<Rightarrow> ('z life_scheme, unit) eff" where
  "enable_reconciliation e =
     andthen (modify (\<lambda>v. v\<lparr>v_purge := None\<rparr>))
     (try_catch
       (bnd (reconciliation_columns_present (e_pg (se_env e)) RECONCILED_TABLES) (\<lambda>columns.
          if \<not> columns then ret ()
          else bnd (purge_veto_column_present (e_pg (se_env e))) (\<lambda>veto_column.
            if veto_column
            then andthen (modify (\<lambda>v. v\<lparr>l_writer := set_refresh_updated_at True (l_writer v),
                    v_purge := Some (new_purge (v_admission v))\<rparr>))
                 (report_purge_vetoes e)
            else ret ())))
       (\<lambda>_. ret ()))"

text \<open>
  The connection loop: at most five attempts, with the waits between them, until one succeeds or a
  shutdown was requested.
\<close>

datatype connect_outcome = Connected | Stopped | Unreachable

definition MAX_STARTUP_RETRIES :: nat where
  "MAX_STARTUP_RETRIES = 5"

function connect_loop :: "(nat \<Rightarrow> bool) \<Rightarrow> (nat \<Rightarrow> bool) \<Rightarrow> nat \<Rightarrow> connect_outcome \<times> nat list" where
  "connect_loop connects stop retry =
     (if \<not> (retry < MAX_STARTUP_RETRIES) then (Unreachable, [])
      else if stop retry then (Stopped, [])
      else if connects retry then (Connected, [])
      else if Suc retry < MAX_STARTUP_RETRIES
        then (let (r, waits) = connect_loop connects stop (Suc retry) in (r, min 30 (5 * Suc retry) # waits))
        else (Unreachable, []))"
  by pat_completeness auto
termination by (relation "measure (\<lambda>(_, _, retry). MAX_STARTUP_RETRIES - retry)") auto

declare connect_loop.simps [simp del]

definition subscribe_all :: "senv \<Rightarrow> startup \<Rightarrow> int option \<Rightarrow> ('z life_scheme, unit) eff" where
  "subscribe_all e su pool_max = (case su_channel su of
     Some x \<Rightarrow> raise x
   | None \<Rightarrow>
      andthen (modify (\<lambda>v. v\<lparr>v_channel := True\<rparr>))
      (andthen (call_broker (su_broker su) (SetQos (consumer_prefetch pool_max)))
      (andthen (declare_all e (su_broker su))
      (andthen (modify (\<lambda>v. v\<lparr>v_connection_tags := [], v_watch_started_at := se_now e\<rparr>))
        (for_each (consume (su_broker su)) MUSICBRAINZ_DATA_TYPES)))))"

text \<open>
  \<open>main\<close> up to the point where it waits for a shutdown: \<open>True\<close> when the service runs, \<open>False\<close> when a
  shutdown came while it was connecting.
\<close>

definition connect_and_subscribe :: "senv \<Rightarrow> startup \<Rightarrow> int option \<Rightarrow> ('z life_scheme, bool) eff" where
  "connect_and_subscribe e su pool_max = (case fst (connect_loop (su_connects su) (su_stop su) 0) of
     Unreachable \<Rightarrow> andthen (close_pool_and_health su) (raise startup_error)
   | Stopped \<Rightarrow> andthen (close_pool_and_health su) (ret False)
   | Connected \<Rightarrow> andthen (modify (\<lambda>v. v\<lparr>v_connection := True\<rparr>))
       (andthen (subscribe_all e su pool_max) (ret True)))"

definition main_startup :: "senv \<Rightarrow> startup \<Rightarrow> ('z life_scheme, bool) eff" where
  "main_startup e su = bnd get_state (\<lambda>v.
     if startup_blocked v then raise startup_error
     else andthen (modify (\<lambda>v. v\<lparr>v_admission := False, v_purge := None\<rparr>))
       (bnd (of_result (startup_delay (su_environ su))) (\<lambda>_.
        case from_env (su_config_lib su) (su_environ su) of
          Inl x \<Rightarrow> if exn_name x = ''ValueError'' then raise startup_error else raise x
        | Inr cfg \<Rightarrow>
            andthen (modify (\<lambda>v. v\<lparr>l_config := Some cfg, l_health := Some (health_port cfg)\<rparr>))
            (case su_host_port su of
               Some x \<Rightarrow> raise x
             | None \<Rightarrow> andthen (open_pool su) (andthen (enable_reconciliation e)
                 (connect_and_subscribe e su (Some (postgres_pool_max_size cfg))))))))"

section \<open>Shutdown and exit\<close>

text \<open>
  The \<open>finally\<close> block of \<open>main\<close>.  \<open>in_flight\<close> and \<open>late\<close> tell which timers had sent their cancel call when
  \<open>cancel_all_consumers\<close>, and then \<open>main\<close> itself, interrupted them.
\<close>

definition main_shutdown ::
  "startup \<Rightarrow> (string \<Rightarrow> bool) \<Rightarrow> (string \<Rightarrow> string \<Rightarrow> bool) \<Rightarrow> (string \<Rightarrow> bool) \<Rightarrow> 'z life_scheme \<Rightarrow> 'z life_scheme" where
  "main_shutdown su in_flight confirms late v =
     (let v1 = cancel_all_consumers in_flight confirms v;
          v2 = (interrupt_timers late v1)\<lparr>v_cancel_tasks := []\<rparr>;
          v3 = snd (dispose_retained_delivery_lifecycle (su_close su) (su_drains su) (su_pool_closes su) v2)
      in v3\<lparr>l_health := None\<rparr>)"

text \<open>
  One run of \<open>main\<close>: a start that raises or is stopped while connecting, or one that serves.  The wait loop
  looks at the shutdown flag once a second and ends when it is set, or when an interrupt arrives; the
  service does what it does meanwhile, and the \<open>finally\<close> block ends both.
\<close>

inductive main_run :: "senv \<Rightarrow> startup \<Rightarrow> 'z life_scheme \<Rightarrow> exn + bool \<Rightarrow> 'z life_scheme \<Rightarrow> bool" for e su v where
  raised: "main_startup e su v = (Inl x, v') \<Longrightarrow> main_run e su v (Inl x) v'"
| stopped: "main_startup e su v = (Inr False, v') \<Longrightarrow> main_run e su v (Inr False) v'"
| served: "main_startup e su v = (Inr True, v1) \<Longrightarrow> service_run v1 v2 \<Longrightarrow> v_shutdown v2 \<or> interrupted
    \<Longrightarrow> main_run e su v (Inr True) (main_shutdown su in_flight confirms late v2)"

datatype exit = ExitStatus nat | Propagated exn

definition cli :: "exn + bool \<Rightarrow> exit" where
  "cli outcome = (case outcome of
     Inl x \<Rightarrow> if x = startup_error then ExitStatus 1 else Propagated x
   | Inr _ \<Rightarrow> ExitStatus 0)"

section \<open>Lemmas\<close>

lemma gauge_life [simp]:
  "gauge (v\<lparr>l_config := c\<rparr>) = gauge v" "gauge (v\<lparr>l_health := h\<rparr>) = gauge v" "gauge (v\<lparr>l_writer := w\<rparr>) = gauge v"
  "gauge (v\<lparr>l_cleanup_uncertain := b\<rparr>) = gauge v"
  by (simp_all add: gauge_def)

text \<open>Operations of the service leave what is \<open>main\<close>'s alone.\<close>

definition same_life :: "'z life_scheme \<Rightarrow> 'z life_scheme \<Rightarrow> bool" where
  "same_life v v' \<longleftrightarrow> svc.more v' = svc.more v"

lemma same_life_orders [intro, simp]: "reflp same_life" "transp same_life"
  by (auto simp: reflp_def transp_def same_life_def)

lemma same_lifeD:
  assumes "same_life v v'"
  shows "l_cleanup_uncertain v' = l_cleanup_uncertain v" "l_writer v' = l_writer v" "l_health v' = l_health v"
    "l_config v' = l_config v"
  using assms by (cases v; cases v'; simp add: same_life_def)+

lemma close_more:
  assumes "close_rabbitmq_connection cl v = (r, v')"
  shows "svc.more v' = svc.more v" "v_pool v' = v_pool v" "v_admission v' = v_admission v" "v_purge v' = v_purge v"
  using assms
  by (auto simp: close_rabbitmq_connection_def close_channel_def close_connection_def logged_def Let_def split: if_splits prod.splits)

lemma dispose_cases:
  assumes run: "dispose_retained_delivery_lifecycle cl drains pool_closes v = (r, v')"
  obtains (released) "r = Inr True" "v_admission v \<longrightarrow> drains" "v_pool v \<longrightarrow> pool_closes"
      "\<not> v_pool v'" "\<not> v_admission v'" "v_purge v' = None" "\<not> l_cleanup_uncertain v'" "v_consumer_tags v' = []"
      "v_connection_tags v' = []" "\<not> v_connection v'" "\<not> v_channel v'" "\<not> v_cancellation_failed v'"
      "l_health v' = l_health v" "gauge v' = gauge v - int (length (v_consumer_tags v))"
    | (kept) "r = Inr False" "l_cleanup_uncertain v'" "v_pool v' = v_pool v" "v_admission v' = v_admission v"
      "v_purge v' = v_purge v" "l_health v' = l_health v"
proof -
  obtain c v1 where close: "close_rabbitmq_connection cl v = (c, v1)" by fastforce
  have life: "l_health v1 = l_health v" using same_lifeD(3) [of v v1] close_more(1) [OF close] by (simp add: same_life_def)
  note more = close_more(2-) [OF close]
  let ?drained = "if c = Inr True \<and> v_admission v1 then drains else \<not> v_admission v1"
  show thesis
  proof (cases "c = Inr True \<and> ?drained \<and> (v_pool v1 \<longrightarrow> pool_closes)")
    case True
    from close_fields [OF close] True have v1: "v_consumer_tags v1 = []" "v_connection_tags v1 = []" "\<not> v_connection v1"
        "\<not> v_channel v1" "\<not> v_cancellation_failed v1" "gauge v1 = gauge v - int (length (v_consumer_tags v))"
      by auto
    have "r = Inr True" "v' = v1\<lparr>v_pool := False, v_admission := False, v_purge := None, l_cleanup_uncertain := False\<rparr>"
      using run close True by (auto simp: dispose_retained_delivery_lifecycle_def Let_def split: if_splits)
    moreover have "v_admission v \<longrightarrow> drains" "v_pool v \<longrightarrow> pool_closes" using True more by (auto split: if_splits)
    ultimately show ?thesis using v1 life by (intro released) (simp_all add: gauge_def)
  next
    case False
    then have "r = Inr False" "v' = v1\<lparr>l_cleanup_uncertain := True\<rparr>"
      using run close by (auto simp: dispose_retained_delivery_lifecycle_def Let_def split: if_splits)
    then show ?thesis using more life by (intro kept) simp_all
  qed
qed

lemma connect_loop_bounds:
  "retry \<le> MAX_STARTUP_RETRIES \<Longrightarrow> connect_loop connects stop retry = (r, waits) \<Longrightarrow>
     length waits + retry \<le> MAX_STARTUP_RETRIES
     \<and> (\<forall>i < length waits. waits ! i = min 30 (5 * Suc (retry + i)))
     \<and> (r = Connected \<longrightarrow> (\<exists>i. retry \<le> i \<and> i < MAX_STARTUP_RETRIES \<and> connects i))
     \<and> (r = Unreachable \<longrightarrow> (\<forall>i. retry \<le> i \<and> i < MAX_STARTUP_RETRIES \<longrightarrow> \<not> connects i \<and> \<not> stop i))
     \<and> (r = Stopped \<longrightarrow> (\<exists>i. retry \<le> i \<and> i < MAX_STARTUP_RETRIES \<and> stop i))"
proof (induction connects stop retry arbitrary: r waits rule: connect_loop.induct)
  case (1 connects stop retry)
  show ?case
  proof (cases "retry < MAX_STARTUP_RETRIES \<and> \<not> stop retry \<and> \<not> connects retry \<and> Suc retry < MAX_STARTUP_RETRIES")
    case False
    then show ?thesis
      using 1(2,3) by (auto simp: connect_loop.simps [of connects stop retry] le_less_Suc_eq less_Suc_eq not_less split: if_splits
          dest!: le_antisym)
  next
    case True
    obtain r' ws where rec: "connect_loop connects stop (Suc retry) = (r', ws)" by fastforce
    with True 1(3) have r: "r = r'" and ws: "waits = min 30 (5 * Suc retry) # ws"
      by (auto simp: connect_loop.simps [of connects stop retry])
    from 1(1) [OF _ _ _ _ _ rec] True have ih: "length ws + Suc retry \<le> MAX_STARTUP_RETRIES"
      "\<forall>i < length ws. ws ! i = min 30 (5 * Suc (Suc retry + i))"
      "r' = Connected \<longrightarrow> (\<exists>i. Suc retry \<le> i \<and> i < MAX_STARTUP_RETRIES \<and> connects i)"
      "r' = Unreachable \<longrightarrow> (\<forall>i. Suc retry \<le> i \<and> i < MAX_STARTUP_RETRIES \<longrightarrow> \<not> connects i \<and> \<not> stop i)"
      "r' = Stopped \<longrightarrow> (\<exists>i. Suc retry \<le> i \<and> i < MAX_STARTUP_RETRIES \<and> stop i)" by auto
    have "\<forall>i < length waits. waits ! i = min 30 (5 * Suc (retry + i))"
      using ih(2) by (auto simp: ws nth_Cons split: nat.split)
    moreover have "\<not> connects i \<and> \<not> stop i" if "r' = Unreachable" "retry \<le> i" "i < MAX_STARTUP_RETRIES" for i
      using that ih(4) True by (cases "i = retry") auto
    ultimately show ?thesis using ih(1,3,5) r ws by (auto dest: Suc_leD)
  qed
qed

text \<open>What the effects of a start leave alone.\<close>

definition same_running :: "'z life_scheme \<Rightarrow> 'z life_scheme \<Rightarrow> bool" where
  "same_running v v' \<longleftrightarrow> v_pool v' = v_pool v \<and> v_admission v' = v_admission v \<and> l_health v' = l_health v
     \<and> l_config v' = l_config v \<and> l_cleanup_uncertain v' = l_cleanup_uncertain v"

lemma same_running_orders [intro, simp]: "reflp same_running" "transp same_running"
  by (auto simp: reflp_def transp_def same_running_def)

lemma more_running: "keeps same_more m \<Longrightarrow> keeps same_running m"
proof (erule keeps_mono)
  fix v v' :: "'a life_scheme"
  assume "same_more v v'"
  then show "same_running v v'" by (cases v; cases v') (simp add: same_more_def same_running_def)
qed

lemma log_running [intro, simp]: "keeps same_running (log_event ev)"
  by (simp add: keeps_def same_running_def log_event_def logged_def)

lemma call_broker_running: "keeps same_running (call_broker b c)"
  unfolding call_broker_def by (auto intro!: keeps_flow split: option.splits)

lemma declare_all_running: "keeps same_running (declare_all e b)"
proof -
  have "keeps same_running (declare_type e b t)" for t
    unfolding declare_type_def
    by (auto intro!: keeps_flow keeps_for_each call_broker_running keeps_modify simp: same_running_def)
  then show ?thesis
    unfolding declare_all_def by (auto intro!: keeps_flow keeps_for_each keeps_modify simp: same_running_def)
qed

lemma consume_running: "keeps same_running (consume b t)"
  unfolding consume_def
  by (auto intro!: keeps_flow keeps_modify simp: same_running_def register_consumer_def logged_def)

lemma report_running: "keeps same_running (report_purge_vetoes e)"
  unfolding report_purge_vetoes_def
  by (auto intro!: keeps_flow more_running [OF veto_calls_more(3)] split: option.splits)

lemma columns_more: "keeps same_more (column_states p ts)"
proof (induction ts)
  case Nil
  show ?case by (simp add: keeps_def same_more_def)
next
  case (Cons t ts)
  then show ?case by (auto simp: column_type_def intro!: keeps_flow)
qed

lemma probes_more: "keeps same_more (reconciliation_columns_present p ts)" "keeps same_more (purge_veto_column_present p)"
  unfolding reconciliation_columns_present_def purge_veto_column_present_def
  by (auto intro!: keeps_flow columns_more)

lemma switch_frames:
  "keeps same_running (modify (\<lambda>v. v\<lparr>l_writer := f v, v_purge := pu v\<rparr>))"
  "keeps same_running (modify (\<lambda>v. v\<lparr>v_purge := pu v\<rparr>))"
  "keeps same_consumers (modify (\<lambda>v. (v :: 'z life_scheme)\<lparr>l_writer := f' v, v_purge := pu' v\<rparr>))"
  "keeps same_consumers (modify (\<lambda>v. (v :: 'y svc_scheme)\<lparr>v_purge := pu'' v\<rparr>))"
  by (simp_all add: keeps_def same_running_def same_consumers_def gauge_def)

lemma enable_frames:
  "keeps same_running (enable_reconciliation e)" "keeps same_consumers (enable_reconciliation e)"
  unfolding enable_reconciliation_def
  by (auto intro!: keeps_flow more_running [OF probes_more(1)] more_running [OF probes_more(2)] report_running
      consumers.session_kept [OF probes_more(1)] consumers.session_kept [OF probes_more(2)] consumers.report_kept switch_frames)

lemma report_life: "keeps (\<lambda>v v'. l_writer v' = l_writer v) (report_purge_vetoes e)"
proof -
  have o: "reflp (\<lambda>v v' :: 'a life_scheme. l_writer v' = l_writer v)" "transp (\<lambda>v v' :: 'a life_scheme. l_writer v' = l_writer v)"
    by (auto simp: reflp_def transp_def)
  have l: "keeps (\<lambda>v v' :: 'a life_scheme. l_writer v' = l_writer v) (log_event ev)" for ev
    by (simp add: keeps_def log_event_def logged_def)
  have d: "keeps (\<lambda>v v' :: 'a life_scheme. l_writer v' = l_writer v) (consecutive_vetoes p)" for p
  proof (rule keeps_mono [OF veto_calls_more(3)])
    fix v v' :: "'a life_scheme"
    assume "same_more v v'"
    then show "l_writer v' = l_writer v" by (cases v; cases v') (simp add: same_more_def)
  qed
  show ?thesis unfolding report_purge_vetoes_def using o by (auto intro!: keeps_flow l d split: option.splits)
qed

text \<open>Subscribing to streams that have no consumer yet, with the session held.\<close>

lemma consume_all_Inr:
  assumes "for_each (consume b) ts v = (Inr (), v')" and "distinct ts"
    and "set ts \<inter> fst ` set (v_consumer_tags v) = {}" and "session_ok v"
  shows "session_ok v' \<and> v_consumer_tags v' = v_consumer_tags v @ map (\<lambda>t. (t, tag_for b t)) ts"
  using assms
proof (induction ts arbitrary: v)
  case Nil
  then show ?case by simp
next
  case (Cons t ts)
  from Cons.prems(1) obtain v1 where 1: "consume b t v = (Inr (), v1)" and 2: "for_each (consume b) ts v1 = (Inr (), v')"
    by (auto elim: andthen_InrE)
  from 1 obtain tag where tag: "br_consume b t = Inr tag"
    and v1: "v1 = register_consumer t tag (logged (BrokerCall (Consume t)) v)"
    by (cases "br_consume b t") (auto simp: consume_def log_event_def)
  let ?v = "logged (BrokerCall (Consume t)) v"
  have "registered_ok ?v" using Cons.prems(4) by (simp add: session_ok_def registered_ok_def)
  then have "registered_ok v1"
    unfolding v1 using Cons.prems(3,4) by (intro register_ok) (simp_all add: session_ok_def)
  then have ok1: "session_ok v1" using Cons.prems(4) by (simp add: session_ok_def v1 register_consumer_def)
  have "v_consumer_tags v1 = v_consumer_tags v @ [(t, tag)]"
    using Cons.prems(3) by (simp add: v1 register_consumer_def update_fresh)
  moreover from tag have "tag_for b t = tag" by (simp add: tag_for_def)
  ultimately show ?case using Cons.IH [OF 2 _ _ ok1] Cons.prems(2,3) by auto
qed

lemma subscribe_all_Inr:
  assumes "subscribe_all e su pool_max v = (Inr (), v')" and "session_ok v" and "v_consumer_tags v = []"
  shows "session_ok v' \<and> same_running v v'
    \<and> v_consumer_tags v' = map (\<lambda>t. (t, tag_for (su_broker su) t)) MUSICBRAINZ_DATA_TYPES"
proof -
  let ?b = "su_broker su"
  let ?decl = "andthen (call_broker ?b (SetQos (consumer_prefetch pool_max))) (declare_all e ?b)"
  let ?v0 = "v\<lparr>v_channel := True\<rparr>"
  from assms(1) obtain v1 v2 where 1: "?decl ?v0 = (Inr (), v2)"
    and 2: "for_each (consume ?b) MUSICBRAINZ_DATA_TYPES (v2\<lparr>v_connection_tags := [], v_watch_started_at := se_now e\<rparr>) = (Inr (), v')"
    by (fastforce simp: subscribe_all_def split: option.splits elim!: andthen_InrE)
  have "keeps same_consumers ?decl" "keeps same_running ?decl"
    by (intro keeps_andthen call_broker_same declare_all_same call_broker_running declare_all_running; simp)+
  with 1 have c: "same_consumers ?v0 v2" "same_running ?v0 v2" by (auto dest: keepsD)
  let ?v2 = "v2\<lparr>v_connection_tags := [], v_watch_started_at := se_now e\<rparr>"
  have ok2: "session_ok ?v2" and none: "v_consumer_tags ?v2 = []"
    using assms(2,3) c(1) by (simp_all add: session_ok_def registered_ok_def same_consumers_def)
  have "keeps same_running (for_each (consume ?b) MUSICBRAINZ_DATA_TYPES :: ('a life_scheme, unit) eff)"
    by (intro keeps_for_each consume_running) simp_all
  from keepsD [OF this 2] c(2) have "same_running v v'" by (simp add: same_running_def)
  moreover from consume_all_Inr [OF 2 distinct_data_types _ ok2] none
  have "session_ok v' \<and> v_consumer_tags v' = map (\<lambda>t. (t, tag_for ?b t)) MUSICBRAINZ_DATA_TYPES" by simp
  ultimately show ?thesis by simp
qed

lemma enable_total: "\<exists>v'. enable_reconciliation e v = (Inr (), v')"
  by (auto simp: enable_reconciliation_def try_catch_def split: prod.splits sum.splits)

text \<open>A disposal whose every step is confirmed releases everything.\<close>

definition all_confirm :: "startup \<Rightarrow> bool" where
  "all_confirm su \<longleftrightarrow> cl_channel (su_close su) \<and> cl_connection (su_close su) \<and> su_drains su \<and> su_pool_closes su"

lemma dispose_confirmed:
  assumes "all_confirm su" and "registered_ok v"
  shows "\<exists>v'. dispose_retained_delivery_lifecycle (su_close su) (su_drains su) (su_pool_closes su) v = (Inr True, v')"
proof -
  from assms close_up [of "su_close su" v] obtain v1 where "close_rabbitmq_connection (su_close su) v = (Inr True, v1)"
    by (auto simp: all_confirm_def)
  with assms(1) show ?thesis by (simp add: dispose_retained_delivery_lifecycle_def all_confirm_def)
qed

lemma released_not_blocked:
  assumes "dispose_retained_delivery_lifecycle cl drains pool_closes v = (Inr True, v')"
  shows "\<not> startup_blocked v'"
  using assms by (cases rule: dispose_cases) (simp_all add: startup_blocked_def)

lemma close_pool_and_health_releases:
  assumes "all_confirm su" and "registered_ok v" and "close_pool_and_health su v = (r, v')"
  shows "\<not> startup_blocked v' \<and> l_health v' = None \<and> r = Inr ()"
proof -
  let ?v = "v\<lparr>l_health := None\<rparr>"
  have "registered_ok ?v" using assms(2) by (simp add: registered_ok_def gauge_def)
  from dispose_confirmed [OF assms(1) this] obtain w where
    d: "dispose_retained_delivery_lifecycle (su_close su) (su_drains su) (su_pool_closes su) ?v = (Inr True, w)" by blast
  from d assms(3) have "v' = w" "r = Inr ()" by (auto simp: close_pool_and_health_def bnd_def)
  moreover from d have "l_health w = None" by (cases rule: dispose_cases) simp_all
  ultimately show ?thesis using released_not_blocked [OF d] by simp
qed

lemma open_pool_fails:
  assumes "\<not> (su_pool_new su = None \<and> su_pool_init su = None)"
  shows "\<exists>w. (w = v \<or> w = v\<lparr>v_pool := True\<rparr>)
    \<and> open_pool su v = andthen (close_pool_and_health su) (raise startup_error) w"
proof (cases "su_pool_new su")
  case None
  with assms obtain x where "su_pool_init su = Some x" by auto
  with None show ?thesis by (intro exI [of _ "v\<lparr>v_pool := True\<rparr>"]) (simp add: open_pool_def try_catch_def)
next
  case (Some x)
  then show ?thesis by (intro exI [of _ v]) (simp add: open_pool_def try_catch_def)
qed

text \<open>What a start raises.\<close>

definition never_raises :: "exn \<Rightarrow> ('s, 'a) eff \<Rightarrow> bool" where
  "never_raises x m \<longleftrightarrow> (\<forall>s s'. m s \<noteq> (Inl x, s'))"

lemma never_raises_flow [intro]:
  "never_raises x (ret u)" "never_raises x (modify f)" "never_raises x get_state" "y \<noteq> x \<Longrightarrow> never_raises x (raise y)"
  "r \<noteq> Inl x \<Longrightarrow> never_raises x (of_result r)"
  by (auto simp: never_raises_def)

lemma never_raises_bnd [intro]: "never_raises x m \<Longrightarrow> (\<And>y. never_raises x (f y)) \<Longrightarrow> never_raises x (bnd m f)"
  by (auto simp: never_raises_def bnd_def split: prod.splits sum.splits)

lemma never_raises_andthen [intro]: "never_raises x m \<Longrightarrow> never_raises x k \<Longrightarrow> never_raises x (andthen m k)"
  by (auto simp: andthen_def)

lemma never_raises_for_each [intro]: "(\<And>y. y \<in> set ys \<Longrightarrow> never_raises x (f y)) \<Longrightarrow> never_raises x (for_each f ys)"
  by (induction ys) auto

lemma never_raisesD: "never_raises x m \<Longrightarrow> m s = (Inl x, s') \<Longrightarrow> False"
  by (simp add: never_raises_def)

text \<open>\<open>StartupError\<close> is the module's own: nothing outside raises it.\<close>

definition foreign :: "startup \<Rightarrow> bool" where
  "foreign su \<longleftrightarrow> su_host_port su \<noteq> Some startup_error \<and> su_channel su \<noteq> Some startup_error
     \<and> (\<forall>c. br_call (su_broker su) c \<noteq> Some startup_error) \<and> (\<forall>t. br_consume (su_broker su) t \<noteq> Inl startup_error)
     \<and> from_env (su_config_lib su) (su_environ su) \<noteq> Inl startup_error"

lemma subscribe_never:
  assumes "foreign su"
  shows "never_raises startup_error (subscribe_all e su pool_max :: ('z life_scheme, unit) eff)"
proof -
  let ?b = "su_broker su"
  have call: "never_raises startup_error (call_broker ?b c :: ('z life_scheme, unit) eff)" for c
    using assms by (auto simp: call_broker_def log_event_def foreign_def split: option.splits)
  have topology: "topology_calls prefix t \<noteq> Inl startup_error" for prefix t
    by (auto simp: topology_calls_def rbind_def exchange_name_def queue_name_def dead_letter_exchange_name_def
        dead_letter_queue_name_def startup_error_def py_error_def)
  have "never_raises startup_error (declare_type e ?b t :: ('z life_scheme, unit) eff)" for t
    unfolding declare_type_def using topology by (auto intro: call)
  then have "never_raises startup_error (declare_all e ?b :: ('z life_scheme, unit) eff)"
    unfolding declare_all_def by auto
  moreover have "never_raises startup_error (consume ?b t :: ('z life_scheme, unit) eff)" for t
    using assms by (auto simp: consume_def log_event_def foreign_def intro!: never_raises_andthen never_raises_bnd never_raises_flow)
  ultimately show ?thesis
    unfolding subscribe_all_def using assms
    by (auto simp: foreign_def intro!: call never_raises_andthen never_raises_for_each never_raises_flow split: option.splits)
qed

text \<open>What the startup probes read.\<close>

definition column_state_of :: "db \<Rightarrow> child_table \<Rightarrow> column_state" where
  "column_state_of d t = (case map_of (db_columns d) (''musicbrainz'', table_name t, RECONCILIATION_COLUMN) of
     None \<Rightarrow> Missing
   | Some ty \<Rightarrow> if ty = [] then Missing else if ty \<noteq> RECONCILIATION_COLUMN_TYPE then WrongType ty else Present)"

lemma column_Present_iff:
  "column_state_of d t = Present \<longleftrightarrow>
     map_of (db_columns d) (''musicbrainz'', table_name t, RECONCILIATION_COLUMN) = Some RECONCILIATION_COLUMN_TYPE"
  by (simp add: column_state_of_def RECONCILIATION_COLUMN_TYPE_def split: option.split)

lemma column_type_Inr: "column_type p t s = (Inr c, s') \<Longrightarrow> c = column_state_of (s_db s) t \<and> s_db s' = s_db s"
  unfolding column_type_def column_state_of_def
  by (auto elim!: andthen_InrE dest!: exec_read_Inr)

lemma column_states_Inr:
  "column_states p ts s = (Inr cs, s') \<Longrightarrow> cs = map (column_state_of (s_db s)) ts \<and> s_db s' = s_db s"
proof (induction ts arbitrary: s cs s')
  case Nil
  then show ?case by simp
next
  case (Cons t ts)
  from Cons.prems obtain c s1 cs1 where "column_type p t s = (Inr c, s1)" and "column_states p ts s1 = (Inr cs1, s')"
    and "cs = c # cs1" by (auto elim!: bnd_InrE)
  with column_type_Inr [of p t s c s1] Cons.IH [of s1 cs1 s'] show ?case by simp
qed

lemma columns_present_Inr:
  assumes "reconciliation_columns_present p ts s = (Inr True, s')"
  shows "s_db s' = s_db s \<and> (\<forall>t \<in> set ts.
    map_of (db_columns (s_db s)) (''musicbrainz'', table_name t, RECONCILIATION_COLUMN) = Some RECONCILIATION_COLUMN_TYPE)"
proof -
  from assms obtain s1 cs where c: "exec p Connect s = (Inr (), s1)" and cs: "column_states p ts s1 = (Inr cs, s')"
    and all: "\<forall>c \<in> set cs. c = Present"
    unfolding reconciliation_columns_present_def by (auto elim!: andthen_InrE bnd_InrE split: if_splits)
  from exec_read_Inr [OF c] have "s_db s1 = s_db s" by simp
  with column_states_Inr [OF cs] all have "s_db s' = s_db s" "\<forall>t \<in> set ts. column_state_of (s_db s) t = Present" by auto
  then show ?thesis by (simp add: column_Present_iff)
qed

lemma veto_column_Inr:
  "purge_veto_column_present p s = (Inr True, s') \<Longrightarrow>
     map_of (db_columns (s_db s)) (''public'', ''loader_extraction_latch'', ''purge_vetoed'') \<noteq> None"
  unfolding purge_veto_column_present_def by (auto elim!: andthen_InrE dest!: exec_read_Inr)

lemma open_pool_Inr:
  "open_pool su w = (Inr (), w') \<Longrightarrow> w' = w\<lparr>v_pool := True, v_admission := True\<rparr>"
  by (cases "su_pool_new su"; cases "su_pool_init su")
    (auto simp: open_pool_def try_catch_def bnd_def andthen_def split: prod.splits sum.splits)

text \<open>A start that returns passed its guard, read a delay and a configuration, and opened the pool.\<close>

lemma main_startup_Inr:
  fixes v v' :: "'z life_scheme"
  assumes run: "main_startup e su v = (Inr x, v')"
  obtains cfg w where "\<not> startup_blocked v"
    "enable_reconciliation e (v\<lparr>v_admission := False, v_purge := None, l_config := Some cfg,
       l_health := Some (health_port cfg), v_pool := True, v_admission := True\<rparr>) = (Inr (), w)"
    "connect_and_subscribe e su (Some (postgres_pool_max_size cfg)) w = (Inr x, v')"
proof -
  from run have free: "\<not> startup_blocked v" by (auto simp: main_startup_def split: if_splits)
  let ?w0 = "v\<lparr>v_admission := False, v_purge := None\<rparr>"
  obtain n where delay: "startup_delay (su_environ su) = Inr n"
  proof (cases "startup_delay (su_environ su)")
    case (Inl y)
    have "main_startup e su v = (Inl y, ?w0)" using free by (simp add: main_startup_def Inl)
    with run show ?thesis by simp
  qed (rule that)
  obtain cfg where cfg: "from_env (su_config_lib su) (su_environ su) = Inr cfg"
  proof (cases "from_env (su_config_lib su) (su_environ su)")
    case (Inl y)
    have "\<exists>y. main_startup e su v = (Inl y, ?w0)" using free by (simp add: main_startup_def delay Inl)
    with run show ?thesis by auto
  qed (rule that)
  let ?w1 = "?w0\<lparr>l_config := Some cfg, l_health := Some (health_port cfg)\<rparr>"
  have host: "su_host_port su = None"
  proof (cases "su_host_port su")
    case (Some y)
    have "main_startup e su v = (Inl y, ?w1)" using free by (simp add: main_startup_def delay cfg Some)
    with run show ?thesis by simp
  qed
  from run free have "andthen (open_pool su) (andthen (enable_reconciliation e)
      (connect_and_subscribe e su (Some (postgres_pool_max_size cfg)))) ?w1 = (Inr x, v')"
    by (simp add: main_startup_def delay cfg host)
  then obtain w2 where "open_pool su ?w1 = (Inr (), w2)"
    and rest: "andthen (enable_reconciliation e) (connect_and_subscribe e su (Some (postgres_pool_max_size cfg))) w2 = (Inr x, v')"
    by (rule andthen_InrE)
  with open_pool_Inr have "w2 = ?w1\<lparr>v_pool := True, v_admission := True\<rparr>" by blast
  with rest obtain w where "enable_reconciliation e (?w1\<lparr>v_pool := True, v_admission := True\<rparr>) = (Inr (), w)"
    "connect_and_subscribe e su (Some (postgres_pool_max_size cfg)) w = (Inr x, v')" by (auto elim: andthen_InrE)
  from that [OF free this] show thesis .
qed

text \<open>The state a start leaves when it completes.\<close>

lemma startup_running:
  fixes v v' :: "'z life_scheme"
  assumes run: "main_startup e su v = (Inr True, v')" and ok: "registered_ok v"
  shows "session_ok v' \<and> v_consumer_tags v' = map (\<lambda>t. (t, tag_for (su_broker su) t)) MUSICBRAINZ_DATA_TYPES
    \<and> v_pool v' \<and> v_admission v'
    \<and> (\<exists>cfg. l_config v' = Some cfg \<and> l_health v' = Some (health_port cfg))"
proof -
  from main_startup_Inr [OF run] obtain cfg w3 where free: "\<not> startup_blocked v"
    and en: "enable_reconciliation e (v\<lparr>v_admission := False, v_purge := None, l_config := Some cfg,
        l_health := Some (health_port cfg), v_pool := True, v_admission := True\<rparr>) = (Inr (), w3)" (is "enable_reconciliation e ?w2 = _")
    and conn: "connect_and_subscribe e su (Some (postgres_pool_max_size cfg)) w3 = (Inr True, v')" by blast
  from keepsD [OF enable_frames(1) en] keepsD [OF enable_frames(2) en]
  have w3: "same_running ?w2 w3" "same_consumers ?w2 w3" by simp_all
  from conn have sub: "subscribe_all e su (Some (postgres_pool_max_size cfg)) (w3\<lparr>v_connection := True\<rparr>) = (Inr (), v')"
    by (auto simp: connect_and_subscribe_def split: connect_outcome.splits elim!: andthen_InrE)
  have tags: "v_consumer_tags (w3\<lparr>v_connection := True\<rparr>) = []" and ok3: "session_ok (w3\<lparr>v_connection := True\<rparr>)"
    using w3(2) ok free by (auto simp: same_consumers_def startup_blocked_def session_ok_def registered_ok_def)
  from subscribe_all_Inr [OF sub ok3 tags] have s: "session_ok v'" "same_running (w3\<lparr>v_connection := True\<rparr>) v'"
    "v_consumer_tags v' = map (\<lambda>t. (t, tag_for (su_broker su) t)) MUSICBRAINZ_DATA_TYPES" by simp_all
  then show ?thesis using w3(1) by (simp add: same_running_def)
qed

text \<open>The end of a run: what was registered is released, on every path that returns.\<close>

definition at_rest :: "'z life_scheme \<Rightarrow> bool" where
  "at_rest v \<longleftrightarrow> \<not> startup_blocked v \<and> \<not> v_admission v \<and> v_purge v = None \<and> l_health v = None \<and> gauge v = 0"

lemma dispose_rests:
  assumes "all_confirm su" and ok: "registered_ok v"
    and d: "dispose_retained_delivery_lifecycle (su_close su) (su_drains su) (su_pool_closes su) v = (r, v')"
  shows "at_rest (v'\<lparr>l_health := None\<rparr>)"
proof -
  from dispose_confirmed [OF assms(1,2)] d have r: "r = Inr True" by auto
  from ok have "gauge v = int (length (v_consumer_tags v))" by (simp add: registered_ok_def)
  from d [unfolded r] this show ?thesis
    by (cases rule: dispose_cases) (simp_all add: at_rest_def startup_blocked_def)
qed

lemma shutdown_rests:
  assumes "all_confirm su" and "registered_ok v"
  shows "at_rest (main_shutdown su in_flight confirms late v) \<and> v_cancel_tasks (main_shutdown su in_flight confirms late v) = []"
proof -
  let ?v2 = "(interrupt_timers late (cancel_all_consumers in_flight confirms v))\<lparr>v_cancel_tasks := []\<rparr>"
  have "registered_ok (cancel_all_consumers in_flight confirms v)" using assms(2) by (rule cancel_all_ok)
  then have "registered_ok (interrupt_timers late (cancel_all_consumers in_flight confirms v))"
    by (simp add: interrupt_timers_def fold_ok)
  then have "registered_ok ?v2" by (simp add: registered_ok_def)
  moreover obtain r v3 where
    d: "dispose_retained_delivery_lifecycle (su_close su) (su_drains su) (su_pool_closes su) ?v2 = (r, v3)" by fastforce
  ultimately have "at_rest (v3\<lparr>l_health := None\<rparr>)" using dispose_rests [OF assms(1)] by blast
  moreover have "v_cancel_tasks v3 = []"
    using d by (auto simp: dispose_retained_delivery_lifecycle_def close_rabbitmq_connection_def close_channel_def
        close_connection_def Let_def logged_def split: prod.splits if_splits)
  ultimately show ?thesis using d by (simp add: main_shutdown_def Let_def)
qed

section \<open>A demonstration start\<close>

definition demo_life :: life where
  "demo_life = svc.extend demo_svc \<lparr>l_cleanup_uncertain = False, l_writer = \<lparr>w_refresh_updated_at = True\<rparr>,
     l_config = None, l_health = Some 8002\<rparr>"

definition demo_startup :: startup where
  "demo_startup = \<lparr>su_config_lib = demo_config_lib, su_environ = (\<lambda>n. if n = ''HEALTH_PORT'' \<or> n = ''STARTUP_DELAY'' then Some ''80'' else Some ''x''),
     su_host_port = None, su_pool_new = None, su_pool_init = None, su_connects = (\<lambda>i. i = 2), su_stop = (\<lambda>_. False),
     su_channel = None, su_broker = demo_broker, su_close = \<lparr>cl_channel = True, cl_connection = True\<rparr>,
     su_drains = True, su_pool_closes = True\<rparr>"

text \<open>A process that has not started yet.\<close>

definition demo_fresh :: life where
  "demo_fresh = demo_life\<lparr>v_consumer_tags := [], v_connection_tags := [], v_connection := False, v_channel := False,
     v_pool := False, v_admission := False, v_purge := None, l_health := None\<rparr>"

lemma demo_fresh_free: "\<not> startup_blocked demo_fresh" "registered_ok demo_fresh" "l_health demo_fresh = None"
  by (simp_all add: demo_fresh_def demo_life_def demo_svc_def svc.extend_def startup_blocked_def registered_ok_def gauge_def)

lemma demo_delay: "startup_delay (su_environ demo_startup) = Inr 80"
  by code_simp

lemma demo_loop: "fst (connect_loop (su_connects demo_startup) (su_stop demo_startup) 0) = Connected"
  by (simp add: demo_startup_def connect_loop.simps MAX_STARTUP_RETRIES_def)

lemma demo_starts: "\<exists>v'. main_startup demo_senv demo_startup demo_fresh = (Inr True, v')"
proof -
  let ?b = "su_broker demo_startup"
  have b: "broker_up ?b" using demo_broker_up by (simp add: demo_startup_def)
  have "\<not> isl (from_env (su_config_lib demo_startup) (su_environ demo_startup))" by code_simp
  then obtain cfg where cfg: "from_env (su_config_lib demo_startup) (su_environ demo_startup) = Inr cfg"
    by (cases "from_env (su_config_lib demo_startup) (su_environ demo_startup)") auto
  let ?w1 = "demo_fresh\<lparr>v_admission := False, v_purge := None, l_config := Some cfg, l_health := Some (health_port cfg)\<rparr>"
  let ?w2 = "?w1\<lparr>v_pool := True, v_admission := True\<rparr>"
  have pool: "open_pool demo_startup ?w1 = (Inr (), ?w2)"
    by (simp add: open_pool_def try_catch_def demo_startup_def)
  obtain w3 where en: "enable_reconciliation demo_senv ?w2 = (Inr (), w3)" using enable_total by blast
  let ?q = "SetQos (consumer_prefetch (Some (postgres_pool_max_size cfg)))"
  let ?w4 = "w3\<lparr>v_connection := True, v_channel := True\<rparr>"
  from call_all_up [OF b, of "[?q]" ?w4] obtain l1 where q: "call_broker ?b ?q ?w4 = (Inr (), ?w4\<lparr>v_log := l1\<rparr>)"
    by (auto simp: andthen_def bnd_def split: prod.splits sum.splits)
  from declare_types_up [OF b order_refl] obtain w5 where d: "declare_all demo_senv ?b (?w4\<lparr>v_log := l1\<rparr>) = (Inr (), w5)"
    unfolding declare_all_def by fastforce
  have "\<exists>w. for_each (consume ?b) ts w' = (Inr (), w)" for ts and w' :: life
    by (induction ts arbitrary: w') (simp_all add: consume_def log_event_def demo_startup_def demo_broker_def)
  then obtain w6 where c: "for_each (consume ?b) MUSICBRAINZ_DATA_TYPES
      (w5\<lparr>v_connection_tags := [], v_watch_started_at := se_now demo_senv\<rparr>) = (Inr (), w6)" by blast
  have "su_channel demo_startup = None" "su_host_port demo_startup = None" by (simp_all add: demo_startup_def)
  then have "main_startup demo_senv demo_startup demo_fresh = (Inr True, w6)"
    using cfg pool en q d c demo_loop demo_fresh_free(1) demo_delay
    by (simp add: main_startup_def connect_and_subscribe_def subscribe_all_def)
  then show ?thesis by blast
qed

section \<open>Properties\<close>

text \<open>
  C20.  The pool outlives the work that needs it: a disposal releases the pool, the write admission and the
  purge only after the broker session is closed, every admitted handler has drained and the pool has
  closed, and then a new start is possible; otherwise it keeps all three, and every later start is
  refused.
\<close>

theorem dispose_releases_or_blocks:
  assumes "dispose_retained_delivery_lifecycle cl drains pool_closes v = (r, v')"
  shows "if r = Inr True
    then (v_admission v \<longrightarrow> drains) \<and> (v_pool v \<longrightarrow> pool_closes) \<and> \<not> v_pool v' \<and> \<not> v_admission v' \<and> v_purge v' = None
      \<and> v_consumer_tags v' = [] \<and> \<not> v_connection v' \<and> \<not> startup_blocked v'
    else v_pool v' = v_pool v \<and> v_admission v' = v_admission v \<and> v_purge v' = v_purge v
      \<and> (\<forall>e su. main_startup e su v' = (Inl startup_error, v'))"
  using assms
  by (cases rule: dispose_cases) (simp_all add: startup_blocked_def main_startup_def)

theorem dispose_releases_or_blocks_witness:
  "\<exists>v'. dispose_retained_delivery_lifecycle \<lparr>cl_channel = True, cl_connection = True\<rparr> False True demo_life = (Inr False, v')
     \<and> v_pool v' \<and> main_startup demo_senv demo_startup v' = (Inl startup_error, v')"
proof -
  let ?run = "dispose_retained_delivery_lifecycle \<lparr>cl_channel = True, cl_connection = True\<rparr> False True demo_life"
  have r: "fst ?run = Inr False"
    by (simp add: dispose_retained_delivery_lifecycle_def close_rabbitmq_connection_def close_channel_def close_connection_def
        demo_life_def demo_svc_def svc.extend_def logged_def)
  have "v_pool demo_life" by (simp add: demo_life_def demo_svc_def svc.extend_def)
  with dispose_releases_or_blocks [OF surjective_pairing [of ?run]] r show ?thesis
    by (intro exI [of _ "snd ?run"]) (simp add: prod_eq_iff)
qed

text \<open>
  C21.  A completed start has the service in order: all four streams have the consumer the broker named,
  pool and write admission are there, the health server runs on the configured port, and in every state
  the service reaches afterwards the active-consumer gauge is the number of registered consumers.
\<close>

theorem startup_registers_every_stream:
  fixes v v' :: "'z life_scheme"
  assumes run: "main_startup e su v = (Inr True, v')" and ok: "registered_ok v"
  shows "v_consumer_tags v' = map (\<lambda>t. (t, tag_for (su_broker su) t)) MUSICBRAINZ_DATA_TYPES
    \<and> v_pool v' \<and> v_admission v' \<and> v_connection v'
    \<and> (\<exists>cfg. l_config v' = Some cfg \<and> l_health v' = Some (health_port cfg))
    \<and> (\<forall>v''. service_run v' v'' \<longrightarrow> gauge v'' = int (length (v_consumer_tags v'')))"
proof -
  note s = startup_running [OF run ok]
  have "gauge v'' = int (length (v_consumer_tags v''))" if "service_run v' v''" for v''
  proof -
    from s have "registered_ok v'" by (simp add: session_ok_def)
    from service_run_ok [OF that this] show ?thesis by (simp add: registered_ok_def)
  qed
  with s show ?thesis by (simp add: session_ok_def)
qed

theorem startup_registers_every_stream_witness:
  "\<exists>v'. main_startup demo_senv demo_startup demo_fresh = (Inr True, v')
     \<and> map_of (v_consumer_tags v') ''labels'' = Some ''new-labels''"
proof -
  from demo_starts obtain v' where run: "main_startup demo_senv demo_startup demo_fresh = (Inr True, v')" by blast
  have tags: "tag_for (su_broker demo_startup) t = ''new-'' @ t" for t
    by (simp add: demo_startup_def tag_for_def demo_broker_def)
  from startup_registers_every_stream [OF run demo_fresh_free(2)] run show ?thesis
    by (simp add: tags MUSICBRAINZ_DATA_TYPES_def ENTITY_TYPES_def)
qed

text \<open>Where a start can give up: at its configuration, before anything is held, or after the health server is up.\<close>

lemma startup_given_up:
  fixes v v' :: "'z life_scheme"
  assumes run: "main_startup e su v = (Inl startup_error, v')" and free: "\<not> startup_blocked v" and up: "foreign su"
  obtains (unconfigured) "v' = v\<lparr>v_admission := False, v_purge := None\<rparr>"
    | (configured) cfg where "andthen (open_pool su) (andthen (enable_reconciliation e)
        (connect_and_subscribe e su (Some (postgres_pool_max_size cfg))))
        (v\<lparr>v_admission := False, v_purge := None, l_config := Some cfg, l_health := Some (health_port cfg)\<rparr>) = (Inl startup_error, v')"
proof -
  let ?w0 = "v\<lparr>v_admission := False, v_purge := None\<rparr>"
  have se: "value_error \<noteq> startup_error" by (simp add: value_error_def startup_error_def py_error_def)
  have "startup_delay (su_environ su) \<noteq> Inl x" for x
  proof
    assume d: "startup_delay (su_environ su) = Inl x"
    then have x: "x = value_error" by (auto simp: startup_delay_def env_int_def split: option.splits)
    have "main_startup e su v = (Inl x, ?w0)" using free by (simp add: main_startup_def d)
    with run have "x = startup_error" by (simp only: prod.inject sum.inject)
    with x se show False by simp
  qed
  then obtain n where delay: "startup_delay (su_environ su) = Inr n" by (cases "startup_delay (su_environ su)") auto
  show thesis
  proof (cases "from_env (su_config_lib su) (su_environ su)")
    case (Inl x)
    with run free up delay have "v' = ?w0" by (auto simp: main_startup_def foreign_def split: if_splits)
    then show thesis by (rule unconfigured)
  next
    case (Inr cfg)
    from run free up delay Inr have host: "su_host_port su = None"
      by (cases "su_host_port su") (auto simp: main_startup_def foreign_def)
    with run free delay Inr show thesis by (intro configured [of cfg]) (simp add: main_startup_def)
  qed
qed

text \<open>With its health server up, a start gives up only through \<open>close_pool_and_health\<close>.\<close>

lemma opened_given_up:
  fixes w w' :: "'z life_scheme"
  assumes rest: "andthen (open_pool su) (andthen (enable_reconciliation e) (connect_and_subscribe e su pool_max)) w = (Inl startup_error, w')"
    and ok: "registered_ok w" and up: "all_confirm su" "foreign su"
  shows "\<not> startup_blocked w' \<and> l_health w' = None"
proof -
  have released: "\<not> startup_blocked w' \<and> l_health w' = None"
    if "andthen (close_pool_and_health su) (raise startup_error) x = (Inl startup_error, w')" and "registered_ok x" for x
  proof -
    obtain r y where c: "close_pool_and_health su x = (r, y)" by fastforce
    from close_pool_and_health_releases [OF up(1) that(2) c] that(1) c show ?thesis by (auto simp: andthen_def bnd_def)
  qed
  show ?thesis
  proof (cases "su_pool_new su = None \<and> su_pool_init su = None")
    case False
    from open_pool_fails [OF this, of w] obtain x where x: "x = w \<or> x = w\<lparr>v_pool := True\<rparr>"
      and pool: "open_pool su w = andthen (close_pool_and_health su) (raise startup_error) x" by blast
    then have "registered_ok x" using ok by (auto simp: registered_ok_def)
    moreover from rest pool have "andthen (close_pool_and_health su) (raise startup_error) x = (Inl startup_error, w')"
      by (auto simp: andthen_def bnd_def split: prod.splits sum.splits)
    ultimately show ?thesis by (intro released)
  next
    case True
    let ?w2 = "w\<lparr>v_pool := True, v_admission := True\<rparr>"
    have pool: "open_pool su w = (Inr (), ?w2)" using True by (simp add: open_pool_def try_catch_def)
    obtain w3 where en: "enable_reconciliation e ?w2 = (Inr (), w3)" using enable_total by blast
    from keepsD [OF enable_frames(2) en] ok have ok3: "registered_ok w3"
      using same_consumers_ok [of ?w2 w3] by (simp add: registered_ok_def)
    from rest pool en have conn: "connect_and_subscribe e su pool_max w3 = (Inl startup_error, w')" by simp
    show ?thesis
    proof (cases "fst (connect_loop (su_connects su) (su_stop su) 0)")
      case Connected
      with conn have "subscribe_all e su pool_max (w3\<lparr>v_connection := True\<rparr>) = (Inl startup_error, w')"
        by (auto simp: connect_and_subscribe_def andthen_def bnd_def split: prod.splits sum.splits)
      then show ?thesis using never_raisesD [OF subscribe_never [OF up(2)]] by blast
    next
      case Stopped
      with conn show ?thesis by (auto simp: connect_and_subscribe_def andthen_def bnd_def split: prod.splits sum.splits
        dest: close_pool_and_health_releases [OF up(1) ok3])
    next
      case Unreachable
      with conn show ?thesis by (intro released [OF _ ok3]) (simp add: connect_and_subscribe_def)
    qed
  qed
qed

text \<open>
  C22.  A start that gives up leaves nothing behind and exits with status 1: when it raises \<open>StartupError\<close>
  and the disposal is confirmed, the health server is stopped, no pool, connection or registration is
  held, and a new start would not be refused.
\<close>

theorem failed_startup_releases:
  fixes v v' :: "'z life_scheme"
  assumes run: "main_startup e su v = (Inl startup_error, v')" and free: "\<not> startup_blocked v"
    and ok: "registered_ok v" "l_health v = None" and up: "all_confirm su" "foreign su"
  shows "\<not> startup_blocked v' \<and> l_health v' = None \<and> cli (fst (main_startup e su v)) = ExitStatus 1"
proof -
  have "\<not> startup_blocked v' \<and> l_health v' = None"
    using run free up(2)
  proof (cases rule: startup_given_up)
    case unconfigured
    then show ?thesis using free ok(2) by (simp add: startup_blocked_def)
  next
    case (configured cfg)
    from opened_given_up [OF this _ up] ok(1) show ?thesis by (simp add: registered_ok_def)
  qed
  moreover have "cli (fst (main_startup e su v)) = ExitStatus 1" using run by (simp add: cli_def)
  ultimately show ?thesis by simp
qed

theorem failed_startup_releases_witness:
  "\<exists>v'. main_startup demo_senv (demo_startup\<lparr>su_pool_init := Some (py_error ''OSError'')\<rparr>) demo_fresh = (Inl startup_error, v')
     \<and> l_health v' = None"
proof -
  let ?su = "demo_startup\<lparr>su_pool_init := Some (py_error ''OSError'')\<rparr>"
  have "\<not> isl (from_env (su_config_lib demo_startup) (su_environ demo_startup))" by code_simp
  then obtain cfg where cfg: "from_env (su_config_lib demo_startup) (su_environ demo_startup) = Inr cfg"
    by (cases "from_env (su_config_lib demo_startup) (su_environ demo_startup)") auto
  let ?w1 = "demo_fresh\<lparr>v_admission := False, v_purge := None, l_config := Some cfg, l_health := Some (health_port cfg)\<rparr>"
  obtain r w' where c: "close_pool_and_health ?su (?w1\<lparr>v_pool := True\<rparr>) = (r, w')" by fastforce
  have "registered_ok (?w1\<lparr>v_pool := True\<rparr>)" using demo_fresh_free(2) by (simp add: registered_ok_def)
  moreover have up: "all_confirm ?su" by (simp add: all_confirm_def demo_startup_def)
  ultimately have "r = Inr ()" using close_pool_and_health_releases [OF _ _ c] by simp
  with c have pool: "open_pool ?su ?w1 = (Inl startup_error, w')"
    by (simp add: open_pool_def try_catch_def demo_startup_def)
  with cfg demo_delay demo_fresh_free(1) have run: "main_startup demo_senv ?su demo_fresh = (Inl startup_error, w')"
    by (simp add: main_startup_def) (simp add: demo_startup_def)
  have "foreign ?su"
    using cfg by (simp add: foreign_def) (simp add: demo_startup_def demo_broker_def)
  from failed_startup_releases [OF run demo_fresh_free up this] run show ?thesis by simp
qed



text \<open>
  Connecting at startup ends: there are at most five attempts, the waits between them are 5, 10, 15
  and 20 seconds, the start gives up only when every attempt failed, and it succeeds or stops only on an
  attempt that succeeded or a shutdown that was requested.
\<close>

theorem connection_attempts_bounded:
  assumes "connect_loop connects stop 0 = (r, waits)"
  shows "length waits \<le> 4 \<and> waits = take (length waits) [5, 10, 15, 20]
    \<and> (r = Unreachable \<longleftrightarrow> (\<forall>i < 5. \<not> connects i \<and> \<not> stop i))
    \<and> (r = Connected \<longrightarrow> (\<exists>i < 5. connects i)) \<and> (r = Stopped \<longrightarrow> (\<exists>i < 5. stop i))"
proof -
  have b: "length waits + 0 \<le> 5" "\<forall>i < length waits. waits ! i = min 30 (5 * Suc (0 + i))"
    and out: "r = Connected \<longrightarrow> (\<exists>i. i < 5 \<and> connects i)" "r = Unreachable \<longrightarrow> (\<forall>i. i < 5 \<longrightarrow> \<not> connects i \<and> \<not> stop i)"
      "r = Stopped \<longrightarrow> (\<exists>i. i < 5 \<and> stop i)"
    using connect_loop_bounds [OF _ assms] by (simp_all add: MAX_STARTUP_RETRIES_def)
  have "length waits \<noteq> 5"
    using assms by (auto simp: connect_loop.simps MAX_STARTUP_RETRIES_def split: if_splits prod.splits)
  with b(1) have l: "length waits \<le> 4" by simp
  have "waits = take (length waits) [5, 10, 15, 20]"
  proof (rule nth_equalityI)
    show "length waits = length (take (length waits) [5, 10, 15, 20 :: nat])" using l by simp
    fix i
    assume i: "i < length waits"
    with l have "i = 0 \<or> i = 1 \<or> i = 2 \<or> i = 3" by auto
    with i b(2) show "waits ! i = take (length waits) [5, 10, 15, 20] ! i" by auto
  qed
  moreover have "r = Unreachable" if "\<forall>i < 5. \<not> connects i \<and> \<not> stop i"
    using that out by (cases r) auto
  ultimately show ?thesis using l out by blast
qed

theorem connection_attempts_bounded_witness:
  "snd (connect_loop (\<lambda>i. i = 2) (\<lambda>_. False) 0) = [5, 10]"
proof -
  have "length (snd (connect_loop (\<lambda>i. i = 2) (\<lambda>_. False) 0)) = 2" by (simp add: connect_loop.simps MAX_STARTUP_RETRIES_def)
  with connection_attempts_bounded [OF surjective_pairing, of "\<lambda>i. i = 2" "\<lambda>_. False"] show ?thesis by simp
qed



end
