(* ===== verification/Progress.thy ===== *)
theory Progress
  imports Consumers
begin

text \<open>
  \<open>progress_reporter\<close> (\<open>brainztableinator.py\<close>): the rounds of the background task that reports what has
  been loaded and puts the service into idle mode while nothing arrives.

  A round is what happens between two sleeps; the service moves on while the reporter sleeps.  Its local
  variables are the record \<open>reporter\<close>, its log calls are the lines of \<open>progress_line\<close>, whose wording is
  left out.  \<open>timeout\<close> is \<open>STARTUP_IDLE_TIMEOUT\<close> and \<open>idle_interval\<close> is \<open>IDLE_LOG_INTERVAL\<close>.
\<close>

section \<open>A round\<close>

record reporter =
  rp_count :: nat
  rp_startup :: rat
  rp_last_idle :: rat

datatype progress_line =
    EnteringIdle
  | Resuming
  | StillIdle
  | Stalled "string list"
  | Totals nat "(bool \<times> string \<times> nat) list"
  | NothingYet
  | AllProcessing
  | Slow "string list"
  | Cancelled "string list"
  | StillActive "string list"

definition report_wait :: "nat \<Rightarrow> rat" where
  "report_wait n = (if n < 3 then 10 else 30)"

definition total_processed :: "'z svc_scheme \<Rightarrow> nat" where
  "total_processed v = sum_list (map snd (v_message_counts v))"

definition note_stalled :: "rat \<Rightarrow> string set \<Rightarrow> string \<times> rat \<Rightarrow> string list \<Rightarrow> string list" where
  "note_stalled now completed = (\<lambda>(t, last) stalled.
     let stopped_after_start = (0 < last \<and> 120 < now - last)
     in if t \<notin> completed \<and> stopped_after_start \<and> t \<notin> set stalled then stalled @ [t] else stalled)"

definition stalled_types :: "rat \<Rightarrow> rat \<Rightarrow> 'z svc_scheme \<Rightarrow> string list" where
  "stalled_types timeout now v =
     fold (note_stalled now (set (v_completed_files v))) (v_last_message_time v) (consumer_alarm_types timeout now v)"

definition REPORTED_TYPES :: "string list" where
  "REPORTED_TYPES = [''artists'', ''labels'', ''release-groups'', ''releases'']"

definition progress_part :: "'z svc_scheme \<Rightarrow> string \<Rightarrow> exn + bool \<times> string \<times> nat" where
  "progress_part v t = (case map_of (v_message_counts v) t of
     None \<Rightarrow> Inl (py_error ''KeyError'')
   | Some n \<Rightarrow> Inr (t \<in> set (v_completed_files v), t, n))"

definition slow_types :: "rat \<Rightarrow> 'z svc_scheme \<Rightarrow> string list" where
  "slow_types now v = map fst (filter (\<lambda>(_, last). 0 < last \<and> 5 < now - last \<and> now - last < 120) (v_last_message_time v))"

definition activity_lines :: "rat \<Rightarrow> 'z svc_scheme \<Rightarrow> progress_line list" where
  "activity_lines now v =
     (if total_processed v = 0 then [NothingYet]
      else if \<forall>(_, last) \<in> set (v_last_message_time v). 0 < last \<longrightarrow> now - last < 5 then [AllProcessing]
      else if slow_types now v \<noteq> [] then [Slow (slow_types now v)]
      else [])"

definition consumer_lines :: "'z svc_scheme \<Rightarrow> progress_line list" where
  "consumer_lines v =
     (let active = map fst (v_consumer_tags v);
          cancelled = filter (\<lambda>t. t \<notin> set active \<and> t \<in> set (v_completed_files v)) MUSICBRAINZ_DATA_TYPES
      in (if cancelled \<noteq> [] then [Cancelled cancelled] else []) @ (if active \<noteq> [] then [StillActive active] else []))"

definition report_lines :: "rat \<Rightarrow> rat \<Rightarrow> 'z svc_scheme \<Rightarrow> exn + progress_line list" where
  "report_lines timeout now v =
     (let stalled = stalled_types timeout now v in
      rbind (rmap (progress_part v) REPORTED_TYPES) (\<lambda>parts.
        Inr ((if stalled \<noteq> [] then [Stalled stalled] else []) @ [Totals (total_processed v) parts]
          @ activity_lines now v @ consumer_lines v)))"

definition progress_round ::
  "rat \<Rightarrow> rat \<Rightarrow> rat \<Rightarrow> reporter \<times> 'z svc_scheme \<Rightarrow> exn + (reporter \<times> 'z svc_scheme) \<times> progress_line list" where
  "progress_round timeout idle_interval now = (\<lambda>(rp, v).
     let rp = rp\<lparr>rp_count := Suc (rp_count rp)\<rparr> in
     if length (v_completed_files v) = length MUSICBRAINZ_DATA_TYPES then Inr ((rp, v), [])
     else if \<not> v_idle_mode v \<and> total_processed v = 0 \<and> timeout \<le> now - rp_startup rp
       then Inr ((rp\<lparr>rp_last_idle := now\<rparr>, v\<lparr>v_idle_mode := True\<rparr>), [EnteringIdle])
     else if v_idle_mode v
       then if 0 < total_processed v then Inr ((rp, v\<lparr>v_idle_mode := False\<rparr>), [Resuming])
            else if idle_interval \<le> now - rp_last_idle rp then Inr ((rp\<lparr>rp_last_idle := now\<rparr>, v), [StillIdle])
            else Inr ((rp, v), [])
     else rbind (report_lines timeout now v) (\<lambda>lines. Inr ((rp, v), lines)))"

text \<open>
  The life of the reporter beside the service: rounds at any times, any steps of the service in between.
  It ends, leaving the error, when a round raises.
\<close>

inductive reported_run :: "rat \<Rightarrow> rat \<Rightarrow> reporter \<times> 'z svc_scheme \<Rightarrow> reporter \<times> 'z svc_scheme \<Rightarrow> progress_line list \<Rightarrow> bool"
  for timeout idle_interval c where
  start: "reported_run timeout idle_interval c c []"
| service: "reported_run timeout idle_interval c (rp, v) ls \<Longrightarrow> service_step v v'
    \<Longrightarrow> reported_run timeout idle_interval c (rp, v') ls"
| round: "reported_run timeout idle_interval c (rp, v) ls \<Longrightarrow> \<not> v_shutdown v
    \<Longrightarrow> progress_round timeout idle_interval now (rp, v) = Inr (c', new)
    \<Longrightarrow> reported_run timeout idle_interval c c' (ls @ new)"

section \<open>Counters never go back\<close>

text \<open>
  What every step of the service does to what the reporter reads: counters keep their keys and never
  fall, and idle mode is only ever left.
\<close>

definition counts_grow :: "'z svc_scheme \<Rightarrow> 'z svc_scheme \<Rightarrow> bool" where
  "counts_grow v v' \<longleftrightarrow> map fst (v_message_counts v') = map fst (v_message_counts v)
     \<and> list_all2 (\<le>) (map snd (v_message_counts v)) (map snd (v_message_counts v'))
     \<and> (v_idle_mode v' \<longrightarrow> v_idle_mode v)"

lemma counts_grow_orders [intro, simp]: "reflp counts_grow" "transp counts_grow"
proof -
  show "reflp (counts_grow :: 'z svc_scheme \<Rightarrow> _)"
    by (auto simp: reflp_def counts_grow_def list_all2_refl)
  show "transp (counts_grow :: 'z svc_scheme \<Rightarrow> _)"
    unfolding transp_def counts_grow_def by (auto intro: list_all2_trans [of "(\<le>)" "(\<le>)" "(\<le>)"])
qed

lemma counts_same: "v_message_counts v' = v_message_counts v \<Longrightarrow> (v_idle_mode v' \<longrightarrow> v_idle_mode v) \<Longrightarrow> counts_grow v v'"
  by (simp add: counts_grow_def list_all2_refl)

lemma update_counts:
  "map_of xs t = Some (n :: nat) \<Longrightarrow> map fst (AList.update t (Suc n) xs) = map fst xs
     \<and> list_all2 (\<le>) (map snd xs) (map snd (AList.update t (Suc n) xs))"
  by (induction xs) (auto simp: list_all2_refl)

interpretation growth: handler_frame counts_grow
proof unfold_locales
  show "same_more v v' \<Longrightarrow> counts_grow v v'" for v v' :: "'z svc_scheme"
    by (cases v; cases v') (simp add: same_more_def counts_grow_def list_all2_refl)
  show "\<forall>d. ev \<noteq> ConsumerDelta d \<Longrightarrow> counts_grow v (logged ev v)" for ev and v :: "'z svc_scheme"
    by (rule counts_same) (simp_all add: logged_def)
  show "map_of (v_message_counts v) t = Some n \<Longrightarrow>
      counts_grow v (v\<lparr>v_message_counts := AList.update t (Suc n) (v_message_counts v), v_last_message_time := m\<rparr>)"
    for v :: "'z svc_scheme" and t n m
    by (simp add: counts_grow_def update_counts)
qed (auto intro: counts_same)

section \<open>The steps of the service\<close>

lemma background_step_counts: "background_step v v' \<Longrightarrow> counts_grow v v'"
  using background_step_work [of v v'] by (auto simp: same_work_def intro: counts_same)

lemma service_step_counts: "service_step v v' \<Longrightarrow> counts_grow v v'"
proof (induction rule: service_step.induct)
  case (delivery e auth admission headers body t v r v')
  with growth.handler_kept show ?case by (rule keepsD)
qed (rule background_step_counts)

section \<open>Rounds\<close>

inductive_cases reported_roundE: "reported_run timeout idle_interval c c' ls"

lemma total_zero_iff: "total_processed v = 0 \<longleftrightarrow> \<not> traffic_seen v"
  by (auto simp: total_processed_def traffic_seen_def)

lemma counts_traffic: "counts_grow v v' \<Longrightarrow> traffic_seen v \<Longrightarrow> traffic_seen v'"
proof -
  assume grow: "counts_grow v v'" and "traffic_seen v"
  then obtain i where i: "i < length (v_message_counts v)" "0 < snd (v_message_counts v ! i)"
    by (auto simp: traffic_seen_def in_set_conv_nth)
  with grow have "i < length (v_message_counts v')" "0 < snd (v_message_counts v' ! i)"
    by (auto simp: counts_grow_def list_all2_conv_all_nth intro: less_le_trans)
  then show ?thesis unfolding traffic_seen_def by (meson nth_mem)
qed

definition counters_present :: "'z svc_scheme \<Rightarrow> bool" where
  "counters_present v \<longleftrightarrow> set MUSICBRAINZ_DATA_TYPES \<subseteq> set (map fst (v_message_counts v))"

lemma reported_types: "REPORTED_TYPES = MUSICBRAINZ_DATA_TYPES"
  by (simp add: REPORTED_TYPES_def MUSICBRAINZ_DATA_TYPES_def ENTITY_TYPES_def)

lemma rmap_returns: "(\<And>x. x \<in> set xs \<Longrightarrow> \<exists>y. f x = Inr y) \<Longrightarrow> \<exists>ys. rmap f xs = Inr ys"
  by (induction xs) fastforce+

lemma report_lines_total: "counters_present v \<Longrightarrow> \<exists>lines. report_lines timeout now v = Inr lines"
proof -
  assume present: "counters_present v"
  have "\<exists>p. progress_part v t = Inr p" if "t \<in> set MUSICBRAINZ_DATA_TYPES" for t
  proof -
    from that present have "t \<in> fst ` set (v_message_counts v)" by (auto simp: counters_present_def)
    then have "map_of (v_message_counts v) t \<noteq> None" by (simp add: map_of_eq_None_iff)
    then show ?thesis by (auto simp: progress_part_def)
  qed
  then obtain parts where "rmap (progress_part v) REPORTED_TYPES = Inr parts"
    using rmap_returns [of REPORTED_TYPES "progress_part v"] by (auto simp: reported_types)
  then show ?thesis by (simp add: report_lines_def Let_def)
qed

lemma report_lines_awake:
  "report_lines timeout now v = Inr lines \<Longrightarrow> EnteringIdle \<notin> set lines \<and> StillIdle \<notin> set lines \<and> Resuming \<notin> set lines"
  by (auto simp: report_lines_def activity_lines_def consumer_lines_def Let_def split: if_splits)

text \<open>What a round does to the service: at most its idle flag.\<close>

lemma progress_round_cases:
  assumes "progress_round timeout idle_interval now (rp, v) = Inr ((rp', v'), new)"
  obtains (entered) "\<not> traffic_seen v" "\<not> v_idle_mode v" "v' = v\<lparr>v_idle_mode := True\<rparr>" "new = [EnteringIdle]"
    | (resumed) "traffic_seen v" "v_idle_mode v" "v' = v\<lparr>v_idle_mode := False\<rparr>" "new = [Resuming]"
    | (idle) "v_idle_mode v" "v' = v" "set new \<subseteq> {StillIdle}" "traffic_seen v \<longrightarrow> length (v_completed_files v) = length MUSICBRAINZ_DATA_TYPES \<and> new = []"
    | (awake) "\<not> v_idle_mode v" "v' = v" "new = [] \<or> report_lines timeout now v = Inr new"
proof (cases "length (v_completed_files v) = length MUSICBRAINZ_DATA_TYPES")
  case True
  with assms have "v' = v" "new = []" by (simp_all add: progress_round_def Let_def)
  with True show ?thesis by (cases "v_idle_mode v") (auto intro: idle awake)
next
  case False
  note round = assms [unfolded progress_round_def Let_def prod.case if_not_P [OF False]]
  show ?thesis
  proof (cases "v_idle_mode v")
    case True
    show ?thesis
    proof (cases "traffic_seen v")
      case seen: True
      then have "0 < total_processed v" using total_zero_iff [of v] by simp
      with round True have "v' = v\<lparr>v_idle_mode := False\<rparr>" "new = [Resuming]" by simp_all
      with seen True show ?thesis by (rule resumed)
    next
      case unseen: False
      then have "total_processed v = 0" using total_zero_iff [of v] by simp
      with round True have "v' = v" "set new \<subseteq> {StillIdle}" by (auto split: if_splits)
      with True unseen show ?thesis by (intro idle) simp_all
    qed
  next
    case awake': False
    show ?thesis
    proof (cases "total_processed v = 0 \<and> timeout \<le> now - rp_startup (rp\<lparr>rp_count := Suc (rp_count rp)\<rparr>)")
      case True
      with round awake' have "v' = v\<lparr>v_idle_mode := True\<rparr>" "new = [EnteringIdle]" by simp_all
      with True awake' total_zero_iff [of v] show ?thesis by (intro entered) simp_all
    next
      case False
      with round awake' have "v' = v" "report_lines timeout now v = Inr new" by auto
      with awake' show ?thesis by (intro awake) simp_all
    qed
  qed
qed

lemma progress_round_total: "counters_present v \<Longrightarrow> \<exists>c' new. progress_round timeout idle_interval now (rp, v) = Inr (c', new)"
  using report_lines_total [of v timeout now] by (auto simp: progress_round_def Let_def)

lemma mem_note_stalled:
  "t \<in> set (note_stalled now C x acc) \<longleftrightarrow>
     t \<in> set acc \<or> t \<notin> C \<and> t = fst x \<and> 0 < snd x \<and> 120 < now - snd x"
  by (auto simp: note_stalled_def Let_def split: prod.split)

lemma mem_stalled:
  "t \<in> set (fold (note_stalled now C) xs acc) \<longleftrightarrow>
     t \<in> set acc \<or> t \<notin> C \<and> (\<exists>last. (t, last) \<in> set xs \<and> 0 < last \<and> 120 < now - last)"
proof (induction xs arbitrary: acc)
  case (Cons x xs)
  show ?case by (cases x) (auto simp: Cons.IH mem_note_stalled)
qed simp

lemma distinct_stalled: "distinct acc \<Longrightarrow> distinct (fold (note_stalled now C) xs acc)"
proof (induction xs arbitrary: acc)
  case (Cons x xs)
  have "distinct (note_stalled now C x acc)" using Cons.prems by (auto simp: note_stalled_def Let_def split: prod.split)
  then show ?case by (simp add: Cons.IH)
qed simp

definition demo_progress :: svc where
  "demo_progress = demo_svc\<lparr>v_message_counts := [(''artists'', 5), (''labels'', 2), (''release-groups'', 0), (''releases'', 1)],
     v_last_message_time := [(''artists'', 100), (''labels'', 90), (''release-groups'', 0), (''releases'', 400)]\<rparr>"

definition demo_reporter :: reporter where
  "demo_reporter = \<lparr>rp_count = 0, rp_startup = 0, rp_last_idle = 0\<rparr>"

section \<open>Properties\<close>

text \<open>
  C27.  The reporter outlives everything the service does and leaves idle mode for good: started with a
  counter for every data type, every further round returns, whatever deliveries, timers and recoveries
  came in between; and once a record has been processed while reports are running, no later round enters
  or reports idle mode.
\<close>

theorem reporter_stays_alive_and_awake:
  assumes run: "reported_run timeout idle_interval (rp0, v0) c ls" and present: "counters_present v0"
  shows "(\<exists>c' new. progress_round timeout idle_interval now c = Inr (c', new))
    \<and> (traffic_seen v0 \<and> \<not> v_idle_mode v0 \<longrightarrow>
         \<not> v_idle_mode (snd c) \<and> EnteringIdle \<notin> set ls \<and> StillIdle \<notin> set ls \<and> Resuming \<notin> set ls)"
proof -
  have "counters_present (snd c) \<and> (traffic_seen v0 \<longrightarrow> traffic_seen (snd c))
    \<and> (traffic_seen v0 \<and> \<not> v_idle_mode v0 \<longrightarrow>
         \<not> v_idle_mode (snd c) \<and> EnteringIdle \<notin> set ls \<and> StillIdle \<notin> set ls \<and> Resuming \<notin> set ls)"
    using run
  proof (induction rule: reported_run.induct)
    case start
    then show ?case using present by simp
  next
    case (service rp v ls v')
    from service_step_counts [OF service(2)] have "counts_grow v v'" .
    with service(3) show ?case
      using counts_traffic [of v v'] by (auto simp: counts_grow_def counters_present_def)
  next
    case (round rp v ls now c' new)
    obtain rp' v' where c': "c' = (rp', v')" by (cases c')
    from round(3) [unfolded c'] show ?case
    proof (cases rule: progress_round_cases)
      case awake
      with round(4) show ?thesis using report_lines_awake [of timeout now v new] by (auto simp: c')
    qed (use round(4) in \<open>auto simp: c' counters_present_def traffic_seen_def\<close>)
  qed
  then show ?thesis using progress_round_total [of "snd c"] by (cases c) auto
qed

theorem reporter_stays_alive_and_awake_witness:
  "reported_run 30 300 (demo_reporter, demo_progress) (demo_reporter, signal_handler demo_progress) []
     \<and> (\<exists>c' new. progress_round 30 300 500 (demo_reporter, signal_handler demo_progress) = Inr (c', new))
     \<and> \<not> v_idle_mode (signal_handler demo_progress)"
proof -
  have run: "reported_run 30 300 (demo_reporter, demo_progress) (demo_reporter, signal_handler demo_progress) []"
    by (rule reported_run.service [OF reported_run.start service_steps(2)])
  have "counters_present demo_progress" "traffic_seen demo_progress" "\<not> v_idle_mode demo_progress" by code_simp+
  with reporter_stays_alive_and_awake [OF run, of 500] run show ?thesis by (simp add: signal_handler_def)
qed

text \<open>
  A report leaves out no stalled stream and accuses no finished one: the stalled line is written
  exactly when a stream is stalled, and it names, without repetition, the streams of the consumer alarm
  and the incomplete ones that had a record but none for more than two minutes; the total is the sum of
  the counters.
\<close>

theorem report_names_stalled_streams:
  assumes "report_lines timeout now v = Inr lines"
  shows "(Stalled ts \<in> set lines \<longleftrightarrow> ts = stalled_types timeout now v \<and> ts \<noteq> [])
    \<and> distinct (stalled_types timeout now v)
    \<and> (t \<in> set (stalled_types timeout now v) \<longleftrightarrow> t \<in> set (consumer_alarm_types timeout now v)
        \<or> (\<exists>last. (t, last) \<in> set (v_last_message_time v) \<and> 0 < last \<and> 120 < now - last \<and> t \<notin> set (v_completed_files v)))
    \<and> (t \<in> set (stalled_types timeout now v) \<longrightarrow> t \<notin> set (v_completed_files v))
    \<and> (\<exists>parts. Totals (\<Sum>(_, n) \<leftarrow> v_message_counts v. n) parts \<in> set lines
        \<and> map (\<lambda>(_, t, _). t) parts = MUSICBRAINZ_DATA_TYPES)"
proof (intro conjI)
  have alarm: "distinct (consumer_alarm_types timeout now v)" "set (consumer_alarm_types timeout now v) \<inter> set (v_completed_files v) = {}"
    using distinct_data_types by (auto simp: consumer_alarm_types_def Let_def)
  show "Stalled ts \<in> set lines \<longleftrightarrow> ts = stalled_types timeout now v \<and> ts \<noteq> []"
    using assms by (auto simp: report_lines_def activity_lines_def consumer_lines_def Let_def split: if_splits)
  show "distinct (stalled_types timeout now v)"
    unfolding stalled_types_def using alarm(1) by (rule distinct_stalled)
  show mem: "t \<in> set (stalled_types timeout now v) \<longleftrightarrow> t \<in> set (consumer_alarm_types timeout now v)
        \<or> (\<exists>last. (t, last) \<in> set (v_last_message_time v) \<and> 0 < last \<and> 120 < now - last \<and> t \<notin> set (v_completed_files v))"
    unfolding stalled_types_def mem_stalled by blast
  show "t \<in> set (stalled_types timeout now v) \<longrightarrow> t \<notin> set (v_completed_files v)"
    unfolding mem using alarm(2) by blast
  from assms obtain parts where parts: "rmap (progress_part v) MUSICBRAINZ_DATA_TYPES = Inr parts"
    and total: "Totals (total_processed v) parts \<in> set lines"
    by (auto simp: report_lines_def Let_def reported_types)
  have "rmap (progress_part v) xs = Inr ps \<Longrightarrow> map (\<lambda>(_, t, _). t) ps = xs" for xs ps
    by (induction xs arbitrary: ps) (auto simp: progress_part_def split: option.splits)
  from this [OF parts] total
  show "\<exists>parts. Totals (\<Sum>(_, n) \<leftarrow> v_message_counts v. n) parts \<in> set lines \<and> map (\<lambda>(_, t, _). t) parts = MUSICBRAINZ_DATA_TYPES"
    by (auto simp: total_processed_def case_prod_unfold)
qed

theorem report_names_stalled_streams_witness:
  "\<exists>lines. report_lines 30 500 demo_progress = Inr lines \<and> Stalled [''artists''] \<in> set lines"
proof -
  have "\<not> isl (report_lines 30 500 demo_progress)" by code_simp
  then obtain lines where run: "report_lines 30 500 demo_progress = Inr lines"
    by (cases "report_lines 30 500 demo_progress") auto
  have "stalled_types 30 500 demo_progress = [''artists'']" by code_simp
  with report_names_stalled_streams [OF run, of "[''artists'']"] run show ?thesis by auto
qed

end
