(* ===== verification/Redelivery.thy ===== *)
theory Redelivery
  imports Delivery
begin

text \<open>
  Delivery is at least once: the broker may hand out a message again after its transaction committed.  What a
  second delivery of the same record does to the two child tables: the statements of
  \<open>_persistence.py\<close> (\<open>RELATIONSHIP_UPSERTS\<close>, \<open>EXTERNAL_LINK_UPSERTS\<close>) through the whole handler.
\<close>

section \<open>Upserting the same rows twice\<close>

text \<open>
  A keyed table whose merge keeps only what the last row of a key brings: merging is absorbed by a later merge, and a
  row merged with itself stays.  Its upserts, sent again as one batch, change nothing.
\<close>

locale settling_table = keyed_table +
  assumes absorb: "key x = key r \<Longrightarrow> key y = key r \<Longrightarrow> merge (merge r x) y = merge r y"
    and self: "merge x x = x"
begin

lemma key_merge: "key x = key r \<Longrightarrow> key (merge r x) = key r"
  using merge_key [of r x] by simp

abbreviation upserts :: "'a list \<Rightarrow> 'a list \<Rightarrow> 'a list" where
  "upserts \<equiv> fold (upsert_row key merge)"

abbreviation of_key :: "'b \<Rightarrow> 'a list \<Rightarrow> 'a list" where
  "of_key k \<equiv> filter (\<lambda>x. key x = k)"

abbreviation merges :: "'a list \<Rightarrow> 'a \<Rightarrow> 'a" where
  "merges \<equiv> fold (\<lambda>x r. merge r x)"

lemma upserts_keys: "key ` set (upserts rows t) = key ` set rows \<union> key ` set t"
proof (induction rows arbitrary: t)
  case (Cons x rows)
  have "key ` set (upsert_row key merge x t) = set (map key (upsert_row key merge x t))" by simp
  also have "\<dots> = insert (key x) (key ` set t)" unfolding map_key_upsert by auto
  finally show ?case using Cons by auto
qed simp

lemma upserts_present:
  "key ` set rows \<subseteq> key ` set t \<Longrightarrow> upserts rows t = map (\<lambda>r. merges (of_key (key r) rows) r) t"
proof (induction rows arbitrary: t)
  case (Cons x rows)
  let ?m = "\<lambda>r. if key r = key x then merge r x else r"
  have k: "key (?m r) = key r" for r using key_merge [of x r] by simp
  then have "key ` set (map ?m t) = key ` set t" by (simp only: set_map image_image)
  with Cons have "upserts rows (map ?m t) = map (\<lambda>r. merges (of_key (key r) rows) r) (map ?m t)" by simp
  moreover have "upsert_row key merge x t = map ?m t" using Cons.prems by (simp add: upsert_row_def)
  ultimately show ?case using k by (auto simp: eq_commute)
qed simp

lemma upsert_mem:
  "r \<in> set (upsert_row key merge x t) \<Longrightarrow>
     (\<exists>q \<in> set t. key q = key x \<and> r = merge q x) \<or> r \<in> set t \<and> key r \<noteq> key x \<or> r = x"
  by (cases "key x \<in> key ` set t") (auto simp: upsert_row_def image_iff split: if_splits)

lemma merges_last: "xs \<noteq> [] \<Longrightarrow> (\<forall>x \<in> set xs. key x = key r) \<Longrightarrow> merges xs r = merge r (last xs)"
proof (induction xs arbitrary: r)
  case (Cons x xs)
  show ?case
  proof (cases "xs = []")
    case False
    with Cons have "merges xs (merge r x) = merge (merge r x) (last xs)" by (intro Cons.IH) (auto simp: key_merge)
    also have "\<dots> = merge r (last xs)" using Cons.prems False by (intro absorb) auto
    finally show ?thesis using False by simp
  qed simp
qed simp

lemma upserts_settled:
  "r \<in> set (upserts rows t) \<Longrightarrow> of_key (key r) rows \<noteq> [] \<Longrightarrow> merge r (last (of_key (key r) rows)) = r"
proof (induction rows arbitrary: r rule: rev_induct)
  case (snoc x rows)
  let ?t = "upserts rows t"
  from snoc.prems(1) have "r \<in> set (upsert_row key merge x ?t)" by simp
  from upsert_mem [OF this] consider q where "q \<in> set ?t" "key q = key x" "r = merge q x" | "r \<in> set ?t" "key r \<noteq> key x" | "r = x"
    by blast
  then show ?case
  proof cases
    case (1 q)
    then have "key r = key x" using key_merge [of x q] by simp
    with 1 show ?thesis by (simp add: absorb)
  next
    case 2
    with snoc.IH [OF 2(1)] snoc.prems(2) show ?thesis by simp
  next
    case 3
    then show ?thesis by (simp add: self)
  qed
qed simp

lemma upserts_idempotent: "upserts rows (upserts rows t) = upserts rows t"
proof -
  have "merges (of_key (key r) rows) r = r" if r: "r \<in> set (upserts rows t)" for r
  proof (cases "of_key (key r) rows = []")
    case False
    have "merges (of_key (key r) rows) r = merge r (last (of_key (key r) rows))" by (rule merges_last [OF False]) simp
    also have "\<dots> = r" by (rule upserts_settled [OF r False])
    finally show ?thesis .
  qed simp
  then have "map (\<lambda>r. merges (of_key (key r) rows) r) (upserts rows t) = map (\<lambda>r. r) (upserts rows t)" by (rule map_cong [OF refl])
  moreover have "key ` set rows \<subseteq> key ` set (upserts rows t)" by (simp add: upserts_keys)
  ultimately show ?thesis by (simp add: upserts_present)
qed

end

text \<open>A view of the rows under which two ways to merge agree.\<close>

lemma map_upsert:
  assumes "\<And>r. key (view r) = key r" and "\<And>r x. view (merge r x) = merge' (view r) (view x)"
  shows "map view (upsert_row key merge x t) = upsert_row key merge' (view x) (map view t)"
  by (auto simp: upsert_row_def assms o_def)

lemma map_fold_upsert:
  assumes "\<And>r. key (view r) = key r" and "\<And>r x. view (merge r x) = merge' (view r) (view x)"
  shows "map view (fold (upsert_row key merge) rows t) = fold (upsert_row key merge') (map view rows) (map view t)"
  by (induction rows arbitrary: t) (simp_all add: map_upsert [of key view merge merge', OF assms])

section \<open>The child rows without their timestamps\<close>

definition rel_content :: "rel_row \<Rightarrow> rel_row" where
  "rel_content r = r\<lparr>rel_updated_at := 0\<rparr>"

definition link_content :: "link_row \<Rightarrow> link_row" where
  "link_content l = l\<lparr>link_updated_at := 0\<rparr>"

abbreviation rel_merge_content :: "rel_row \<Rightarrow> rel_row \<Rightarrow> rel_row" where
  "rel_merge_content old new \<equiv> old\<lparr>rel_ended := rel_ended new\<rparr>"

abbreviation link_merge_content :: "link_row \<Rightarrow> link_row \<Rightarrow> link_row" where
  "link_merge_content old new \<equiv> old\<lparr>link_url := link_url new\<rparr>"

lemma rel_content_upserts:
  "map rel_content (fold (upsert_row (rel_key p) (rel_merge refresh now)) rows t) =
     fold (upsert_row (rel_key p) rel_merge_content) (map rel_content rows) (map rel_content t)"
  by (rule map_fold_upsert) (simp_all add: rel_content_def rel_key_def rel_merge_def)

lemma link_content_upserts:
  "map link_content (fold (upsert_row link_key (link_merge refresh now)) rows t) =
     fold (upsert_row link_key link_merge_content) (map link_content rows) (map link_content t)"
  by (rule map_fold_upsert) (simp_all add: link_content_def link_key_def link_merge_def)

interpretation rels_c: settling_table "rel_key p" rel_merge_content for p
  by unfold_locales (simp_all add: rel_key_def)

interpretation links_c: settling_table link_key link_merge_content
  by unfold_locales (simp_all add: link_key_def)

text \<open>The server's clock is read into the timestamps only.\<close>

lemma rel_key_clock: "rel_key (p\<lparr>pg_now := now\<rparr>) = rel_key p"
  by (simp add: rel_key_def fun_eq_iff)

lemma rel_row_clock: "rel_content (rel_row_of (p\<lparr>pg_now := now\<rparr>) v) = rel_content (rel_row_of p v)"
  by (simp add: rel_content_def rel_row_of_def)

lemma link_row_clock: "link_content (link_row_of (p\<lparr>pg_now := now\<rparr>) v) = link_content (link_row_of p v)"
  by (simp add: link_content_def link_row_of_def)

section \<open>A record through the handler\<close>

text \<open>What any delivery of a record does to the child tables: nothing, or the upserts of the rows it states.\<close>

lemma record_delivery_tables:
  fixes v v' :: "'z svc_scheme"
  assumes load: "se_loads e body = Inr (JObj data)" and rec: "is_record data"
    and run: "on_data_message e auth headers body t v = (r, v')"
  shows "s_db v' = s_db v \<and> (documented auth \<longrightarrow> dr_settlement r \<noteq> ACK)
    \<or> (\<exists>rels links. rels_of (child_kind t) data = Inr rels \<and> links_of (child_kind t) data = Inr links
        \<and> db_relationships (s_db v') = fold (upsert_row (rel_key (e_pg (se_env e)))
            (rel_merge (refreshing (se_env e)) (pg_now (e_pg (se_env e))))) (map (rel_row_of (e_pg (se_env e))) rels) (db_relationships (s_db v))
        \<and> db_external_links (s_db v') = fold (upsert_row link_key (link_merge (refreshing (se_env e)) (pg_now (e_pg (se_env e)))))
            (map (link_row_of (e_pg (se_env e))) links) (db_external_links (s_db v)))"
proof (cases "v_shutdown v")
  case True
  with run show ?thesis by (auto simp: on_data_message_def)
next
  case False
  from on_data_message_run [OF False run] obtain outcome w where h: "handle_data_message e body t v = (outcome, w)"
    and r: "r = auth (classifier (se_permanent e) (broker_handouts headers)) outcome" and db: "s_db v' = s_db w" by blast
  then have "handle_record e t data v = (outcome, w)" using handle_record_message [OF load rec, of t v] by simp
  from handle_record_cases [OF this] show ?thesis
  proof (elim disjE exE conjE)
    fix f and u u2 :: "'z svc_scheme"
    assume f: "PROCESSORS (se_env e) t = Some f" "f data u = (Inr (), u2)" and u: "s_db u = s_db v" "s_db w = s_db u2"
    from f show ?thesis by (rule processor_child_tables) (auto simp: db u)
  next
    assume keep: "s_db w = s_db v" and no: "\<forall>d. outcome = Inr d \<longrightarrow> dr_settlement d = REJECT"
    have "dr_settlement r \<noteq> ACK" if doc: "documented auth"
    proof
      assume ack: "dr_settlement r = ACK"
      then have "outcome = Inr r" using documented_ACK [OF doc] r by blast
      with no ack show False by simp
    qed
    with keep db show ?thesis by simp
  qed
qed

lemma acked_record_tables:
  fixes v v' :: "'z svc_scheme"
  assumes "documented auth" and "se_loads e body = Inr (JObj data)" and "is_record data"
    and "on_data_message e auth headers body t v = (r, v')" and "dr_settlement r = ACK"
  obtains rels links where "rels_of (child_kind t) data = Inr rels" and "links_of (child_kind t) data = Inr links"
    and "db_relationships (s_db v') = fold (upsert_row (rel_key (e_pg (se_env e)))
            (rel_merge (refreshing (se_env e)) (pg_now (e_pg (se_env e))))) (map (rel_row_of (e_pg (se_env e))) rels) (db_relationships (s_db v))"
    and "db_external_links (s_db v') = fold (upsert_row link_key (link_merge (refreshing (se_env e)) (pg_now (e_pg (se_env e)))))
            (map (link_row_of (e_pg (se_env e))) links) (db_external_links (s_db v))"
  using record_delivery_tables [OF assms(2-4)] assms(1,5) by blast

text \<open>The same service environment when the server's clock reads another time.\<close>

definition at_clock :: "timestamp \<Rightarrow> senv \<Rightarrow> senv" where
  "at_clock now e = e\<lparr>se_env := (se_env e)\<lparr>e_pg := (e_pg (se_env e))\<lparr>pg_now := now\<rparr>\<rparr>\<rparr>"

lemma at_clock_simps [simp]:
  "se_loads (at_clock now e) = se_loads e" "refreshing (se_env (at_clock now e)) = refreshing (se_env e)"
  "e_pg (se_env (at_clock now e)) = (e_pg (se_env e))\<lparr>pg_now := now\<rparr>"
  by (simp_all add: at_clock_def)

text \<open>A delivery with one external link, which the running service settles.\<close>

definition demo_linked :: senv where
  "demo_linked = demo_senv\<lparr>se_loads := (\<lambda>b. Inr (JObj [(''id'', JStr b),
     (''external_links'', JList [JObj [(''service'', JStr ''wikidata''), (''url'', JStr ''u'')]])]))\<rparr>"

abbreviation demo_linked_data :: obj where
  "demo_linked_data \<equiv> [(''id'', JStr ''00000000000000000000000000000000''),
     (''external_links'', JList [JObj [(''service'', JStr ''wikidata''), (''url'', JStr ''u'')]])]"

lemma demo_linked_record:
  "se_loads demo_linked ''00000000000000000000000000000000'' = Inr (JObj demo_linked_data)" "is_record demo_linked_data"
  by (simp add: demo_linked_def del: list.inject) code_simp

lemma demo_linked_one_link:
  "\<exists>l. links_of (child_kind ''artists'') demo_linked_data = Inr [l]"
proof -
  have "map_sum id length (links_of (child_kind ''artists'') demo_linked_data) = Inr 1" by code_simp
  then show ?thesis by (cases "links_of (child_kind ''artists'') demo_linked_data") (auto simp: length_Suc_conv)
qed

lemma demo_linked_delivery:
  "\<exists>v1. on_data_message demo_linked simple_authority JNull ''00000000000000000000000000000000'' ''artists'' demo_svc
      = (ack ''processed'', v1) \<and> db_external_links (s_db v1) \<noteq> []"
proof -
  let ?i = "''00000000000000000000000000000000''"
  have up: "\<not> v_shutdown demo_svc" "v_pool demo_svc" "v_admission demo_svc" by (simp_all add: demo_svc_def)
  have id: "map_of demo_linked_data ''id'' = Some (JStr ?i)" by simp
  have n: "map_of (v_message_counts demo_svc) ''artists'' = Some 5" by (simp add: demo_svc_def)
  have uuid: "valid_uuid (JStr ?i)" by code_simp
  have env: "se_env demo_linked = demo_env 9" by (simp add: demo_linked_def demo_senv_def)
  have f: "PROCESSORS (se_env demo_linked) ''artists'' = Some (process_artist (se_env demo_linked))"
    by (simp add: PROCESSORS_def)
  have ok: "no_faults (e_pg (se_env demo_linked))" "lib_total (e_lib (se_env demo_linked))"
    using demo_ok by (simp_all add: env)
  have "\<not> isl (rels_of ''artist'' demo_linked_data)" by code_simp
  then have shape: "well_shaped (e_lib (se_env demo_linked)) ''artists'' demo_linked_data"
    using demo_linked_one_link by (auto simp: well_shaped_def child_kind_def record_mbid_def)
  from good_record_settles [OF simple_authority_documented demo_linked_record up id uuid f ok shape n, where headers = JNull]
  obtain v1 where run: "on_data_message demo_linked simple_authority JNull ?i ''artists'' demo_svc = (ack ''processed'', v1)" by blast
  have "dr_settlement (ack ''processed'') = ACK" by (simp add: ack_def)
  from acked_record_tables [OF simple_authority_documented demo_linked_record run this] obtain links
    where links: "links_of (child_kind ''artists'') demo_linked_data = Inr links"
      and t: "db_external_links (s_db v1) = fold (upsert_row link_key (link_merge (refreshing (se_env demo_linked)) (pg_now (e_pg (se_env demo_linked)))))
            (map (link_row_of (e_pg (se_env demo_linked))) links) (db_external_links (s_db demo_svc))" .
  from links demo_linked_one_link obtain l where "links = [l]" by auto
  with t have "db_external_links (s_db v1) \<noteq> []" by (auto simp: upsert_row_def)
  with run show ?thesis by blast
qed

text \<open>
  C3.  At-least-once delivery is safe: a message that is handed out again after its transaction committed (the
  acknowledgement was lost, or another worker consumed a copy) leaves every relationship and every external link
  exactly as the first delivery left it, apart from the timestamps, whatever the second delivery's clock and however it ends.
\<close>

theorem redelivery_changes_only_timestamps:
  fixes v v1 v2 v3 :: "'z svc_scheme"
  assumes doc: "documented auth" and load: "se_loads e body = Inr (JObj data)" and rec: "is_record data"
    and run: "on_data_message e auth headers body t v = (r, v1)" and ack: "dr_settlement r = ACK"
    and same: "s_db v2 = s_db v1" and again: "on_data_message (at_clock now e) auth headers' body t v2 = (r', v3)"
  shows "map rel_content (db_relationships (s_db v3)) = map rel_content (db_relationships (s_db v1))
    \<and> map link_content (db_external_links (s_db v3)) = map link_content (db_external_links (s_db v1))"
proof -
  let ?p = "e_pg (se_env e)"
  have rows: "map (rel_content \<circ> rel_row_of (?p\<lparr>pg_now := now\<rparr>)) xs = map (rel_content \<circ> rel_row_of ?p) xs"
    "map (link_content \<circ> link_row_of (?p\<lparr>pg_now := now\<rparr>)) ys = map (link_content \<circ> link_row_of ?p) ys" for xs ys
    by (simp_all add: rel_row_clock link_row_clock)
  from doc load rec run ack obtain rels links
    where rl: "rels_of (child_kind t) data = Inr rels" "links_of (child_kind t) data = Inr links"
      and t1: "db_relationships (s_db v1) = fold (upsert_row (rel_key ?p) (rel_merge (refreshing (se_env e)) (pg_now ?p)))
          (map (rel_row_of ?p) rels) (db_relationships (s_db v))"
        "db_external_links (s_db v1) = fold (upsert_row link_key (link_merge (refreshing (se_env e)) (pg_now ?p)))
          (map (link_row_of ?p) links) (db_external_links (s_db v))" by (rule acked_record_tables)
  have "se_loads (at_clock now e) body = Inr (JObj data)" using load by simp
  from record_delivery_tables [OF this rec again] rl consider "s_db v3 = s_db v1"
    | "db_relationships (s_db v3) = fold (upsert_row (rel_key ?p) (rel_merge (refreshing (se_env e)) now))
          (map (rel_row_of (?p\<lparr>pg_now := now\<rparr>)) rels) (db_relationships (s_db v1))"
      "db_external_links (s_db v3) = fold (upsert_row link_key (link_merge (refreshing (se_env e)) now))
          (map (link_row_of (?p\<lparr>pg_now := now\<rparr>)) links) (db_external_links (s_db v1))"
    by (auto simp: same rel_key_clock)
  then show ?thesis
  proof cases
    case 2
    have "map rel_content (db_relationships (s_db v3)) = map rel_content (db_relationships (s_db v1))"
      by (simp only: 2 t1 rel_content_upserts list.map_comp rows rels_c.upserts_idempotent)
    moreover have "map link_content (db_external_links (s_db v3)) = map link_content (db_external_links (s_db v1))"
      by (simp only: 2 t1 link_content_upserts list.map_comp rows links_c.upserts_idempotent)
    ultimately show ?thesis ..
  qed simp
qed

theorem redelivery_changes_only_timestamps_witness:
  "\<exists>v1 r' v3. on_data_message demo_linked simple_authority JNull ''00000000000000000000000000000000'' ''artists'' demo_svc
       = (ack ''processed'', v1)
     \<and> on_data_message (at_clock 20 demo_linked) simple_authority JNull ''00000000000000000000000000000000'' ''artists'' v1 = (r', v3)
     \<and> db_external_links (s_db v1) \<noteq> []
     \<and> map link_content (db_external_links (s_db v3)) = map link_content (db_external_links (s_db v1))"
proof -
  from demo_linked_delivery obtain v1 where
    run: "on_data_message demo_linked simple_authority JNull ''00000000000000000000000000000000'' ''artists'' demo_svc = (ack ''processed'', v1)"
    and links: "db_external_links (s_db v1) \<noteq> []" by blast
  obtain r' v3 where again: "on_data_message (at_clock 20 demo_linked) simple_authority JNull
      ''00000000000000000000000000000000'' ''artists'' v1 = (r', v3)" by fastforce
  have ack: "dr_settlement (ack ''processed'') = ACK" by (simp add: ack_def)
  from redelivery_changes_only_timestamps [OF simple_authority_documented demo_linked_record run ack refl again] run again links
  show ?thesis by blast
qed

end
