(* ===== verification/Interleaving.thy ===== *)
theory Interleaving
  imports Consumers
begin

text \<open>
  Reconciliations cut at their awaits (\<open>_handle_data_message\<close>, \<open>_reconcile_deleted_child_rows\<close>,
  \<open>_settle_purge_veto\<close>, \<open>StaleChildRowPurge.purge\<close>).

  With a prefetch above one, other deliveries run while an \<open>extraction_complete\<close> waits for the broker or the
  database.  A reconciliation in progress is a \<open>recon\<close> with the place it waits at; between two of its segments
  anything may happen.  Two of the cuts are finer than the code's: before the pool is looked up and before
  \<open>purge()\<close> it does not wait, so what holds for every interleaving here holds for the program's.  A purge
  transaction is one segment: its statements see the tables under the isolation of the database, which is
  not modelled further.
\<close>

section \<open>Segments\<close>

text \<open>
  \<open>Asking ts\<close>: the dead-letter queues still to be asked; \<open>Reading\<close> and \<open>Writing\<close>: before the recorded vetoes are
  read and before the names of all of them are recorded; \<open>Deciding\<close>: before \<open>purge()\<close>; \<open>Purging b\<close>: in its transaction, with the
  boundary it captured; \<open>Reporting\<close>; \<open>Decided ok\<close>: what \<open>_reconcile_deleted_child_rows\<close> returned.
\<close>

datatype phase = Asking "string list" | Reading | Writing "string list" | Deciding | Purging timestamp | Reporting | Decided bool

record waiting_recon =
  rc_type :: string
  rc_data :: obj
  rc_phase :: phase

text \<open>From the arrival of the signal to its first await.\<close>

definition begin_recon :: "senv \<Rightarrow> string \<Rightarrow> obj \<Rightarrow> 'z svc_scheme \<Rightarrow> phase \<times> 'z svc_scheme" where
  "begin_recon e data_type data v =
     (let v1 = snd (complete data_type (pop_timer data_type v)) in
      case v_purge v1 of
        None \<Rightarrow> (Decided True, v1)
      | Some pu \<Rightarrow>
          let pu' = record_completion (se_fromiso e) data_type data pu; v2 = v1\<lparr>v_purge := Some pu'\<rparr>
          in if \<not> is_latched pu' then (Decided True, v2)
             else if is_settled pu' then (Deciding, v2)
             else (Asking (sorted_distinct (sp_expected_data_types pu')), v2))"

definition mark_if_waiting :: "senv \<Rightarrow> string \<Rightarrow> 'z svc_scheme \<Rightarrow> 'z svc_scheme" where
  "mark_if_waiting e t v = (if holds_dead_letters e v t then snd (update_purge (record_dead_letter t) v) else v)"

definition read_vetoes :: "senv \<Rightarrow> obj \<Rightarrow> 'z svc_scheme \<Rightarrow> phase \<times> 'z svc_scheme" where
  "read_vetoes e data v = (case data_key e data of
     None \<Rightarrow> (Deciding, v)
   | Some version \<Rightarrow>
       if \<not> v_pool v then (Deciding, v)
       else if \<not> v_admission v then (Decided False, v)
       else (case recorded_vetoes (e_pg (se_env e)) version v of
         (Inl _, v') \<Rightarrow> (Decided False, v')
       | (Inr vetoing, v') \<Rightarrow>
           (let v2 = snd (update_purge (fold record_dead_letter vetoing) v') in (Writing (dead_lettered_now v2), v2))))"

definition write_vetoes :: "senv \<Rightarrow> obj \<Rightarrow> string list \<Rightarrow> 'z svc_scheme \<Rightarrow> phase \<times> 'z svc_scheme" where
  "write_vetoes e data names v = (case data_key e data of
     None \<Rightarrow> (Deciding, v)
   | Some version \<Rightarrow> (case record_extraction (e_pg (se_env e)) version names v of
       (Inl _, v') \<Rightarrow> (Decided False, v')
     | (Inr _, v') \<Rightarrow> (Deciding, v')))"

definition decide :: "'z svc_scheme \<Rightarrow> phase \<times> 'z svc_scheme" where
  "decide v = (case v_purge v of
     None \<Rightarrow> (Reporting, v)
   | Some pu \<Rightarrow> (case veto_reason pu of
       Some _ \<Rightarrow> (Reporting, v\<lparr>v_purge := Some (if is_latched pu then settle (sp_boundary pu) pu else pu)\<rparr>)
     | None \<Rightarrow> (case sp_boundary pu of
         None \<Rightarrow> (Reporting, v)
       | Some boundary \<Rightarrow> if \<not> sp_admission pu then (Decided False, v) else (Purging boundary, v))))"

definition run_transaction :: "senv \<Rightarrow> timestamp \<Rightarrow> 'z svc_scheme \<Rightarrow> phase \<times> 'z svc_scheme" where
  "run_transaction e boundary v = (case v_purge v of
     None \<Rightarrow> (Reporting, v)
   | Some pu \<Rightarrow>
       (case transaction (e_pg (se_env e)) (purge_tables (e_pg (se_env e)) (sp_max_delete_fraction pu) boundary (sp_tables pu)) v of
         (Inl _, v') \<Rightarrow> (Decided False, v')
       | (Inr _, v') \<Rightarrow> (Reporting, snd (update_purge (settle (Some boundary)) v'))))"

fun recon_segment :: "senv \<Rightarrow> obj \<Rightarrow> phase \<times> 'z svc_scheme \<Rightarrow> phase \<times> 'z svc_scheme" where
  "recon_segment e data (Asking [], v) = (Reading, v)"
| "recon_segment e data (Asking (t # ts), v) = (Asking ts, mark_if_waiting e t v)"
| "recon_segment e data (Reading, v) = read_vetoes e data v"
| "recon_segment e data (Writing names, v) = write_vetoes e data names v"
| "recon_segment e data (Deciding, v) = decide v"
| "recon_segment e data (Purging boundary, v) = run_transaction e boundary v"
| "recon_segment e data (Reporting, v) = (Decided True, snd (report_purge_vetoes e (logged BackoffReset v)))"
| "recon_segment e data (Decided ok, v) = (Decided ok, v)"

text \<open>What the handler does with the answer.\<close>

definition finish_recon :: "senv \<Rightarrow> string \<Rightarrow> bool \<Rightarrow> ('z svc_scheme, delivery_result) eff" where
  "finish_recon e data_type ok =
     (if \<not> ok then andthen (withdraw data_type) (raise reconciliation_failed)
      else andthen (arm_timer e data_type) (ret (ack ''skipped'')))"

section \<open>Interleavings\<close>

text \<open>The decisions \<open>purge()\<close> takes, in their order.\<close>

datatype decision = Vetoes veto | Purges timestamp

definition decision_of :: "phase \<Rightarrow> 'z svc_scheme \<Rightarrow> decision list" where
  "decision_of ph v = (if ph \<noteq> Deciding then [] else case v_purge v of
     None \<Rightarrow> []
   | Some pu \<Rightarrow> (case veto_reason pu of
       Some w \<Rightarrow> [Vetoes w]
     | None \<Rightarrow> (case sp_boundary pu of Some b \<Rightarrow> if sp_admission pu then [Purges b] else [] | None \<Rightarrow> [])))"

definition is_completion :: "senv \<Rightarrow> string \<Rightarrow> bool" where
  "is_completion e body = (case se_loads e body of
     Inr (JObj data) \<Rightarrow> get_none data ''type'' = JStr ''extraction_complete'' | _ \<Rightarrow> False)"

text \<open>
  One step of the service with the reconciliations in progress: a signal arrives, one of them runs a
  segment or ends, or something else happens: another delivery or the background.
\<close>

inductive inter_step :: "waiting_recon list \<times> 'z svc_scheme \<Rightarrow> decision list \<Rightarrow> waiting_recon list \<times> 'z svc_scheme \<Rightarrow> bool" where
  signal: "begin_recon e t data v = (ph, v') \<Longrightarrow> inter_step (rs, v) [] (rs @ [\<lparr>rc_type = t, rc_data = data, rc_phase = ph\<rparr>], v')"
| segment: "i < length rs \<Longrightarrow> recon_segment e (rc_data (rs ! i)) (rc_phase (rs ! i), v) = (ph, v')
    \<Longrightarrow> inter_step (rs, v) (decision_of (rc_phase (rs ! i)) v) (rs[i := (rs ! i)\<lparr>rc_phase := ph\<rparr>], v')"
| finish: "i < length rs \<Longrightarrow> rc_phase (rs ! i) = Decided ok \<Longrightarrow> finish_recon e (rc_type (rs ! i)) ok v = (r, v')
    \<Longrightarrow> inter_step (rs, v) [] (take i rs @ drop (Suc i) rs, v')"
| delivery: "\<not> is_completion e body \<Longrightarrow> data_handler e auth admission headers body t v = (r, v')
    \<Longrightarrow> inter_step (rs, v) [] (rs, v')"
| background: "background_step v v' \<Longrightarrow> inter_step (rs, v) [] (rs, v')"

inductive inter_run :: "waiting_recon list \<times> 'z svc_scheme \<Rightarrow> decision list \<Rightarrow> waiting_recon list \<times> 'z svc_scheme \<Rightarrow> bool"
  for c where
  start: "inter_run c [] c"
| more: "inter_run c ds c' \<Longrightarrow> inter_step c' new c'' \<Longrightarrow> inter_run c (ds @ new) c''"

section \<open>A reconciliation that is not interrupted\<close>

definition reaches :: "senv \<Rightarrow> obj \<Rightarrow> phase \<times> 'z svc_scheme \<Rightarrow> phase \<times> 'z svc_scheme \<Rightarrow> bool" where
  "reaches e data c c' \<longleftrightarrow> (\<exists>n. (recon_segment e data ^^ n) c = c')"

lemma reaches_refl [simp]: "reaches e data c c"
  unfolding reaches_def by (rule exI [of _ 0]) simp

lemma reaches_step: "reaches e data (recon_segment e data c) c'' \<Longrightarrow> reaches e data c c''"
proof -
  assume "reaches e data (recon_segment e data c) c''"
  then obtain n where "(recon_segment e data ^^ n) (recon_segment e data c) = c''" by (auto simp: reaches_def)
  then have "(recon_segment e data ^^ Suc n) c = c''" by (simp only: funpow_Suc_right comp_apply)
  then show ?thesis unfolding reaches_def by blast
qed

lemma reaches_two: "recon_segment e data c = c' \<Longrightarrow> recon_segment e data c' = c'' \<Longrightarrow> reaches e data c c''"
  by (rule reaches_step, rule reaches_step) simp

lemma asking_reaches:
  assumes "v_purge v = Some pu"
    and "reaches e data (Reading, v\<lparr>v_purge := Some (fold (\<lambda>t pu. if holds_dead_letters e v t then record_dead_letter t pu else pu) ts pu)\<rparr>) c"
  shows "reaches e data (Asking ts, v) c"
  using assms
proof (induction ts arbitrary: v pu)
  case Nil
  then have "v\<lparr>v_purge := Some pu\<rparr> = v" by simp
  with Nil show ?case by - (rule reaches_step, simp)
next
  case (Cons t ts)
  let ?pu = "if holds_dead_letters e v t then record_dead_letter t pu else pu"
  let ?v = "v\<lparr>v_purge := Some ?pu\<rparr>"
  have "mark_if_waiting e t v = ?v"
    using Cons.prems by (simp add: mark_if_waiting_def update_purge_def)
  moreover have "holds_dead_letters e ?v = holds_dead_letters e v"
    by (rule ext) (simp add: holds_dead_letters_def dead_letters_waiting_def)
  then have "reaches e data (Asking ts, ?v) c"
    using Cons.prems(2) by (intro Cons.IH [of _ ?pu]) simp_all
  ultimately show ?case by - (rule reaches_step, simp)
qed

text \<open>The deciding segment, the transaction and the report are \<open>run_purge\<close> and what follows it.\<close>

lemma deciding_reaches:
  assumes "run_purge e v = (r, v')"
  shows "reaches e data (Deciding, v) ((if isl r then Decided False else Reporting), v')"
proof (cases "v_purge v")
  case None
  with assms show ?thesis by - (rule reaches_step, auto simp: run_purge_def decide_def ret_def)
next
  case (Some pu)
  note pu = Some
  show ?thesis
  proof (cases "veto_reason pu")
    case (Some w)
    with assms pu show ?thesis
      by - (rule reaches_step, auto simp: run_purge_def decide_def purge_def bnd_def ret_def update_purge_def modify_def)
  next
    case None
    then obtain b where b: "sp_boundary pu = Some b" using no_veto_latched by (auto simp: is_latched_def)
    let ?p = "e_pg (se_env e)"
    let ?tx = "transaction ?p (purge_tables ?p (sp_max_delete_fraction pu) b (sp_tables pu))"
    show ?thesis
    proof (cases "sp_admission pu")
      case False
      with assms pu None b show ?thesis
        by - (rule reaches_step, auto simp: run_purge_def decide_def purge_def bnd_def raise_def)
    next
      case True
      obtain q v1 where tx: "?tx v = (q, v1)" by fastforce
      have "v_purge v1 = Some pu"
        using keepsD [OF transaction_same_globals [OF purge_tables_globals] tx] pu by (simp add: same_globalsD(1))
      with assms pu None b True tx have r: "r = map_sum id (\<lambda>_. ()) q"
        and v': "v' = (if isl q then v1 else v1\<lparr>v_purge := Some (settle (Some b) pu)\<rparr>)"
        by (auto simp: run_purge_def purge_def bnd_def ret_def update_purge_def modify_def split: sum.splits)
      have "recon_segment e data (Deciding, v) = (Purging b, v)"
        using pu None b True by (simp add: decide_def)
      moreover have "recon_segment e data (Purging b, v) = ((if isl r then Decided False else Reporting), v')"
        using pu tx r v' \<open>v_purge v1 = Some pu\<close>
        by (cases q) (simp_all add: run_transaction_def update_purge_def modify_def)
      ultimately show ?thesis by (rule reaches_two)
    qed
  qed
qed

lemma reaches_trans: "reaches e data c c' \<Longrightarrow> reaches e data c' c'' \<Longrightarrow> reaches e data c c''"
proof -
  assume "reaches e data c c'" and "reaches e data c' c''"
  then obtain n m where "(recon_segment e data ^^ n) c = c'" and "(recon_segment e data ^^ m) c' = c''"
    by (auto simp: reaches_def)
  then have "(recon_segment e data ^^ (m + n)) c = c''" by (simp add: funpow_add)
  then show ?thesis unfolding reaches_def by blast
qed

text \<open>What follows the dead-letter queues in \<open>settle_purge_veto\<close>.\<close>

definition recorded_part :: "senv \<Rightarrow> obj \<Rightarrow> ('z svc_scheme, unit) eff" where
  "recorded_part e data = (case data_key e data of
           None \<Rightarrow> ret ()
         | Some version \<Rightarrow> bnd get_state (\<lambda>v.
             if \<not> v_pool v then ret ()
             else if \<not> v_admission v then raise database_unavailable
             else bnd (recorded_vetoes (e_pg (se_env e)) version) (\<lambda>vetoing.
               andthen (update_purge (fold record_dead_letter vetoing))
               (bnd get_state (\<lambda>v. record_extraction (e_pg (se_env e)) version (dead_lettered_now v))))))"

lemma settle_purge_veto_parts:
  "v_purge v = Some pu \<Longrightarrow> \<not> is_settled pu \<Longrightarrow>
     settle_purge_veto e data v = recorded_part e data (v\<lparr>v_purge := Some (mark_waiting e v pu)\<rparr>)"
  by (simp add: settle_purge_veto_def recorded_part_def update_purge_def bnd_def split: option.split)

lemma reading_reaches:
  assumes "recorded_part e data v = (r, v')"
  shows "reaches e data (Reading, v) ((if isl r then Decided False else Deciding), v')"
proof (cases "data_key e data")
  case None
  with assms show ?thesis by - (rule reaches_step, auto simp: recorded_part_def read_vetoes_def ret_def)
next
  case (Some version)
  note key = Some
  show ?thesis
  proof (cases "v_pool v \<and> v_admission v")
    case False
    with assms key show ?thesis
      by - (rule reaches_step, auto simp: recorded_part_def read_vetoes_def ret_def raise_def split: if_splits)
  next
    case True
    obtain q v1 where q: "recorded_vetoes (e_pg (se_env e)) version v = (q, v1)" by fastforce
    show ?thesis
    proof (cases q)
      case (Inl x)
      with assms key True q show ?thesis
        by - (rule reaches_step, auto simp: recorded_part_def read_vetoes_def bnd_def)
    next
      case (Inr vetoing)
      let ?v2 = "snd (update_purge (fold record_dead_letter vetoing) v1)" and ?p = "e_pg (se_env e)"
      have "recon_segment e data (Reading, v) = (Writing (dead_lettered_now ?v2), ?v2)"
        using key True q Inr by (simp add: read_vetoes_def Let_def)
      moreover have "record_extraction ?p version (dead_lettered_now ?v2) ?v2 = (r, v')"
        using assms key True q Inr by (simp add: recorded_part_def bnd_def update_purge_def)
      then have "recon_segment e data (Writing (dead_lettered_now ?v2), ?v2) = ((if isl r then Decided False else Deciding), v')"
        using key by (cases r) (simp_all add: write_vetoes_def)
      ultimately show ?thesis by (rule reaches_two)
    qed
  qed
qed

lemma settling_reaches:
  assumes "settle_purge_veto e data v = (r, v')" and "v_purge v = Some pu"
  shows "reaches e data ((if is_settled pu then Deciding else Asking (sorted_distinct (sp_expected_data_types pu))), v)
    ((if isl r then Decided False else Deciding), v')"
proof (cases "is_settled pu")
  case True
  with assms show ?thesis by (auto simp: settle_purge_veto_def bnd_def ret_def)
next
  case False
  with assms settle_purge_veto_parts have "recorded_part e data (v\<lparr>v_purge := Some (mark_waiting e v pu)\<rparr>) = (r, v')"
    by metis
  from asking_reaches [OF assms(2) reading_reaches [OF this [unfolded mark_waiting_def]]] False show ?thesis by simp
qed

text \<open>The reconciliation of the one-step handler, with the answer it gives.\<close>

lemma reports_always:
  obtains v' where "report_purge_vetoes e v = (Inr (), v')"
proof -
  have "fst (report_purge_vetoes e v) = Inr ()"
  by (auto simp: report_purge_vetoes_def bnd_def ret_def get_state_def try_catch_def log_event_def modify_def
      split: sum.splits prod.splits option.splits if_splits)
  then show thesis by (metis that prod.collapse)
qed

lemma gathered_reaches:
  assumes run: "gather_and_purge e data v = (r, v')" and pu: "v_purge v = Some pu"
  shows "reaches e data ((if is_settled pu then Deciding else Asking (sorted_distinct (sp_expected_data_types pu))), v)
    ((if isl r then Decided False else Reporting), v')"
proof -
  obtain q v1 where q: "settle_purge_veto e data v = (q, v1)" by fastforce
  note gathered = settling_reaches [OF this pu]
  show ?thesis
  proof (cases q)
    case (Inl x)
    with run q gathered show ?thesis by (auto simp: gather_and_purge_def)
  next
    case (Inr u)
    obtain q2 v2 where q2: "run_purge e v1 = (q2, v2)" by fastforce
    with run q Inr have "v' = v2" and "isl r = isl q2"
      by (cases q2; auto simp: gather_and_purge_def andthen_def bnd_def ret_def)+
    with deciding_reaches [OF q2] have "reaches e data (Deciding, v1) ((if isl r then Decided False else Reporting), v')"
      by simp
    with gathered Inr show ?thesis by (simp only: sum.disc(2) if_False) (rule reaches_trans)
  qed
qed

lemma reconcile_reaches:
  assumes "v_purge v = Some pu" and "pu' = record_completion (se_fromiso e) t data pu"
    and "reconcile_deleted_child_rows e t data v = (r, v')"
  obtains ok where "r = Inr ok"
    and "reaches e data (if \<not> is_latched pu' then Decided True else if is_settled pu' then Deciding
       else Asking (sorted_distinct (sp_expected_data_types pu')), v\<lparr>v_purge := Some pu'\<rparr>) (Decided ok, v')"
proof (cases "is_latched pu'")
  case False
  with assms have "r = Inr True" and "v' = v\<lparr>v_purge := Some pu'\<rparr>"
    by (simp_all add: reconcile_deleted_child_rows_def Let_def update_purge_def)
  with False show thesis by (intro that [of True]) simp_all
next
  case True
  let ?v = "v\<lparr>v_purge := Some pu'\<rparr>"
  obtain q v2 where q: "gather_and_purge e data ?v = (q, v2)" by fastforce
  have reach: "reaches e data (if is_settled pu' then Deciding else Asking (sorted_distinct (sp_expected_data_types pu')), ?v)
    ((if isl q then Decided False else Reporting), v2)"
    using gathered_reaches [OF q] by simp
  show thesis
  proof (cases q)
    case (Inl x)
    with assms True q have "r = Inr False" and "v' = v2"
      by (simp_all add: reconcile_deleted_child_rows_def Let_def update_purge_def gather_and_purge_def bnd_def try_catch_def ret_def)
    with Inl True reach show thesis by (intro that [of False]) simp_all
  next
    case (Inr b)
    then have b using q by (auto simp: gather_and_purge_def andthen_def bnd_def ret_def split: prod.splits sum.splits)
    obtain v3 where rep: "report_purge_vetoes e (logged BackoffReset v2) = (Inr (), v3)" by (rule reports_always)
    with assms True q Inr \<open>b\<close> have "r = Inr True" and "v' = v3"
      by (simp_all add: reconcile_deleted_child_rows_def Let_def update_purge_def gather_and_purge_def bnd_def try_catch_def
          ret_def log_event_def)
    moreover have "reaches e data (Reporting, v2) (Decided True, v3)" by (rule reaches_step) (simp add: rep)
    ultimately show thesis using Inr True reaches_trans [OF reach] by (intro that [of True]) simp_all
  qed
qed

section \<open>What keeps the marks\<close>

lemma record_handler_marks: "keeps purge_marked (handle_record e t data)"
proof -
  have "keeps purge_marked (transaction p (f d))" if "PROCESSORS e t = Some f" for p f e and d :: obj
    unfolding keeps_def
    using more_globals(3) transaction_same_more [OF processor_same_more [OF that], unfolded keeps_def] by blast
  moreover have "keeps purge_marked (withdraw t)" "keeps purge_marked (modify (pop_timer t))"
    by (auto simp: keeps_def purge_marked_def withdraw_def pop_timer_def logged_def split: option.splits)
  moreover have "keeps purge_marked (reject t x)" for x
    unfolding reject_def by (auto intro!: keeps_andthen keeps_ret update_purge_marked)
  ultimately show ?thesis
    unfolding handle_record_def by (auto intro!: keeps_flow split: option.splits)
qed

lemma other_handler_marks:
  assumes "\<not> is_completion e body"
  shows "keeps purge_marked (handle_data_message e body t)"
proof -
  have "keeps purge_marked (arm_timer e t)" "keeps purge_marked (complete t)" for t
    by (auto simp: keeps_def purge_marked_def arm_timer_def complete_def schedule_consumer_cancellation_def logged_def Let_def
        split: option.splits)
  moreover have "keeps purge_marked (reject t x)" for x
    unfolding reject_def by (auto intro!: keeps_andthen keeps_ret update_purge_marked)
  ultimately show ?thesis
    using assms record_handler_marks unfolding handle_data_message_def handle_file_complete_def is_completion_def Let_def
    by (auto intro!: keeps_flow simp: as_dict_def split: sum.splits json.splits)
qed

lemma other_delivery_marks:
  assumes "\<not> is_completion e body" and "data_handler e auth admission headers body t v = (r, v')"
  shows "purge_marked v v'"
proof -
  have refl: "purge_marked w w" for w :: "'z svc_scheme" using purge_marked_orders(1) by (rule reflpD)
  have settled: "keeps purge_marked (andthen (mark_rejected t r) (count_processed e t r))" for r
  proof -
    have "keeps purge_marked (mark_rejected t r)"
      unfolding mark_rejected_def by (auto intro!: keeps_ret update_purge_marked)
    moreover have "keeps purge_marked (count_processed e t r)"
      by (auto simp: keeps_def purge_marked_def count_processed_def log_event_def logged_def ret_def split: option.splits)
    ultimately show ?thesis by (auto intro!: keeps_andthen)
  qed
  have "purge_marked v w" if "on_data_message e auth headers body t v = (q, w)" for q w
  proof (cases "v_shutdown v")
    case True
    with that refl show ?thesis by (simp add: on_data_message_def)
  next
    case False
    from on_data_message_run [OF False that] obtain outcome v1 where h: "handle_data_message e body t v = (outcome, v1)"
      and w: "w = snd (andthen (mark_rejected t q) (count_processed e t q) v1)" by blast
    from keepsD [OF other_handler_marks [OF assms(1)] h] keeps_run [OF settled, of v1] show ?thesis
      unfolding w using purge_marked_orders(2) by (blast dest: transpD)
  qed
  with assms(2) refl show ?thesis by (auto simp: data_handler_def split: if_splits option.splits prod.splits)
qed

text \<open>The segments of a reconciliation that is not purging.\<close>

lemma globals_marked: "same_globals v v' \<Longrightarrow> v_purge v' = v_purge v"
  by (rule same_globalsD(1))

lemma read_marks: "read_vetoes e data v = (ph, v') \<Longrightarrow> purge_marked v v'"
proof -
  assume run: "read_vetoes e data v = (ph, v')"
  have "purge_marked v (snd (update_purge (fold record_dead_letter xs) w))" if "v_purge w = v_purge v" for xs w
    using that fold_marks [of xs "record_dead_letter"] by (auto simp: purge_marked_def update_purge_def split: option.split)
  moreover have "v_purge w = v_purge v" if "recorded_vetoes p version v = (q, w)" for p version q w
    using keepsD [OF veto_calls_globals(1) that] by (rule globals_marked)
  ultimately show ?thesis
    using run by (fastforce simp: read_vetoes_def purge_marked_def marks_refl Let_def split: option.splits if_splits sum.splits prod.splits)
qed

lemma write_marks: "write_vetoes e data names v = (ph, v') \<Longrightarrow> purge_marked v v'"
proof -
  assume run: "write_vetoes e data names v = (ph, v')"
  have "purge_marked v w" if "record_extraction p version names v = (q, w)" for p version q w
    using keepsD [OF veto_calls_globals(2) that] by (rule same_globals_purge)
  with run show ?thesis
    by (auto simp: write_vetoes_def purge_marked_def marks_refl split: option.splits sum.splits prod.splits)
qed

lemma record_completion_marks: "sp_dead_lettered (record_completion f t data pu) = sp_dead_lettered pu"
  by (simp add: record_completion_def Let_def split: option.split)

text \<open>The state the veto rests on: the purge holds a mark and no purge transaction is running.\<close>

definition vetoing :: "waiting_recon list \<times> 'z svc_scheme \<Rightarrow> bool" where
  "vetoing = (\<lambda>(rs, v). (\<forall>r \<in> set rs. \<forall>b. rc_phase r \<noteq> Purging b)
     \<and> (\<exists>pu. v_purge v = Some pu \<and> sp_dead_lettered pu \<noteq> []))"

lemma marked_vetoing: "purge_marked v v' \<Longrightarrow> vetoing (rs, v) \<Longrightarrow> vetoing (rs, v')"
  using marks_nonempty by (fastforce simp: vetoing_def purge_marked_def)

lemma phase_vetoing: "vetoing (rs, v) \<Longrightarrow> (\<And>b. ph \<noteq> Purging b) \<Longrightarrow> vetoing (rs[i := (rs ! i)\<lparr>rc_phase := ph\<rparr>], v)"
  by (auto simp: vetoing_def dest!: set_update_subset_insert [THEN subsetD])

lemma segment_vetoing:
  assumes vet: "vetoing (rs, v)" and i: "i < length rs" and run: "recon_segment e (rc_data (rs ! i)) (rc_phase (rs ! i), v) = (ph, v')"
  shows "(\<exists>w. decision_of (rc_phase (rs ! i)) v = [Vetoes w])
    \<or> decision_of (rc_phase (rs ! i)) v = [] \<and> vetoing (rs[i := (rs ! i)\<lparr>rc_phase := ph\<rparr>], v')"
proof (cases "rc_phase (rs ! i) = Deciding")
  case True
  from vet obtain pu where "v_purge v = Some pu" and "sp_dead_lettered pu \<noteq> []" by (auto simp: vetoing_def)
  with marked_vetoes [of pu] True show ?thesis by (auto simp: decision_of_def)
next
  case False
  have no: "rc_phase (rs ! i) \<noteq> Purging b" for b using vet i by (auto simp: vetoing_def)
  have "purge_marked v v' \<and> (\<forall>b. ph \<noteq> Purging b)"
  proof (cases "rc_phase (rs ! i)")
    case (Asking ts)
    have "purge_marked v (mark_if_waiting e t v)" for t
      by (auto simp: mark_if_waiting_def purge_marked_def update_purge_def marks_refl split: option.split)
    with Asking run show ?thesis by (cases ts) (auto simp: purge_marked_def marks_refl split: option.split)
  next
    case Reading
    with run read_marks [of e _ v ph v'] show ?thesis
      by (auto simp: read_vetoes_def Let_def split: option.splits if_splits sum.splits prod.splits)
  next
    case (Writing names)
    with run write_marks [of e _ names v ph v'] show ?thesis
      by (auto simp: write_vetoes_def split: option.splits sum.splits prod.splits)
  next
    case Reporting
    have "purge_marked v (logged BackoffReset v)"
      by (auto simp: purge_marked_def logged_def marks_refl split: option.split)
    moreover have "purge_marked (logged BackoffReset v) v'"
      using Reporting run keeps_run [OF report_purge_vetoes_frames(2), of "logged BackoffReset v" e] by auto
    ultimately have "purge_marked v v'" using purge_marked_orders(2) by (blast dest: transpD)
    with Reporting run show ?thesis by auto
  qed (use False no run in \<open>auto simp: purge_marked_def marks_refl split: option.split\<close>)
  with marked_vetoing [OF _ phase_vetoing [OF vet]] False show ?thesis by (simp add: decision_of_def)
qed

lemma step_vetoing:
  assumes "inter_step c new c'" and "vetoing c"
  shows "(\<exists>w. new = [Vetoes w]) \<or> new = [] \<and> vetoing c'"
  using assms
proof (induction rule: inter_step.induct)
  case (signal e t data v ph v' rs)
  then show ?case
    by (auto simp: begin_recon_def vetoing_def complete_def pop_timer_def logged_def record_completion_marks Let_def
        split: option.splits if_splits)
next
  case (segment i rs e v ph v')
  from segment_vetoing [OF segment(3) segment(1,2)] show ?case .
next
  case (finish i rs ok e v r v')
  have "v_purge v' = v_purge v"
    using finish(3) by (auto simp: finish_recon_def withdraw_def arm_timer_def schedule_consumer_cancellation_def logged_def Let_def
        split: if_splits)
  with finish(4) show ?case by (auto simp: vetoing_def dest: in_set_takeD in_set_dropD)
next
  case (delivery e body auth admission headers t v r v' rs)
  with marked_vetoing other_delivery_marks show ?case by blast
next
  case (background v v' rs)
  then have "v_purge v' = v_purge v" using background_step_work by (auto simp: same_work_def)
  with background show ?case by (simp add: vetoing_def)
qed

section \<open>Schedules\<close>

text \<open>Runs given by a list of moves, each in an environment of its own.\<close>

datatype move = Arrives string obj | Runs nat | Ends nat

fun play :: "(senv \<times> move) list \<Rightarrow> waiting_recon list \<times> 'z svc_scheme \<Rightarrow> (decision list \<times> waiting_recon list \<times> 'z svc_scheme) option" where
  "play [] c = Some ([], c)"
| "play ((e, Arrives t data) # ms) (rs, v) =
     (case begin_recon e t data v of (ph, v') \<Rightarrow> play ms (rs @ [\<lparr>rc_type = t, rc_data = data, rc_phase = ph\<rparr>], v'))"
| "play ((e, Runs i) # ms) (rs, v) =
     (if i < length rs then (case recon_segment e (rc_data (rs ! i)) (rc_phase (rs ! i), v) of (ph, v') \<Rightarrow>
        map_option (map_prod (\<lambda>ds. decision_of (rc_phase (rs ! i)) v @ ds) id) (play ms (rs[i := (rs ! i)\<lparr>rc_phase := ph\<rparr>], v')))
      else None)"
| "play ((e, Ends i) # ms) (rs, v) =
     (if i < length rs then (case rc_phase (rs ! i) of
        Decided ok \<Rightarrow> play ms (take i rs @ drop (Suc i) rs, snd (finish_recon e (rc_type (rs ! i)) ok v))
      | _ \<Rightarrow> None) else None)"

lemma inter_run_step: "inter_step c new c' \<Longrightarrow> inter_run c' ds c'' \<Longrightarrow> inter_run c (new @ ds) c''"
proof -
  assume "inter_step c new c'"
  then have one: "inter_run c new c'" using inter_run.more [OF inter_run.start] by fastforce
  assume "inter_run c' ds c''"
  then show ?thesis
    by (induction rule: inter_run.induct) (use one in \<open>auto simp: append_assoc [symmetric] simp del: append_assoc intro: inter_run.more\<close>)
qed

lemma play_runs: "play ms c = Some (ds, c') \<Longrightarrow> inter_run c ds c'"
proof (induction ms c arbitrary: ds rule: play.induct)
  case (1 c)
  then show ?case by (simp add: inter_run.start)
next
  case (2 e t data ms rs v)
  obtain ph v' where b: "begin_recon e t data v = (ph, v')" by fastforce
  with 2 have "inter_run (rs @ [\<lparr>rc_type = t, rc_data = data, rc_phase = ph\<rparr>], v') ds c'" by simp
  from inter_run_step [OF inter_step.signal [OF b] this] show ?case by simp
next
  case (3 e i ms rs v)
  then obtain ph v' ds' where i: "i < length rs" and seg: "recon_segment e (rc_data (rs ! i)) (rc_phase (rs ! i), v) = (ph, v')"
    and rest: "play ms (rs[i := (rs ! i)\<lparr>rc_phase := ph\<rparr>], v') = Some (ds', c')"
    and ds: "ds = decision_of (rc_phase (rs ! i)) v @ ds'"
    by (auto split: prod.splits if_splits)
  from "3.IH" [OF i seg [symmetric]] rest have "inter_run (rs[i := (rs ! i)\<lparr>rc_phase := ph\<rparr>], v') ds' c'" by simp
  from inter_run_step [OF inter_step.segment [OF i seg] this] show ?case by (simp add: ds)
next
  case (4 e i ms rs v)
  then obtain ok where i: "i < length rs" and ok: "rc_phase (rs ! i) = Decided ok"
    and rest: "play ms (take i rs @ drop (Suc i) rs, snd (finish_recon e (rc_type (rs ! i)) ok v)) = Some (ds, c')"
    by (auto split: phase.splits if_splits)
  from "4.IH" [OF i ok] rest
  have "inter_run (take i rs @ drop (Suc i) rs, snd (finish_recon e (rc_type (rs ! i)) ok v)) ds c'" by simp
  from inter_run_step [OF inter_step.finish [OF i ok surjective_pairing] this] show ?case by simp
qed

lemma played:
  assumes "case play ms c of None \<Rightarrow> False | Some (ds, c') \<Rightarrow> P ds c'"
  obtains ds c' where "play ms c = Some (ds, c')" and "P ds c'"
  using assms by (auto split: option.splits)

section \<open>Two extractions at once\<close>

text \<open>
  The four completion signals of an extraction, and its reconciliation (the last signal, at position \<open>i\<close>) up
  to the \<open>n\<close>-th segment.
\<close>

definition four_signals :: "senv \<Rightarrow> nat \<Rightarrow> (senv \<times> move) list" where
  "four_signals e b = map (\<lambda>t. (e, Arrives t (completion b))) MUSICBRAINZ_DATA_TYPES"

definition runs :: "senv \<Rightarrow> nat \<Rightarrow> nat \<Rightarrow> (senv \<times> move) list" where
  "runs e i n = replicate n (e, Runs i)"

text \<open>A broker whose dead-letter queues hold a message, and a table with one row of each age.\<close>

definition demo_dead :: senv where
  "demo_dead = demo_senv\<lparr>se_dead_letter_count := (\<lambda>_. Some 1)\<rparr>"

definition demo_aged :: svc where
  "demo_aged = demo_svc\<lparr>s_db := empty_db\<lparr>db_relationships := [demo_row ''old'' 0, demo_row ''hit'' 4, demo_row ''live'' 6]\<rparr>\<rparr>"

text \<open>The first extraction up to its transaction and the second up to writing its veto; then both go on.\<close>

definition demo_gathered :: "(senv \<times> move) list" where
  "demo_gathered = four_signals demo_senv 3 @ runs demo_senv 3 8 @ four_signals demo_dead 5 @ runs demo_dead 7 6"

definition demo_settled :: "(senv \<times> move) list" where
  "demo_settled = runs demo_senv 3 1 @ runs demo_dead 7 3"

section \<open>Properties\<close>


text \<open>
  C5.  A dead letter recorded in time vetoes whatever runs beside it: from a state whose purge holds a mark while
  no purge transaction is running, and however signals, segments, other deliveries and the background are
  interleaved, the first decision taken is a veto.
\<close>

theorem recorded_mark_vetoes_first:
  assumes "inter_run (rs, v) ds c'" and "v_purge v = Some pu" and "sp_dead_lettered pu \<noteq> []"
    and "\<And>r b. r \<in> set rs \<Longrightarrow> rc_phase r \<noteq> Purging b" and "ds \<noteq> []"
  shows "\<exists>w. hd ds = Vetoes w"
proof -
  have "vetoing (rs, v)" using assms(2-4) by (auto simp: vetoing_def)
  with assms(1) have "ds = [] \<and> vetoing c' \<or> (\<exists>w ds'. ds = Vetoes w # ds')"
    by (induction rule: inter_run.induct) (auto dest: step_vetoing)
  with assms(5) show ?thesis by auto
qed

theorem recorded_mark_vetoes_first_witness:
  "\<exists>ds c' w. inter_run ([], demo_svc\<lparr>v_purge := Some (record_dead_letter ''labels'' (new_purge True))\<rparr>) ds c' \<and> hd ds = Vetoes w"
proof -
  let ?v = "demo_svc\<lparr>v_purge := Some (record_dead_letter ''labels'' (new_purge True))\<rparr>"
  let ?moves = "four_signals demo_senv 3 @ runs demo_senv 3 8"
  have "map_option fst (play ?moves ([], ?v)) = Some [Vetoes (DeadLettered [''labels''])]" by code_simp
  then obtain ds c' where run: "play ?moves ([], ?v) = Some (ds, c')" and "ds \<noteq> []" by auto
  moreover have "v_purge ?v = Some (record_dead_letter ''labels'' (new_purge True))"
    "sp_dead_lettered (record_dead_letter ''labels'' (new_purge True)) \<noteq> []" by (simp_all add: record_dead_letter_def new_purge_def)
  ultimately show ?thesis using recorded_mark_vetoes_first [OF play_runs [OF run]] play_runs [OF run] by fastforce
qed

text \<open>
  C7.  The condition on running purges is needed: while the purge of boundary 3 is in its transaction, the next
  extraction completes, its signal reads a dead letter on every queue, marks them and records the veto on the
  latch; then the first purge settles and clears the marks, and the second extraction, decided with none,
  purges: the row its dead letter should have kept is deleted.
\<close>

theorem settling_purge_clears_gathered_veto:
  "\<exists>c1 c2. inter_run ([], demo_aged) [Purges 3] c1
    \<and> set (sp_dead_lettered (the (v_purge (snd c1)))) = set MUSICBRAINZ_DATA_TYPES \<and> rc_phase (fst c1 ! 7) = Writing MUSICBRAINZ_DATA_TYPES
    \<and> inter_run c1 [Purges 5] c2 \<and> vetoes_of (replicate 5 CHR ''x'') (s_db (snd c2)) = MUSICBRAINZ_DATA_TYPES
    \<and> db_relationships (s_db (snd c2)) = [demo_row ''live'' 6]"
proof -
  have "case play demo_gathered ([], demo_aged) of None \<Rightarrow> False
    | Some (ds, c1) \<Rightarrow> ds = [Purges 3] \<and> set (sp_dead_lettered (the (v_purge (snd c1)))) = set MUSICBRAINZ_DATA_TYPES
      \<and> (rc_phase (fst c1 ! 7) = Writing MUSICBRAINZ_DATA_TYPES)
      \<and> (case play demo_settled c1 of None \<Rightarrow> False
        | Some (ds', c2) \<Rightarrow> ds' = [Purges 5] \<and> vetoes_of (replicate 5 CHR ''x'') (s_db (snd c2)) = MUSICBRAINZ_DATA_TYPES
          \<and> db_relationships (s_db (snd c2)) = [demo_row ''live'' 6])" by code_simp
  then obtain ds c1 where 1: "play demo_gathered ([], demo_aged) = Some (ds, c1)" and rest: "ds = [Purges 3]"
      "set (sp_dead_lettered (the (v_purge (snd c1)))) = set MUSICBRAINZ_DATA_TYPES"
      "rc_phase (fst c1 ! 7) = Writing MUSICBRAINZ_DATA_TYPES"
    and more: "case play demo_settled c1 of None \<Rightarrow> False
        | Some (ds', c2) \<Rightarrow> ds' = [Purges 5] \<and> vetoes_of (replicate 5 CHR ''x'') (s_db (snd c2)) = MUSICBRAINZ_DATA_TYPES
          \<and> db_relationships (s_db (snd c2)) = [demo_row ''live'' 6]"
    by (rule played) blast
  from more obtain ds' c2 where 2: "play demo_settled c1 = Some (ds', c2)" "ds' = [Purges 5]"
      "vetoes_of (replicate 5 CHR ''x'') (s_db (snd c2)) = MUSICBRAINZ_DATA_TYPES"
      "db_relationships (s_db (snd c2)) = [demo_row ''live'' 6]"
    by (elim played conjE)
  from play_runs [OF 1] play_runs [OF 2(1)] rest 2 show ?thesis by blast
qed

end
