(* ===== verification/Telemetry.thy ===== *)
theory Telemetry
  imports Delivery
begin

text \<open>
  What the service tells OpenTelemetry (\<open>brainztableinator.py\<close>, the part before the failure classifier):
  the cached instruments, the recorders, the span of a delivery and the two context variables that are
  set while it runs.

  OpenTelemetry is outside the repository: \<open>otel\<close> says what each call into it answers, and every one of
  them may raise.  A span and a span context are represented by a number.  A recorder's lock guards
  a section without an \<open>await\<close>, so it does not appear; the debug lines of the handlers are left out.
\<close>

section \<open>Names\<close>

definition METRICS_SCOPE :: string where
  "METRICS_SCOPE = ''groovemap.brainztableinator''"

definition PIPELINE_MESSAGES :: string where
  "PIPELINE_MESSAGES = ''groovemap.pipeline.messages''"

definition PIPELINE_MESSAGE_DURATION :: string where
  "PIPELINE_MESSAGE_DURATION = ''groovemap.pipeline.message.duration''"

definition PIPELINE_BATCH_SIZE :: string where
  "PIPELINE_BATCH_SIZE = ''groovemap.pipeline.batch.size''"

definition PIPELINE_BATCH_FLUSH_DURATION :: string where
  "PIPELINE_BATCH_FLUSH_DURATION = ''groovemap.pipeline.batch.flush.duration''"

definition PIPELINE_CONSUMERS_ACTIVE :: string where
  "PIPELINE_CONSUMERS_ACTIVE = ''groovemap.pipeline.consumers.active''"

definition PIPELINE_PURGE_CONSECUTIVE_VETOES :: string where
  "PIPELINE_PURGE_CONSECUTIVE_VETOES = ''groovemap.pipeline.purge.consecutive_vetoes''"

definition PIPELINE_ALIAS_CONFLICTS :: string where
  "PIPELINE_ALIAS_CONFLICTS = ''groovemap.pipeline.alias.conflicts''"

definition MESSAGING_CONSUMED_MESSAGES :: string where
  "MESSAGING_CONSUMED_MESSAGES = ''messaging.client.consumed.messages''"

definition MESSAGING_OPERATION_DURATION :: string where
  "MESSAGING_OPERATION_DURATION = ''messaging.client.operation.duration''"

definition MESSAGING_SYSTEM :: string where
  "MESSAGING_SYSTEM = ''rabbitmq''"

definition STORE :: string where
  "STORE = ''postgresql''"

definition PIPELINE_SOURCE :: string where
  "PIPELINE_SOURCE = the (map_of (the (map_of CONSUMER_SOURCES AMQP_CONSUMER_ID)) ''source'')"

definition ENTITY_LABELS :: "(string \<times> string) list" where
  "ENTITY_LABELS = [(''artists'', ''artist''), (''labels'', ''label''),
     (''release-groups'', ''release-group''), (''releases'', ''release'')]"

lemmas metric_names = PIPELINE_MESSAGES_def PIPELINE_MESSAGE_DURATION_def PIPELINE_BATCH_SIZE_def
  PIPELINE_BATCH_FLUSH_DURATION_def PIPELINE_CONSUMERS_ACTIVE_def PIPELINE_PURGE_CONSECUTIVE_VETOES_def
  PIPELINE_ALIAS_CONFLICTS_def MESSAGING_CONSUMED_MESSAGES_def MESSAGING_OPERATION_DURATION_def

section \<open>State and answers\<close>

text \<open>An instrument takes exactly one of the three calls.\<close>

datatype instrument_kind = Counter | Histogram | UpDownCounter | Gauge

datatype measurement = Add | Record | Set

fun accepts :: "instrument_kind \<Rightarrow> measurement \<Rightarrow> bool" where
  "accepts Counter c = (c = Add)"
| "accepts UpDownCounter c = (c = Add)"
| "accepts Histogram c = (c = Record)"
| "accepts Gauge c = (c = Set)"

type_synonym attributes = "(string \<times> string) list"

record point =
  pt_name :: string
  pt_value :: rat
  pt_attributes :: attributes

datatype span_op = SetAttribute nat string string | SetError nat | EndSpan nat

record otel =
  ot_get_meter :: "exn option"
  ot_create :: "string \<Rightarrow> exn option"
  ot_measure :: "point \<Rightarrow> exn option"
  ot_extract :: "json \<Rightarrow> exn + nat"
  ot_manager :: "string \<Rightarrow> exn option"
  ot_enter :: "string \<Rightarrow> nat option \<Rightarrow> attributes \<Rightarrow> exn + nat"
  ot_span :: "span_op \<Rightarrow> exn option"
  ot_span_context :: "nat \<Rightarrow> exn + nat option"
  ot_valid :: "nat \<Rightarrow> bool"

text \<open>
  \<open>tel_created\<close> is what was asked of the meter, \<open>tel_points\<close> the measurements that arrived,
  \<open>tel_span_ops\<close> what was done to spans.
\<close>

record tel =
  tel_cache :: "(string \<times> instrument_kind) list option"
  tel_created :: "string list"
  tel_points :: "point list"
  tel_span_ops :: "span_op list"
  tel_message_span :: "nat option"
  tel_destination :: string

section \<open>Instruments\<close>

definition instrument_table :: "(string \<times> instrument_kind) list" where
  "instrument_table =
     [(PIPELINE_MESSAGES, Counter), (PIPELINE_MESSAGE_DURATION, Histogram), (PIPELINE_BATCH_SIZE, Histogram),
      (PIPELINE_BATCH_FLUSH_DURATION, Histogram), (PIPELINE_CONSUMERS_ACTIVE, UpDownCounter),
      (PIPELINE_ALIAS_CONFLICTS, Counter), (PIPELINE_PURGE_CONSECUTIVE_VETOES, Gauge),
      (MESSAGING_CONSUMED_MESSAGES, Counter), (MESSAGING_OPERATION_DURATION, Histogram)]"

definition or_raise :: "exn option \<Rightarrow> ('s \<Rightarrow> 's) \<Rightarrow> ('s, unit) eff" where
  "or_raise answer f = (case answer of Some x \<Rightarrow> raise x | None \<Rightarrow> modify f)"

definition build_instruments :: "otel \<Rightarrow> (tel, (string \<times> instrument_kind) list) eff" where
  "build_instruments ot = andthen (or_raise (ot_get_meter ot) id)
     (andthen (for_each (\<lambda>(name, _). or_raise (ot_create ot name) (\<lambda>s. s\<lparr>tel_created := tel_created s @ [name]\<rparr>))
        instrument_table)
     (ret instrument_table))"

definition instrument :: "otel \<Rightarrow> string \<Rightarrow> (tel, instrument_kind) eff" where
  "instrument ot name = bnd get_state (\<lambda>s.
     bnd (case tel_cache s of
            Some cache \<Rightarrow> ret cache
          | None \<Rightarrow> bnd (build_instruments ot) (\<lambda>cache. andthen (modify (\<lambda>s. s\<lparr>tel_cache := Some cache\<rparr>)) (ret cache)))
       (\<lambda>cache. case map_of cache name of None \<Rightarrow> raise (py_error ''KeyError'') | Some kind \<Rightarrow> ret kind))"

definition reset_metric_instruments :: "tel \<Rightarrow> tel" where
  "reset_metric_instruments s = s\<lparr>tel_cache := None\<rparr>"

text \<open>\<open>_instrument(name).add(...)\<close>, \<open>.record(...)\<close> or \<open>.set(...)\<close>.\<close>

definition measure :: "otel \<Rightarrow> measurement \<Rightarrow> string \<Rightarrow> rat \<Rightarrow> attributes \<Rightarrow> (tel, unit) eff" where
  "measure ot call name x attrs = bnd (instrument ot name) (\<lambda>kind.
     if \<not> accepts kind call then raise (py_error ''AttributeError'')
     else let pt = \<lparr>pt_name = name, pt_value = x, pt_attributes = attrs\<rparr>
       in or_raise (ot_measure ot pt) (\<lambda>s. s\<lparr>tel_points := tel_points s @ [pt]\<rparr>))"

section \<open>Recorders\<close>

definition guarded :: "('s, unit) eff \<Rightarrow> ('s, unit) eff" where
  "guarded m = try_catch m (\<lambda>_. ret ())"

definition record_pipeline_message :: "otel \<Rightarrow> string \<Rightarrow> string \<Rightarrow> rat \<Rightarrow> (tel, unit) eff" where
  "record_pipeline_message ot entity outcome duration = guarded
     (andthen (measure ot Add PIPELINE_MESSAGES 1 [(''source'', PIPELINE_SOURCE), (''entity'', entity), (''outcome'', outcome)])
       (measure ot Record PIPELINE_MESSAGE_DURATION duration [(''source'', PIPELINE_SOURCE), (''entity'', entity)]))"

definition consumed_attributes :: "string \<Rightarrow> string option \<Rightarrow> attributes" where
  "consumed_attributes destination error_type =
     [(''messaging.system'', MESSAGING_SYSTEM), (''messaging.destination.name'', destination),
      (''messaging.operation.name'', ''process'')]
     @ (case error_type of None \<Rightarrow> [] | Some t \<Rightarrow> [(''error.type'', t)])"

definition record_consumed_message :: "otel \<Rightarrow> string \<Rightarrow> rat \<Rightarrow> string option \<Rightarrow> (tel, unit) eff" where
  "record_consumed_message ot destination duration error_type = guarded
     (andthen (measure ot Add MESSAGING_CONSUMED_MESSAGES 1 (consumed_attributes destination error_type))
       (measure ot Record MESSAGING_OPERATION_DURATION duration (consumed_attributes destination error_type)))"

definition record_batch_flush :: "otel \<Rightarrow> string \<Rightarrow> nat \<Rightarrow> rat \<Rightarrow> string \<Rightarrow> (tel, unit) eff" where
  "record_batch_flush ot entity n duration outcome = guarded
     (let attrs = [(''store'', STORE), (''entity'', entity), (''outcome'', outcome)] in
      andthen (measure ot Record PIPELINE_BATCH_SIZE (of_nat n) attrs)
        (measure ot Record PIPELINE_BATCH_FLUSH_DURATION duration attrs))"

definition record_purge_consecutive_vetoes :: "otel \<Rightarrow> nat \<Rightarrow> (tel, unit) eff" where
  "record_purge_consecutive_vetoes ot n =
     guarded (measure ot Set PIPELINE_PURGE_CONSECUTIVE_VETOES (of_nat n) [(''source'', PIPELINE_SOURCE)])"

definition record_alias_conflict :: "otel \<Rightarrow> string \<Rightarrow> string \<Rightarrow> (tel, unit) eff" where
  "record_alias_conflict ot entity identifier = guarded (measure ot Add PIPELINE_ALIAS_CONFLICTS 1
     [(''source'', PIPELINE_SOURCE), (''entity'', entity), (''identifier'', identifier)])"

definition record_consumer_delta :: "otel \<Rightarrow> int \<Rightarrow> (tel, unit) eff" where
  "record_consumer_delta ot delta =
     guarded (measure ot Add PIPELINE_CONSUMERS_ACTIVE (of_int delta) [(''source'', PIPELINE_SOURCE)])"

section \<open>Spans\<close>

definition do_span :: "otel \<Rightarrow> span_op \<Rightarrow> (tel, unit) eff" where
  "do_span ot op = or_raise (ot_span ot op) (\<lambda>s. s\<lparr>tel_span_ops := tel_span_ops s @ [op]\<rparr>)"

definition mark_span_failed :: "otel \<Rightarrow> nat option \<Rightarrow> string \<Rightarrow> (tel, unit) eff" where
  "mark_span_failed ot sp error_type = (case sp of
     None \<Rightarrow> ret ()
   | Some n \<Rightarrow> guarded (andthen (do_span ot (SetAttribute n ''error.type'' error_type)) (do_span ot (SetError n))))"

definition set_span_outcome :: "otel \<Rightarrow> nat option \<Rightarrow> string \<Rightarrow> (tel, unit) eff" where
  "set_span_outcome ot sp outcome = (case sp of
     None \<Rightarrow> ret ()
   | Some n \<Rightarrow> guarded (do_span ot (SetAttribute n ''outcome'' outcome)))"

text \<open>A block with a \<open>finally\<close> that does not raise.\<close>

definition finally_do :: "('s, 'a) eff \<Rightarrow> ('s \<Rightarrow> 's) \<Rightarrow> ('s, 'a) eff" where
  "finally_do m f s = (case m s of (r, s') \<Rightarrow> (r, f s'))"

text \<open>
  The context managers take the block they are wrapped around.  Making the manager is inside the
  \<open>try\<close>; entering it, which starts the span, is not.  Leaving it ends the span and lets an exception pass.
\<close>

definition parent_context :: "otel \<Rightarrow> json option \<Rightarrow> exn + nat option" where
  "parent_context ot headers = (case headers of
     None \<Rightarrow> Inr None
   | Some h \<Rightarrow> if truthy h then rbind (ot_extract ot h) (\<lambda>c. Inr (Some c)) else Inr None)"

definition span_manager :: "otel \<Rightarrow> string \<Rightarrow> json option \<Rightarrow> exn + nat option" where
  "span_manager ot name headers = rbind (parent_context ot headers) (\<lambda>parent.
     case ot_manager ot name of Some x \<Rightarrow> Inl x | None \<Rightarrow> Inr parent)"

definition consume_span ::
  "otel \<Rightarrow> string \<Rightarrow> json option \<Rightarrow> (nat option \<Rightarrow> (tel, 'a) eff) \<Rightarrow> (tel, 'a) eff" where
  "consume_span ot destination headers body =
     (let name = ''process '' @ destination in
      case span_manager ot name headers of
        Inl _ \<Rightarrow> body None
      | Inr parent \<Rightarrow> bnd (of_result (ot_enter ot name parent (consumed_attributes destination None)))
          (\<lambda>sp. finally_do (body (Some sp)) (\<lambda>s. s\<lparr>tel_span_ops := tel_span_ops s @ [EndSpan sp]\<rparr>)))"

definition span_context_of :: "otel \<Rightarrow> nat option \<Rightarrow> nat option" where
  "span_context_of ot sp = (case sp of
     None \<Rightarrow> None
   | Some n \<Rightarrow> (case ot_span_context ot n of
       Inl _ \<Rightarrow> None
     | Inr c \<Rightarrow> (case c of Some k \<Rightarrow> if ot_valid ot k then Some k else None | None \<Rightarrow> None)))"

definition flush_links :: "tel \<Rightarrow> nat list" where
  "flush_links s = (case tel_message_span s of None \<Rightarrow> [] | Some c \<Rightarrow> [c])"

text \<open>\<open>_RuntimeBatchObserver\<close>; \<open>flush_span\<close> of the shared runtime is a parameter.\<close>

definition observer_flush :: "(string \<Rightarrow> string \<Rightarrow> nat list \<Rightarrow> 'm) \<Rightarrow> string \<Rightarrow> tel \<Rightarrow> 'm" where
  "observer_flush flush_span entity s = flush_span STORE entity (flush_links s)"

text \<open>
  The calls a batch makes on its observer: \<open>replay\<close> makes them through any observer, given the span of
  the batch and its duration.  A conflict summary is a log line of the processor itself.
\<close>

fun replay :: "(string \<Rightarrow> nat \<Rightarrow> rat \<Rightarrow> string \<Rightarrow> ('s, unit) eff) \<Rightarrow> (string \<Rightarrow> string \<Rightarrow> ('s, unit) eff)
    \<Rightarrow> (nat option \<Rightarrow> string \<Rightarrow> ('s, unit) eff) \<Rightarrow> nat option \<Rightarrow> rat \<Rightarrow> observation \<Rightarrow> ('s, unit) eff" where
  "replay flushed conflict outcome sp duration (ObsBatch entity n result) = flushed entity n duration result"
| "replay flushed conflict outcome sp duration (ObsAliasConflict entity identifier) = conflict entity identifier"
| "replay flushed conflict outcome sp duration (ObsOutcome result) = outcome sp result"
| "replay flushed conflict outcome sp duration (LogConflictSummary n) = ret ()"

text \<open>\<open>_delivery_observation\<close>: a token resets a variable to what it was before the set.\<close>

definition mapping_headers :: "json \<Rightarrow> json option" where
  "mapping_headers headers = (case headers of JObj _ \<Rightarrow> Some headers | _ \<Rightarrow> None)"

definition delivery_observation ::
  "otel \<Rightarrow> string \<Rightarrow> json \<Rightarrow> (nat option \<Rightarrow> (tel, 'a) eff) \<Rightarrow> (tel, 'a) eff" where
  "delivery_observation ot destination headers body =
     consume_span ot destination (mapping_headers headers) (\<lambda>sp.
       bnd get_state (\<lambda>before.
         andthen (modify (\<lambda>s. s\<lparr>tel_message_span := span_context_of ot sp, tel_destination := destination\<rparr>))
         (finally_do (body sp)
           (\<lambda>s. s\<lparr>tel_destination := tel_destination before, tel_message_span := tel_message_span before\<rparr>))))"

definition local_outcome :: "delivery_result \<Rightarrow> string" where
  "local_outcome result = (if dr_settlement result = ACK then dr_outcome result else ''failed'')"

definition settled :: "otel \<Rightarrow> string \<Rightarrow> delivery_result \<Rightarrow> rat \<Rightarrow> nat option \<Rightarrow> (tel, unit) eff" where
  "settled ot entity result duration sp =
     andthen (record_pipeline_message ot entity (local_outcome result) duration)
     (bnd get_state (\<lambda>s.
       andthen (record_consumed_message ot (tel_destination s) duration (dr_error_type result))
       (andthen (set_span_outcome ot sp (local_outcome result))
         (case dr_error_type result of None \<Rightarrow> ret () | Some t \<Rightarrow> mark_span_failed ot sp t))))"

text \<open>The labels a delivery is observed under: \<open>on_data_message\<close>.\<close>

definition delivery_entity :: "string \<Rightarrow> string" where
  "delivery_entity data_type = (case map_of ENTITY_LABELS data_type of None \<Rightarrow> data_type | Some l \<Rightarrow> l)"

definition delivery_destination :: "string \<Rightarrow> string \<Rightarrow> string" where
  "delivery_destination prefix data_type =
     (case queue_name prefix AMQP_CONSUMER_ID data_type of Inl _ \<Rightarrow> ''unknown'' | Inr q \<Rightarrow> q)"

section \<open>Quiet calls\<close>

text \<open>The two context variables, and the calls that never raise and leave them alone.\<close>

definition same_context :: "tel \<Rightarrow> tel \<Rightarrow> bool" where
  "same_context s s' \<longleftrightarrow> tel_message_span s' = tel_message_span s \<and> tel_destination s' = tel_destination s"

lemma same_context_orders [intro, simp]: "reflp same_context" "transp same_context"
  by (auto simp: reflp_def transp_def same_context_def)

definition quiet :: "('s \<Rightarrow> 's \<Rightarrow> bool) \<Rightarrow> ('s, unit) eff \<Rightarrow> bool" where
  "quiet R m \<longleftrightarrow> succeeds m \<and> keeps R m"

lemma quiet_ret [intro, simp]: "reflp R \<Longrightarrow> quiet R (ret ())"
  by (auto simp: quiet_def)

lemma quiet_andthen [intro]: "transp R \<Longrightarrow> quiet R m \<Longrightarrow> quiet R k \<Longrightarrow> quiet R (andthen m k)"
  by (auto simp: quiet_def)

lemma succeeds_guarded [intro, simp]: "succeeds (guarded m)"
  unfolding succeeds_def guarded_def try_catch_def by (auto split: prod.split sum.split)

lemma keeps_guarded [intro]: "reflp R \<Longrightarrow> transp R \<Longrightarrow> keeps R m \<Longrightarrow> keeps R (guarded m)"
  unfolding guarded_def by (auto intro: keeps_try_catch)

lemma keeps_or_raise [intro]: "reflp R \<Longrightarrow> (\<And>s. R s (f s)) \<Longrightarrow> keeps R (or_raise a f)"
  unfolding or_raise_def by (auto intro: keeps_modify split: option.split)

lemma instrument_context: "keeps same_context (instrument ot name)"
proof -
  have "keeps same_context (or_raise a (\<lambda>s. s\<lparr>tel_created := tel_created s @ [n]\<rparr>))" for a n
    by (rule keeps_or_raise) (simp_all add: same_context_def)
  then have "keeps same_context (build_instruments ot)"
    unfolding build_instruments_def
    by (intro keeps_andthen keeps_for_each keeps_ret keeps_or_raise same_context_orders)
      (auto simp: same_context_def split: prod.split)
  then show ?thesis
    unfolding instrument_def
    by (intro keeps_bnd keeps_get_state same_context_orders)
      (auto intro!: keeps_bnd keeps_ret keeps_andthen keeps_modify keeps_raise simp: same_context_def split: option.split)
qed

lemma measure_context [intro, simp]: "keeps same_context (measure ot call name x attrs)"
  unfolding measure_def Let_def
  by (auto intro!: keeps_bnd keeps_raise keeps_or_raise instrument_context simp: same_context_def)

lemma do_span_context [intro, simp]: "keeps same_context (do_span ot op)"
  unfolding do_span_def by (rule keeps_or_raise) (simp_all add: same_context_def)

lemmas recorder_defs = record_pipeline_message_def record_consumed_message_def record_batch_flush_def
  record_purge_consecutive_vetoes_def record_alias_conflict_def record_consumer_delta_def

lemma quiet_guarded [intro]: "keeps same_context m \<Longrightarrow> quiet same_context (guarded m)"
  by (auto simp: quiet_def)

lemma recorders_quiet:
  "quiet same_context (record_pipeline_message ot entity outcome d)"
  "quiet same_context (record_consumed_message ot dest d err)"
  "quiet same_context (record_batch_flush ot entity n d outcome)"
  "quiet same_context (record_purge_consecutive_vetoes ot n)"
  "quiet same_context (record_alias_conflict ot entity identifier)"
  "quiet same_context (record_consumer_delta ot delta)"
  "quiet same_context (mark_span_failed ot sp failure)"
  "quiet same_context (set_span_outcome ot sp outcome)"
  unfolding recorder_defs mark_span_failed_def set_span_outcome_def Let_def
  by (auto simp: quiet_def split: option.split)

text \<open>The observer of the record processor as an interface: calls a batch can make without a guard of its own.\<close>

locale batch_observer =
  fixes flushed :: "string \<Rightarrow> nat \<Rightarrow> rat \<Rightarrow> string \<Rightarrow> ('s, unit) eff"
    and conflict :: "string \<Rightarrow> string \<Rightarrow> ('s, unit) eff"
    and outcome :: "nat option \<Rightarrow> string \<Rightarrow> ('s, unit) eff"
    and frame :: "'s \<Rightarrow> 's \<Rightarrow> bool"
  assumes flushed_quiet: "quiet frame (flushed entity n duration result)"
    and conflict_quiet: "quiet frame (conflict entity identifier)"
    and outcome_quiet: "quiet frame (outcome sp result)"
    and frame_orders: "reflp frame" "transp frame"
begin

lemma replay_quiet: "quiet frame (replay flushed conflict outcome sp duration ob)"
  by (cases ob) (simp_all add: flushed_quiet conflict_quiet outcome_quiet, auto simp: quiet_def frame_orders)

lemma replay_all_quiet: "quiet frame (for_each (replay flushed conflict outcome sp duration) obs)"
proof -
  have "succeeds (replay flushed conflict outcome sp duration ob)" "keeps frame (replay flushed conflict outcome sp duration ob)" for ob
    using replay_quiet by (simp_all add: quiet_def)
  then show ?thesis by (auto simp: quiet_def intro!: succeeds_for_each keeps_for_each frame_orders)
qed

end

interpretation runtime: batch_observer "record_batch_flush ot" "record_alias_conflict ot" "set_span_outcome ot" same_context
  for ot :: otel
  by unfold_locales (simp_all add: recorders_quiet)

lemma settled_context: "quiet same_context (settled ot entity result d sp)"
  unfolding settled_def quiet_def
  using recorders_quiet [unfolded quiet_def]
  by (auto intro!: succeeds_andthen succeeds_bnd keeps_andthen keeps_bnd split: option.split)

section \<open>A meter that answers\<close>

definition working :: "otel \<Rightarrow> bool" where
  "working ot \<longleftrightarrow> ot_get_meter ot = None \<and> (\<forall>n. ot_create ot n = None) \<and> (\<forall>pt. ot_measure ot pt = None)"

definition cache_ok :: "tel \<Rightarrow> bool" where
  "cache_ok s \<longleftrightarrow> tel_cache s = None \<and> tel_created s = []
     \<or> tel_cache s = Some instrument_table \<and> tel_created s = map fst instrument_table"

definition cached :: "tel \<Rightarrow> tel" where
  "cached s = s\<lparr>tel_cache := Some instrument_table, tel_created := map fst instrument_table\<rparr>"

definition measured :: "point list \<Rightarrow> tel \<Rightarrow> tel" where
  "measured pts s = (cached s)\<lparr>tel_points := tel_points s @ pts\<rparr>"

lemma cached_simps [simp]: "cache_ok (measured pts s)" "measured qs (measured pts s) = measured (pts @ qs) s"
  "tel_destination (measured pts s) = tel_destination s" "tel_message_span (measured pts s) = tel_message_span s"
  "tel_points (measured pts s) = tel_points s @ pts"
  by (simp_all add: cache_ok_def measured_def cached_def)

lemma build_working:
  assumes "working ot"
  shows "build_instruments ot s = (Inr instrument_table, s\<lparr>tel_created := tel_created s @ map fst instrument_table\<rparr>)"
proof -
  have created: "for_each (\<lambda>(name, _). or_raise (ot_create ot name) (\<lambda>s. s\<lparr>tel_created := tel_created s @ [name]\<rparr>)) ks s
      = (Inr (), s\<lparr>tel_created := tel_created s @ map fst ks\<rparr>)" for ks s
    using assms by (induction ks arbitrary: s) (auto simp: working_def or_raise_def)
  have "or_raise (ot_get_meter ot) id s = (Inr (), s)" using assms by (simp add: working_def or_raise_def)
  then show ?thesis unfolding build_instruments_def andthen_def bnd_def by (simp add: created)
qed

lemma measure_working:
  assumes "working ot" and "cache_ok s" and kind: "map_of instrument_table name = Some k" "accepts k call"
  shows "measure ot call name x attrs s = (Inr (), measured [\<lparr>pt_name = name, pt_value = x, pt_attributes = attrs\<rparr>] s)"
proof -
  have "instrument ot name s = (Inr k, cached s)"
  proof (cases "tel_cache s")
    case None
    with assms show ?thesis by (simp add: instrument_def build_working bnd_def cached_def cache_ok_def)
  next
    case (Some c)
    with assms(2) have "c = instrument_table" "cached s = s" by (auto simp: cache_ok_def cached_def)
    with Some kind show ?thesis by (simp add: instrument_def bnd_def)
  qed
  with assms show ?thesis by (simp add: measure_def bnd_def or_raise_def working_def measured_def cached_def)
qed

lemma guarded_ok: "m s = (Inr (), s') \<Longrightarrow> guarded m s = (Inr (), s')"
  by (simp add: guarded_def try_catch_def)

lemma kinds [simp]:
  "map_of instrument_table PIPELINE_MESSAGES = Some Counter"
  "map_of instrument_table PIPELINE_MESSAGE_DURATION = Some Histogram"
  "map_of instrument_table MESSAGING_CONSUMED_MESSAGES = Some Counter"
  "map_of instrument_table MESSAGING_OPERATION_DURATION = Some Histogram"
  by (simp_all add: instrument_table_def metric_names)

text \<open>What one settled delivery is reported as.\<close>

definition settled_points :: "string \<Rightarrow> string \<Rightarrow> delivery_result \<Rightarrow> rat \<Rightarrow> point list" where
  "settled_points entity destination result d =
     [\<lparr>pt_name = PIPELINE_MESSAGES, pt_value = 1,
        pt_attributes = [(''source'', PIPELINE_SOURCE), (''entity'', entity), (''outcome'', local_outcome result)]\<rparr>,
      \<lparr>pt_name = PIPELINE_MESSAGE_DURATION, pt_value = d, pt_attributes = [(''source'', PIPELINE_SOURCE), (''entity'', entity)]\<rparr>,
      \<lparr>pt_name = MESSAGING_CONSUMED_MESSAGES, pt_value = 1, pt_attributes = consumed_attributes destination (dr_error_type result)\<rparr>,
      \<lparr>pt_name = MESSAGING_OPERATION_DURATION, pt_value = d, pt_attributes = consumed_attributes destination (dr_error_type result)\<rparr>]"

definition same_metrics :: "tel \<Rightarrow> tel \<Rightarrow> bool" where
  "same_metrics s s' \<longleftrightarrow> tel_points s' = tel_points s \<and> tel_cache s' = tel_cache s \<and> tel_created s' = tel_created s
     \<and> tel_destination s' = tel_destination s \<and> tel_message_span s' = tel_message_span s"

lemma same_metrics_orders [intro, simp]: "reflp same_metrics" "transp same_metrics"
  by (auto simp: reflp_def transp_def same_metrics_def)

lemma span_calls_metrics:
  "quiet same_metrics (mark_span_failed ot sp failure)" "quiet same_metrics (set_span_outcome ot sp outcome)"
proof -
  have "keeps same_metrics (do_span ot op)" for op
    unfolding do_span_def by (rule keeps_or_raise) (simp_all add: same_metrics_def)
  then show "quiet same_metrics (mark_span_failed ot sp failure)" "quiet same_metrics (set_span_outcome ot sp outcome)"
    unfolding mark_span_failed_def set_span_outcome_def quiet_def by (auto split: option.split)
qed

lemma settled_working:
  assumes "working ot" and "cache_ok s"
  shows "\<exists>s'. settled ot entity result d sp s = (Inr (), s')
    \<and> same_metrics (measured (settled_points entity (tel_destination s) result d) s) s'"
proof -
  let ?s2 = "measured (settled_points entity (tel_destination s) result d) s"
  let ?tail = "andthen (set_span_outcome ot sp (local_outcome result))
      (case dr_error_type result of None \<Rightarrow> ret () | Some t \<Rightarrow> mark_span_failed ot sp t)"
  have "quiet same_metrics ?tail"
    by (auto intro!: quiet_andthen span_calls_metrics split: option.split)
  then obtain s' where tail: "?tail ?s2 = (Inr (), s')" "same_metrics ?s2 s'"
    unfolding quiet_def succeeds_def by (metis keepsD unit.exhaust)
  let ?s1 = "measured (take 2 (settled_points entity (tel_destination s) result d)) s"
  have 1: "record_pipeline_message ot entity (local_outcome result) d s = (Inr (), ?s1)"
    unfolding record_pipeline_message_def using assms
    by (intro guarded_ok) (simp add: andthen_def bnd_def measure_working settled_points_def)
  have 2: "record_consumed_message ot (tel_destination s) d (dr_error_type result) ?s1 = (Inr (), ?s2)"
    unfolding record_consumed_message_def using assms(1)
    by (intro guarded_ok) (simp add: andthen_def bnd_def measure_working settled_points_def)
  have "settled ot entity result d sp s = ?tail ?s2"
    using 1 2 by (simp add: settled_def andthen_def bnd_def)
  with tail show ?thesis by auto
qed

lemma consume_span_cases:
  obtains (unspanned) "consume_span ot destination headers body s = body None s"
    | (spanned) n where "consume_span ot destination headers body s
        = (fst (body (Some n) s), (snd (body (Some n) s))\<lparr>tel_span_ops := tel_span_ops (snd (body (Some n) s)) @ [EndSpan n]\<rparr>)"
    | (refused) parent x where "ot_enter ot (''process '' @ destination) parent (consumed_attributes destination None) = Inl x"
        "consume_span ot destination headers body s = (Inl x, s)"
proof -
  show thesis
  proof (cases "span_manager ot (''process '' @ destination) headers")
    case (Inl x)
    then show ?thesis by (intro unspanned) (simp add: consume_span_def Let_def)
  next
    case manager: (Inr parent)
    show ?thesis
    proof (cases "ot_enter ot (''process '' @ destination) parent (consumed_attributes destination None)")
      case (Inl x)
      with manager show ?thesis by (intro refused [OF Inl]) (simp add: consume_span_def Let_def)
    next
      case (Inr n)
      with manager show ?thesis
        by (intro spanned [of n]) (simp add: consume_span_def Let_def finally_do_def split: prod.split)
    qed
  qed
qed

text \<open>The state a block is entered with, and what is put back behind it.\<close>

definition entered :: "otel \<Rightarrow> string \<Rightarrow> nat option \<Rightarrow> tel \<Rightarrow> tel" where
  "entered ot destination sp s = s\<lparr>tel_message_span := span_context_of ot sp, tel_destination := destination\<rparr>"

definition restored :: "tel \<Rightarrow> nat option \<Rightarrow> tel \<Rightarrow> tel" where
  "restored s sp t = t\<lparr>tel_destination := tel_destination s, tel_message_span := tel_message_span s,
     tel_span_ops := tel_span_ops t @ (case sp of None \<Rightarrow> [] | Some n \<Rightarrow> [EndSpan n])\<rparr>"

lemma delivery_observation_cases:
  assumes "delivery_observation ot destination headers body s = (r, s')"
  obtains (ran) sp s2 where "body sp (entered ot destination sp s) = (r, s2)" "s' = restored s sp s2"
    | (refused) parent x where "ot_enter ot (''process '' @ destination) parent (consumed_attributes destination None) = Inl x"
        "r = Inl x" "s' = s"
proof -
  let ?block = "\<lambda>sp. bnd get_state (\<lambda>before.
         andthen (modify (\<lambda>s. s\<lparr>tel_message_span := span_context_of ot sp, tel_destination := destination\<rparr>))
         (finally_do (body sp)
           (\<lambda>s. s\<lparr>tel_destination := tel_destination before, tel_message_span := tel_message_span before\<rparr>)))"
  have block: "?block sp s = (fst (body sp (entered ot destination sp s)),
      (snd (body sp (entered ot destination sp s)))\<lparr>tel_destination := tel_destination s, tel_message_span := tel_message_span s\<rparr>)" for sp
    by (simp add: bnd_def andthen_def finally_do_def entered_def split: prod.split)
  have run: "consume_span ot destination (mapping_headers headers) ?block s = (r, s')"
    using assms by (simp add: delivery_observation_def)
  show thesis
  proof (cases rule: consume_span_cases [of ot destination "mapping_headers headers" ?block s])
    case unspanned
    with run have "body None (entered ot destination None s) = (r, snd (body None (entered ot destination None s)))"
      "s' = restored s None (snd (body None (entered ot destination None s)))"
      by (simp_all only: block) (auto simp: restored_def prod_eq_iff)
    then show ?thesis by (rule ran)
  next
    case (spanned n)
    with run have "body (Some n) (entered ot destination (Some n) s) = (r, snd (body (Some n) (entered ot destination (Some n) s)))"
      "s' = restored s (Some n) (snd (body (Some n) (entered ot destination (Some n) s)))"
      by (simp_all only: block) (auto simp: restored_def prod_eq_iff)
    then show ?thesis by (rule ran)
  next
    case (refused parent x)
    with run show ?thesis by (intro that(2) [OF refused(1)]) simp_all
  qed
qed

section \<open>A demonstration meter\<close>

definition demo_otel :: otel where
  "demo_otel = \<lparr>ot_get_meter = None, ot_create = (\<lambda>_. None), ot_measure = (\<lambda>_. None), ot_extract = (\<lambda>_. Inr 7),
     ot_manager = (\<lambda>_. None), ot_enter = (\<lambda>_ _ _. Inr 3), ot_span = (\<lambda>_. None), ot_span_context = (\<lambda>_. Inr (Some 9)),
     ot_valid = (\<lambda>c. c = 9)\<rparr>"

definition demo_tel :: tel where
  "demo_tel = \<lparr>tel_cache = None, tel_created = [], tel_points = [], tel_span_ops = [], tel_message_span = None,
     tel_destination = ''unknown''\<rparr>"

lemma demo_observation:
  "delivery_observation demo_otel q JNull body demo_tel
     = (fst (body (Some 3) (entered demo_otel q (Some 3) demo_tel)),
        restored demo_tel (Some 3) (snd (body (Some 3) (entered demo_otel q (Some 3) demo_tel))))"
  by (simp add: delivery_observation_def consume_span_def span_manager_def parent_context_def mapping_headers_def
      demo_otel_def bnd_def andthen_def finally_do_def entered_def restored_def split: prod.split)

section \<open>Properties\<close>

text \<open>
  C26.  Telemetry never decides a delivery: whatever OpenTelemetry answers, telling it a settled delivery,
  every observation of a batch, a veto count or a change of the consumers returns normally and leaves
  the span and the destination of the delivery in progress as they were.
\<close>

theorem telemetry_never_raises:
  "quiet same_context (settled ot entity result d sp)
   \<and> quiet same_context (for_each (replay (record_batch_flush ot) (record_alias_conflict ot) (set_span_outcome ot) sp d) obs)
   \<and> quiet same_context (record_purge_consecutive_vetoes ot n)
   \<and> quiet same_context (record_consumer_delta ot delta)"
  by (intro conjI settled_context runtime.replay_all_quiet recorders_quiet)

text \<open>
  C25.  The observation of a delivery ends with it: the block runs with the delivery's destination and with
  its span context as the one link of a flush, which is absent when the span has no valid context, and
  afterwards, whether it returned or raised, both variables are what they were and the span is ended.
  Without a span the block still runs; only entering the span can fail the delivery before it.
\<close>

theorem observation_ends_with_delivery:
  assumes "delivery_observation ot destination headers body s = (r, s')"
  shows "(\<exists>sp s1 s2. body sp s1 = (r, s2) \<and> same_context s s'
      \<and> tel_destination s1 = destination \<and> tel_points s1 = tel_points s \<and> tel_points s' = tel_points s2
      \<and> flush_links s1 = (case span_context_of ot sp of None \<Rightarrow> [] | Some c \<Rightarrow> [c])
      \<and> (\<forall>c \<in> set (flush_links s1). ot_valid ot c)
      \<and> tel_span_ops s' = tel_span_ops s2 @ (case sp of None \<Rightarrow> [] | Some n \<Rightarrow> [EndSpan n]))
    \<or> (\<exists>x parent attrs. ot_enter ot (''process '' @ destination) parent attrs = Inl x \<and> r = Inl x \<and> s' = s)"
  using assms
proof (cases rule: delivery_observation_cases)
  case (ran sp s2)
  have "flush_links (entered ot destination sp s) = (case span_context_of ot sp of None \<Rightarrow> [] | Some c \<Rightarrow> [c])"
    by (simp add: flush_links_def entered_def)
  moreover have "\<forall>c \<in> set (flush_links (entered ot destination sp s)). ot_valid ot c"
    by (auto simp: flush_links_def entered_def span_context_of_def split: option.splits sum.splits if_splits)
  moreover have "same_context s s'" "tel_points s' = tel_points s2"
    "tel_span_ops s' = tel_span_ops s2 @ (case sp of None \<Rightarrow> [] | Some n \<Rightarrow> [EndSpan n])"
    by (simp_all add: ran(2) restored_def same_context_def)
  ultimately show ?thesis using ran(1)
    by (intro disjI1 exI [of _ sp] exI [of _ "entered ot destination sp s"] exI [of _ s2]) (simp add: entered_def)
qed blast

theorem observation_ends_with_delivery_witness:
  "\<exists>s'. delivery_observation demo_otel ''q'' JNull (\<lambda>_. raise (py_error ''ValueError'')) demo_tel
       = (Inl (py_error ''ValueError'') :: exn + unit, s')
     \<and> same_context demo_tel s' \<and> tel_span_ops s' \<noteq> []"
proof -
  let ?body = "\<lambda>sp :: nat option. raise (py_error ''ValueError'') :: (tel, unit) eff"
  obtain s' where run: "delivery_observation demo_otel ''q'' JNull ?body demo_tel = (Inl (py_error ''ValueError''), s')"
    by (simp add: demo_observation)
  have "ot_enter demo_otel name parent attrs = Inr 3" for name parent attrs by (simp add: demo_otel_def)
  with observation_ends_with_delivery [OF run] have "same_context demo_tel s'" by auto
  moreover have "tel_span_ops s' \<noteq> []" using run by (auto simp: demo_observation restored_def)
  ultimately show ?thesis using run by blast
qed



end
