(* ===== verification/Repository_Tools.thy ===== *)
theory Repository_Tools
  imports Loader_Prelude "HOL-Library.Multiset"
begin

text \<open>
  The two checks of \<open>scripts/\<close> that decide something: the inventory of tests without an outcome
  assertion (\<open>audit_test_assertions.py\<close>) and the verdict on a version bump (\<open>check_bump_preview.py\<close>).

  A parsed file is a tree of the node classes the audit tells apart; every other class is \<open>Plain\<close> with its
  children.  \<open>ast.parse\<close>, the walk over the directory and the process that is run are outside: the audit takes
  the files as pairs of a relative path and its module, in the order of their sorted paths.
\<close>

section \<open>Syntax trees\<close>

text \<open>\<open>Def\<close> is a \<open>FunctionDef\<close> or \<open>AsyncFunctionDef\<close>: name, line, decorators, the other fields, body.\<close>

datatype ast =
    Def string nat "ast list" "ast list" "ast list"
  | ClassDef "ast list"
  | Lambda "ast list"
  | Assert "ast list"
  | Call ast "ast list"
  | Attribute ast string
  | Name string
  | Plain "ast list"

fun children :: "ast \<Rightarrow> ast list" where
  "children (Def _ _ decorators rest body) = decorators @ rest @ body"
| "children (ClassDef ns) = ns"
| "children (Lambda ns) = ns"
| "children (Assert ns) = ns"
| "children (Call f ns) = f # ns"
| "children (Attribute n _) = [n]"
| "children (Name _) = []"
| "children (Plain ns) = ns"

lemma size_child [termination_simp]: "n \<in> set (children m) \<Longrightarrow> size n < size m"
  by (cases m) (auto simp: less_Suc_eq_le dest: size_list_estimation' [OF _ order_refl] intro: trans_le_add1 trans_le_add2)

text \<open>\<open>ast.walk\<close> promises no order, and what the audit takes from it is sorted.\<close>

function walk :: "ast \<Rightarrow> ast list" where
  "walk n = n # concat (map walk (children n))"
  by pat_completeness auto
termination by (relation "measure size") (auto intro: size_child)

declare walk.simps [simp del]

section \<open>The assertion visitor\<close>

definition MOCK_CALL_ASSERTIONS :: "string list" where
  "MOCK_CALL_ASSERTIONS =
     [''assert_any_await'', ''assert_any_call'', ''assert_awaited'', ''assert_awaited_once'',
      ''assert_awaited_once_with'', ''assert_awaited_with'', ''assert_called'', ''assert_called_once'',
      ''assert_called_once_with'', ''assert_called_with'', ''assert_has_awaits'', ''assert_has_calls'',
      ''assert_not_awaited'', ''assert_not_called'']"

definition PYTEST_OUTCOME_HELPERS :: "string list" where
  "PYTEST_OUTCOME_HELPERS = [''deprecated_call'', ''raises'', ''warns'']"

definition is_name :: "string \<Rightarrow> ast \<Rightarrow> bool" where
  "is_name s n = (case n of Name t \<Rightarrow> t = s | _ \<Rightarrow> False)"

text \<open>What a called attribute adds to the two counters: outcome assertions, mock-call assertions.\<close>

definition visit_call :: "ast \<Rightarrow> nat \<times> nat" where
  "visit_call func = (case func of
     Attribute owner method \<Rightarrow>
       if method \<in> set MOCK_CALL_ASSERTIONS then (0, 1)
       else if take 6 method = ''assert'' \<or> (method \<in> set PYTEST_OUTCOME_HELPERS \<and> is_name ''pytest'' owner) then (1, 0)
       else (0, 0)
   | _ \<Rightarrow> (0, 0))"

definition plus2 :: "nat \<times> nat \<Rightarrow> nat \<times> nat \<Rightarrow> nat \<times> nat" where
  "plus2 = (\<lambda>(a, b) (c, d). (a + c, b + d))"

fun visit :: "ast \<Rightarrow> nat \<times> nat" and visit_all :: "ast list \<Rightarrow> nat \<times> nat" where
  "visit (Assert ns) = plus2 (1, 0) (visit_all ns)"
| "visit (Call f ns) = plus2 (visit_call f) (plus2 (visit f) (visit_all ns))"
| "visit (Def _ _ _ _ _) = (0, 0)"
| "visit (ClassDef _) = (0, 0)"
| "visit (Lambda _) = (0, 0)"
| "visit (Attribute n _) = visit n"
| "visit (Name _) = (0, 0)"
| "visit (Plain ns) = visit_all ns"
| "visit_all [] = (0, 0)"
| "visit_all (n # ns) = plus2 (visit n) (visit_all ns)"

definition decorator_is_fixture :: "ast \<Rightarrow> bool" where
  "decorator_is_fixture decorator =
     (let target = (case decorator of Call f _ \<Rightarrow> f | _ \<Rightarrow> decorator)
      in case target of
           Attribute owner attr \<Rightarrow> is_name ''pytest'' owner \<and> attr = ''fixture''
         | Name s \<Rightarrow> s = ''fixture''
         | _ \<Rightarrow> False)"

definition is_pytest_fixture :: "ast list \<Rightarrow> bool" where
  "is_pytest_fixture decorators = list_ex decorator_is_fixture decorators"

section \<open>The audit\<close>

record audit_result =
  au_test_functions :: nat
  au_assertion_free_count :: nat
  au_call_only_count :: nat
  au_assertion_free :: "string list"
  au_call_only :: "string list"

fun test_of :: "string \<Rightarrow> ast \<Rightarrow> (string \<times> ast list) option" where
  "test_of path (Def name line decorators rest body) =
     (if take 5 name = ''test_'' \<and> \<not> is_pytest_fixture decorators
      then Some (path @ '':'' @ show_nat line @ '':'' @ name, body) else None)"
| "test_of path _ = None"

definition tests_of :: "string \<times> ast \<Rightarrow> (string \<times> ast list) list" where
  "tests_of = (\<lambda>(path, tree). List.map_filter (test_of path) (walk tree))"

text \<open>\<open>sorted(tests)\<close> compares the nodes of two equal identifiers, which raises.\<close>

definition sorted_tests :: "(string \<times> ast list) list \<Rightarrow> exn + (string \<times> ast list) list" where
  "sorted_tests tests =
     (if distinct (map fst tests) then Inr (sort_key fst tests) else Inl (py_error ''TypeError''))"

definition assertion_free :: "ast list \<Rightarrow> bool" where
  "assertion_free body \<longleftrightarrow> visit_all body = (0, 0)"

definition call_only :: "ast list \<Rightarrow> bool" where
  "call_only body \<longleftrightarrow> fst (visit_all body) = 0 \<and> snd (visit_all body) \<noteq> 0"

definition audit :: "(string \<times> ast) list \<Rightarrow> exn + audit_result" where
  "audit files = (let tests = concat (map tests_of files) in
     rbind (sorted_tests tests) (\<lambda>sorted.
       let free = map fst (filter (\<lambda>t. assertion_free (snd t)) sorted);
           only = map fst (filter (\<lambda>t. call_only (snd t)) sorted)
       in Inr \<lparr>au_test_functions = length tests, au_assertion_free_count = length free, au_call_only_count = length only,
               au_assertion_free = free, au_call_only = only\<rparr>))"

text \<open>What \<open>main\<close> prints without \<open>--json\<close>, line by line.\<close>

definition audit_lines :: "audit_result \<Rightarrow> string list" where
  "audit_lines r =
     [''test functions: '' @ show_nat (au_test_functions r),
      ''assertion-free: '' @ show_nat (au_assertion_free_count r),
      ''call-only: '' @ show_nat (au_call_only_count r)]
     @ concat (map (\<lambda>(heading, ids). ['''', heading @ '':''] @ map (\<lambda>i. ''  '' @ i) ids)
         [(''assertion-free tests'', au_assertion_free r), (''call-only tests'', au_call_only r)])"

section \<open>The bump preview\<close>

fun occurs_in :: "string \<Rightarrow> string \<Rightarrow> bool" where
  "occurs_in marker [] = (marker = [])"
| "occurs_in marker (c # cs) = (take (length marker) (c # cs) = marker \<or> occurs_in marker cs)"

definition NO_COMMITS_EXIT :: int where "NO_COMMITS_EXIT = 3"

definition NO_COMMITS_MARKERS :: "string list" where
  "NO_COMMITS_MARKERS = [''[NO_COMMITS_FOUND]'', ''No new commits found.'']"

definition RELEASE_GAP_EXIT :: int where "RELEASE_GAP_EXIT = 16"

definition RELEASE_GAP_MARKERS :: "string list" where
  "RELEASE_GAP_MARKERS = [''bump: version '', ''tag to create: v'', ''increment detected: '',
     ''No tag found to do an incremental changelog'']"

definition NOT_ELIGIBLE_EXIT :: int where "NOT_ELIGIBLE_EXIT = 21"

definition NOT_ELIGIBLE_MARKERS :: "string list" where
  "NOT_ELIGIBLE_MARKERS = [''[NO_COMMITS_TO_BUMP]'', ''The commits found are not eligible to be bumped'']"

definition accepted_result :: "int \<Rightarrow> string \<Rightarrow> bool" where
  "accepted_result returncode output \<longleftrightarrow>
     returncode = 0
     \<or> (returncode = NO_COMMITS_EXIT \<and> (\<forall>m \<in> set NO_COMMITS_MARKERS. occurs_in m output))
     \<or> (returncode = RELEASE_GAP_EXIT \<and> (\<forall>m \<in> set RELEASE_GAP_MARKERS. occurs_in m output))
     \<or> (returncode = NOT_ELIGIBLE_EXIT \<and> (\<forall>m \<in> set NOT_ELIGIBLE_MARKERS. occurs_in m output))"

definition preview_status :: "int \<Rightarrow> string \<Rightarrow> string \<Rightarrow> int" where
  "preview_status returncode stdout stderr =
     (if accepted_result returncode (stdout @ [CHR 0x0A] @ stderr) then 0 else returncode)"

section \<open>The scope of a test\<close>

definition opens_scope :: "ast \<Rightarrow> bool" where
  "opens_scope m = (case m of Def _ _ _ _ _ \<Rightarrow> True | ClassDef _ \<Rightarrow> True | Lambda _ \<Rightarrow> True | _ \<Rightarrow> False)"

text \<open>The reference: the nodes of a test's own scope, those reached without entering a nested one.\<close>

inductive own :: "ast list \<Rightarrow> ast \<Rightarrow> bool" for body where
  top: "n \<in> set body \<Longrightarrow> own body n"
| below: "own body m \<Longrightarrow> \<not> opens_scope m \<Longrightarrow> n \<in> set (children m) \<Longrightarrow> own body n"

text \<open>An outcome assertion and a mock-call assertion, as single nodes.\<close>

definition is_outcome :: "ast \<Rightarrow> bool" where
  "is_outcome n = (case n of Assert _ \<Rightarrow> True | Call f _ \<Rightarrow> fst (visit_call f) \<noteq> 0 | _ \<Rightarrow> False)"

definition is_mock_call :: "ast \<Rightarrow> bool" where
  "is_mock_call n = (case n of Call f _ \<Rightarrow> snd (visit_call f) \<noteq> 0 | _ \<Rightarrow> False)"

section \<open>Lemmas\<close>

lemma own_mono: "own body n \<Longrightarrow> set body \<subseteq> set body' \<Longrightarrow> own body' n"
  by (induction rule: own.induct) (auto intro: own.intros)

lemma own_self: "own [n] n"
  by (rule own.top) simp

lemma own_child: "n \<in> set (children m) \<Longrightarrow> \<not> opens_scope m \<Longrightarrow> own [m] n"
  using own_self own.below by blast

lemma own_member: "own body m \<longleftrightarrow> (\<exists>n \<in> set body. own [n] m)"
proof
  show "own body m \<Longrightarrow> \<exists>n \<in> set body. own [n] m"
    by (induction rule: own.induct) (auto intro: own_self own.below)
  show "\<exists>n \<in> set body. own [n] m \<Longrightarrow> own body m"
    by (auto intro: own_mono)
qed

lemma own_single: "own [n] m \<longleftrightarrow> m = n \<or> \<not> opens_scope n \<and> own (children n) m"
proof
  show "own [n] m \<Longrightarrow> m = n \<or> \<not> opens_scope n \<and> own (children n) m"
    by (induction rule: own.induct) (auto intro: own.intros)
  show "m = n \<or> \<not> opens_scope n \<and> own (children n) m \<Longrightarrow> own [n] m"
  proof (elim disjE conjE)
    show "m = n \<Longrightarrow> own [n] m" by (simp add: own_self)
    assume "own (children n) m" and "\<not> opens_scope n"
    then show "own [n] m"
      by (induction rule: own.induct) (auto intro: own_child own.below)
  qed
qed

lemma own_Nil [simp]: "\<not> own [] m"
  by (simp add: own_member [of "[]"])

lemma own_Cons: "own (n # ns) m \<longleftrightarrow> own [n] m \<or> own ns m"
  using own_member [of "n # ns" m] own_member [of ns m] by auto

lemma plus2_simps [simp]: "fst (plus2 p q) = fst p + fst q" "snd (plus2 p q) = snd p + snd q"
  by (auto simp: plus2_def split: prod.split)

definition some_own :: "(ast \<Rightarrow> bool) \<Rightarrow> ast list \<Rightarrow> bool" where
  "some_own P body \<longleftrightarrow> (\<exists>m. own body m \<and> P m)"

lemma some_own_simps [simp]:
  "\<not> some_own P []" "some_own P (n # m # ns) \<longleftrightarrow> some_own P [n] \<or> some_own P (m # ns)"
  by (auto simp: some_own_def own_Cons [of n "m # ns"])

lemma some_own_Cons: "some_own P (n # ns) \<longleftrightarrow> some_own P [n] \<or> some_own P ns"
  by (auto simp: some_own_def own_Cons [of n ns])

lemma some_own_single: "some_own P [n] \<longleftrightarrow> P n \<or> \<not> opens_scope n \<and> some_own P (children n)"
  by (auto simp: some_own_def own_single)

lemma some_own_nodes:
  "some_own P [Def a l ds rs b] = P (Def a l ds rs b)" "some_own P [ClassDef ns] = P (ClassDef ns)"
  "some_own P [Lambda ns] = P (Lambda ns)" "some_own P [Assert ns] \<longleftrightarrow> P (Assert ns) \<or> some_own P ns"
  "some_own P [Call f ns] \<longleftrightarrow> P (Call f ns) \<or> some_own P [f] \<or> some_own P ns"
  "some_own P [Attribute n a] \<longleftrightarrow> P (Attribute n a) \<or> some_own P [n]"
  "some_own P [Name a] = P (Name a)" "some_own P [Plain ns] \<longleftrightarrow> P (Plain ns) \<or> some_own P ns"
proof -
  note single = some_own_single [of P]
  show "some_own P [Def a l ds rs b] = P (Def a l ds rs b)" "some_own P [ClassDef ns] = P (ClassDef ns)"
    "some_own P [Lambda ns] = P (Lambda ns)"
    by (simp_all add: single opens_scope_def)
  show "some_own P [Assert ns] \<longleftrightarrow> P (Assert ns) \<or> some_own P ns" by (simp add: single [of "Assert ns"] opens_scope_def)
  show "some_own P [Call f ns] \<longleftrightarrow> P (Call f ns) \<or> some_own P [f] \<or> some_own P ns"
    by (simp add: single [of "Call f ns"] some_own_Cons [of P f ns] opens_scope_def)
  show "some_own P [Attribute n a] \<longleftrightarrow> P (Attribute n a) \<or> some_own P [n]"
    by (simp add: single [of "Attribute n a"] opens_scope_def)
  show "some_own P [Name a] = P (Name a)" by (simp add: single [of "Name a"])
  show "some_own P [Plain ns] \<longleftrightarrow> P (Plain ns) \<or> some_own P ns" by (simp add: single [of "Plain ns"] opens_scope_def)
qed

text \<open>The visitor counts exactly the assertions of the own scope, as far as being zero goes.\<close>

lemma visit_counts:
  "(0 < fst (visit n) \<longleftrightarrow> some_own is_outcome [n]) \<and> (0 < snd (visit n) \<longleftrightarrow> some_own is_mock_call [n])"
  "(0 < fst (visit_all ns) \<longleftrightarrow> some_own is_outcome ns) \<and> (0 < snd (visit_all ns) \<longleftrightarrow> some_own is_mock_call ns)"
proof (induction n and ns rule: visit_visit_all.induct)
  case (10 n ns)
  then show ?case by (auto simp: some_own_Cons [of _ n ns])
qed (simp_all add: some_own_nodes is_outcome_def is_mock_call_def)

text \<open>A test and the text that names it.\<close>

definition is_test :: "(string \<times> ast) list \<Rightarrow> string \<Rightarrow> ast list \<Rightarrow> bool" where
  "is_test files i body \<longleftrightarrow> (\<exists>path tree name line decorators rest. (path, tree) \<in> set files
     \<and> Def name line decorators rest body \<in> set (walk tree) \<and> take 5 name = ''test_''
     \<and> (\<forall>d \<in> set decorators. \<not> decorator_is_fixture d) \<and> i = path @ '':'' @ show_nat line @ '':'' @ name)"

lemma test_of_iff: "test_of path n = Some (i, body) \<longleftrightarrow>
  (\<exists>name line decorators rest. n = Def name line decorators rest body \<and> take 5 name = ''test_''
     \<and> (\<forall>d \<in> set decorators. \<not> decorator_is_fixture d) \<and> i = path @ '':'' @ show_nat line @ '':'' @ name)"
  by (cases "(path, n)" rule: test_of.cases) (auto simp: is_pytest_fixture_def list_ex_iff)

lemma mem_tests: "(i, body) \<in> set (concat (map tests_of files)) \<longleftrightarrow> is_test files i body"
proof -
  have "(i, body) \<in> set (tests_of (path, tree)) \<longleftrightarrow> (\<exists>n \<in> set (walk tree). test_of path n = Some (i, body))" for path tree
    by (simp add: tests_of_def mem_map_filter)
  then have "(i, body) \<in> set (concat (map tests_of files)) \<longleftrightarrow>
      (\<exists>path tree n. (path, tree) \<in> set files \<and> n \<in> set (walk tree) \<and> test_of path n = Some (i, body))"
    by fastforce
  also have "\<dots> \<longleftrightarrow> is_test files i body"
    unfolding is_test_def test_of_iff by blast
  finally show ?thesis .
qed

text \<open>A marker without the separating character is in the joined output exactly when one stream has it.\<close>

lemma occurs_in_joined:
  assumes "y \<notin> set m" and "m \<noteq> []"
  shows "occurs_in m (xs @ y # ys) \<longleftrightarrow> occurs_in m xs \<or> occurs_in m ys"
proof (induction xs)
  case Nil
  have "take (length m) (y # ys) \<noteq> m" using assms by (cases m) auto
  then show ?case using assms(2) by simp
next
  case (Cons c xs)
  have "take (length m) ((c # xs) @ y # ys) = m \<longleftrightarrow> take (length m) (c # xs) = m"
  proof (cases "length m \<le> length (c # xs)")
    case False
    then obtain k where k: "length m - length (c # xs) = Suc k" by (metis Suc_diff_Suc not_le)
    have "take (length m) ((c # xs) @ y # ys) = take (length m) (c # xs) @ take (Suc k) (y # ys)"
      unfolding take_append k ..
    then have "y \<in> set (take (length m) ((c # xs) @ y # ys))" by simp
    moreover have "take (length m) (c # xs) \<noteq> m"
    proof
      assume "take (length m) (c # xs) = m"
      then have "length (take (length m) (c # xs)) = length m" by simp
      with False show False by simp
    qed
    ultimately show ?thesis using assms(1) by metis
  next
    case True
    then have "take (length m) ((c # xs) @ y # ys) = take (length m) (c # xs)" unfolding take_append by simp
    then show ?thesis by simp
  qed
  with Cons.IH show ?case by auto
qed

lemma preview_markers:
  "m \<in> set NO_COMMITS_MARKERS \<union> set RELEASE_GAP_MARKERS \<union> set NOT_ELIGIBLE_MARKERS \<Longrightarrow> CHR 0x0A \<notin> set m \<and> m \<noteq> []"
  by (auto simp: NO_COMMITS_MARKERS_def RELEASE_GAP_MARKERS_def NOT_ELIGIBLE_MARKERS_def)

section \<open>Properties\<close>

text \<open>
  C36.  The audit finds exactly the tests that assert nothing: it lists, each once and in order, the test
  functions of the scanned files whose own scope - nested functions, classes and lambdas left out - has
  neither an outcome assertion nor a mock-call assertion, and separately those whose own scope has
  mock-call assertions only.
\<close>

theorem audit_finds_untested:
  assumes "audit files = Inr r"
  shows "(i \<in> set (au_assertion_free r) \<longleftrightarrow>
      (\<exists>body. is_test files i body \<and> (\<forall>n. own body n \<longrightarrow> \<not> is_outcome n \<and> \<not> is_mock_call n)))
    \<and> (i \<in> set (au_call_only r) \<longleftrightarrow>
      (\<exists>body. is_test files i body \<and> (\<forall>n. own body n \<longrightarrow> \<not> is_outcome n) \<and> (\<exists>n. own body n \<and> is_mock_call n)))
    \<and> sorted (au_assertion_free r) \<and> distinct (au_assertion_free r)
    \<and> sorted (au_call_only r) \<and> distinct (au_call_only r)
    \<and> au_assertion_free_count r = length (au_assertion_free r) \<and> au_call_only_count r = length (au_call_only r)"
proof -
  let ?tests = "concat (map tests_of files)"
  from assms obtain distinct: "distinct (map fst ?tests)"
    and free: "au_assertion_free r = map fst (filter (\<lambda>t. assertion_free (snd t)) (sort_key fst ?tests))"
    and only: "au_call_only r = map fst (filter (\<lambda>t. call_only (snd t)) (sort_key fst ?tests))"
    and counts: "au_assertion_free_count r = length (au_assertion_free r)" "au_call_only_count r = length (au_call_only r)"
    by (auto simp: audit_def sorted_tests_def Let_def split: if_splits)
  have order: "sorted (map fst (filter P (sort_key fst ?tests)))" for P
    by (rule sorted_filter) simp
  have once: "distinct (map fst (filter P (sort_key fst ?tests)))" for P
  proof -
    have "mset (map fst (sort_key fst ?tests)) = mset (map fst ?tests)" by simp
    with distinct have "distinct (map fst (sort_key fst ?tests))" using mset_eq_imp_distinct_iff by blast
    then show ?thesis by (rule distinct_map_filter)
  qed
  have own: "assertion_free body \<longleftrightarrow> (\<forall>n. own body n \<longrightarrow> \<not> is_outcome n \<and> \<not> is_mock_call n)"
    "call_only body \<longleftrightarrow> (\<forall>n. own body n \<longrightarrow> \<not> is_outcome n) \<and> (\<exists>n. own body n \<and> is_mock_call n)" for body
    using visit_counts(2) [of body] by (auto simp: assertion_free_def call_only_def some_own_def prod_eq_iff)
  have mem: "i \<in> set (map fst (filter (\<lambda>t. P (snd t)) (sort_key fst ?tests))) \<longleftrightarrow> (\<exists>body. is_test files i body \<and> P body)" for P
  proof -
    have "i \<in> set (map fst (filter (\<lambda>t. P (snd t)) (sort_key fst ts))) \<longleftrightarrow> (\<exists>body. (i, body) \<in> set ts \<and> P body)"
      for ts :: "(string \<times> ast list) list"
      by force
    then show ?thesis by (simp only: mem_tests [symmetric])
  qed
  have "i \<in> set (au_assertion_free r) \<longleftrightarrow>
      (\<exists>body. is_test files i body \<and> (\<forall>n. own body n \<longrightarrow> \<not> is_outcome n \<and> \<not> is_mock_call n))"
    unfolding free mem unfolding own ..
  moreover have "i \<in> set (au_call_only r) \<longleftrightarrow>
      (\<exists>body. is_test files i body \<and> (\<forall>n. own body n \<longrightarrow> \<not> is_outcome n) \<and> (\<exists>n. own body n \<and> is_mock_call n))"
    unfolding only mem unfolding own ..
  ultimately show ?thesis using counts order once unfolding free only by blast
qed

definition demo_module :: ast where
  "demo_module = Plain [
     Def ''test_nested'' 3 [] [] [Def ''helper'' 4 [] [] [Assert []]],
     Def ''test_mock'' 9 [] [] [Plain [Call (Attribute (Name ''m'') ''assert_called'') []]],
     Def ''test_good'' 12 [] [] [Assert [Name ''x'']],
     Def ''test_fixture'' 15 [Call (Attribute (Name ''pytest'') ''fixture'') []] [] []]"

theorem audit_finds_untested_witness:
  "\<exists>r. audit [(''t.py'', demo_module)] = Inr r \<and> ''t.py:3:test_nested'' \<in> set (au_assertion_free r)
     \<and> sorted (au_assertion_free r) \<and> (\<exists>body. is_test [(''t.py'', demo_module)] ''t.py:9:test_mock'' body)"
proof -
  have "\<not> isl (audit [(''t.py'', demo_module)])" by code_simp
  then obtain r where run: "audit [(''t.py'', demo_module)] = Inr r"
    by (cases "audit [(''t.py'', demo_module)]") auto
  have "map_sum id (\<lambda>r. (au_assertion_free r, au_call_only r)) (audit [(''t.py'', demo_module)])
      = Inr ([''t.py:3:test_nested''], [''t.py:9:test_mock''])" by code_simp
  with run have "au_assertion_free r = [''t.py:3:test_nested'']" "au_call_only r = [''t.py:9:test_mock'']" by simp_all
  with audit_finds_untested [OF run, of "''t.py:9:test_mock''"] run show ?thesis by auto
qed

text \<open>
  A preview passes exactly in an explicit state: its exit status is zero if and only if the command
  succeeded, or ended with one of the three known statuses and wrote every marker of that status to one
  of its streams; otherwise the status is the command's own.
\<close>

theorem preview_passes_in_known_state:
  "(preview_status returncode out err = 0 \<longleftrightarrow> returncode = 0
     \<or> (\<exists>(status, markers) \<in> {(3, NO_COMMITS_MARKERS), (16, RELEASE_GAP_MARKERS), (21, NOT_ELIGIBLE_MARKERS)}.
          returncode = status \<and> (\<forall>m \<in> set markers. occurs_in m out \<or> occurs_in m err)))
   \<and> preview_status returncode out err \<in> {0, returncode}"
proof -
  have "occurs_in m (out @ [CHR 0x0A] @ err) \<longleftrightarrow> occurs_in m out \<or> occurs_in m err"
    if "m \<in> set NO_COMMITS_MARKERS \<union> set RELEASE_GAP_MARKERS \<union> set NOT_ELIGIBLE_MARKERS" for m
    using occurs_in_joined [of "CHR 0x0A" m out err] preview_markers [OF that] by simp
  then show ?thesis
    by (auto simp: preview_status_def accepted_result_def NO_COMMITS_EXIT_def RELEASE_GAP_EXIT_def NOT_ELIGIBLE_EXIT_def)
qed

end
