(* ===== verification/Release_Checks.thy ===== *)
theory Release_Checks
  imports Py_Values Repository_Tools
begin

text \<open>
  The checks a release runs before and after its build: the promoted contracts and dependency pins
  (\<open>scripts/check-contracts.py\<close>), the license and the version (\<open>scripts/check-license.py\<close>), and the build
  provenance (\<open>scripts/write-build-provenance.py\<close>).

  A file is the string of its bytes, under its path from the repository's root.  SHA-256, the text decoding and the
  parsers of JSON and TOML are parameters; a parsed document is a \<open>json\<close> value.  Reading is the first thing each check
  does, so a missing file or a malformed document ends it before any comparison.
\<close>

section \<open>Files and documents\<close>

type_synonym tree = "string \<Rightarrow> string option"

record tools =
  tl_sha256 :: "string \<Rightarrow> string"
  tl_decode :: "string \<Rightarrow> exn + string"
  tl_json :: "string \<Rightarrow> exn + json"
  tl_toml :: "string \<Rightarrow> exn + json"

definition read_bytes :: "tree \<Rightarrow> string \<Rightarrow> exn + string" where
  "read_bytes t path = (case t path of None \<Rightarrow> Inl (py_error ''FileNotFoundError'') | Some b \<Rightarrow> Inr b)"

text \<open>Text mode reads \<open>\r\n\<close> and \<open>\r\<close> as \<open>\n\<close>.\<close>

definition newline :: char where "newline = char_of (10 :: nat)"

definition carriage_return :: char where "carriage_return = char_of (13 :: nat)"

fun universal_newlines :: "string \<Rightarrow> string" where
  "universal_newlines [] = []"
| "universal_newlines [c] = [if c = carriage_return then newline else c]"
| "universal_newlines (c # d # cs) =
     (if c = carriage_return then newline # universal_newlines (if d = newline then cs else d # cs)
      else c # universal_newlines (d # cs))"

definition read_text :: "tools \<Rightarrow> tree \<Rightarrow> string \<Rightarrow> exn + string" where
  "read_text l t path = rbind (read_bytes t path) (\<lambda>b. rbind (tl_decode l b) (\<lambda>s. Inr (universal_newlines s)))"

definition load_json :: "tools \<Rightarrow> tree \<Rightarrow> string \<Rightarrow> exn + json" where
  "load_json l t path = rbind (read_text l t path) (tl_json l)"

definition load_toml :: "tools \<Rightarrow> tree \<Rightarrow> string \<Rightarrow> exn + json" where
  "load_toml l t path = rbind (read_bytes t path) (tl_toml l)"

definition digest :: "tools \<Rightarrow> tree \<Rightarrow> string \<Rightarrow> exn + string" where
  "digest l t path = rbind (read_bytes t path) (\<lambda>b. Inr (tl_sha256 l b))"

text \<open>\<open>v[k]\<close> for a string \<open>k\<close>, \<open>v[0]\<close>, and \<open>k in v\<close> for a string \<open>k\<close>.\<close>

fun item :: "json \<Rightarrow> string \<Rightarrow> exn + json" where
  "item (JObj d) k = (case map_of d k of None \<Rightarrow> Inl (py_error ''KeyError'') | Some v \<Rightarrow> Inr v)"
| "item _ k = Inl (py_error ''TypeError'')"

fun first_item :: "json \<Rightarrow> exn + json" where
  "first_item (JList []) = Inl (py_error ''IndexError'')"
| "first_item (JList (x # _)) = Inr x"
| "first_item (JStr []) = Inl (py_error ''IndexError'')"
| "first_item (JStr (c # _)) = Inr (JStr [c])"
| "first_item (JObj _) = Inl (py_error ''KeyError'')"
| "first_item _ = Inl (py_error ''TypeError'')"

fun contains :: "string \<Rightarrow> json \<Rightarrow> exn + bool" where
  "contains k (JObj d) = Inr (map_of d k \<noteq> None)"
| "contains k (JList xs) = Inr (JStr k \<in> set xs)"
| "contains k (JStr s) = Inr (occurs_in k s)"
| "contains k _ = Inl (py_error ''TypeError'')"

definition path_of :: "json \<Rightarrow> string list \<Rightarrow> exn + json" where
  "path_of v ks = fold (\<lambda>k r. rbind r (\<lambda>v. item v k)) ks (Inr v)"

text \<open>\<open>v == w\<close>: numbers by value, \<open>True\<close> and \<open>False\<close> as 1 and 0, dictionaries whatever their order.\<close>

fun number :: "json \<Rightarrow> rat option" where
  "number (JBool b) = Some (if b then 1 else 0)"
| "number (JInt i) = Some (of_int i)"
| "number (JFloat q) = Some q"
| "number _ = None"

fun py_eq :: "json \<Rightarrow> json \<Rightarrow> bool" where
  "py_eq (JList xs) w = (case w of JList ys \<Rightarrow> list_all2 py_eq xs ys | _ \<Rightarrow> False)"
| "py_eq (JObj d) w = (case w of
     JObj d' \<Rightarrow> length d = length d' \<and> list_all (\<lambda>(k, v). case map_of d' k of None \<Rightarrow> False | Some v' \<Rightarrow> py_eq v v') d
   | _ \<Rightarrow> False)"
| "py_eq (JStr s) w = (w = JStr s)"
| "py_eq JNull w = (w = JNull)"
| "py_eq v w = (number w = number v)"

text \<open>\<open>assert\<close>.\<close>

definition require :: "bool \<Rightarrow> exn + unit" where
  "require b = (if b then Inr () else Inl (py_error ''AssertionError''))"

definition assert_eq :: "exn + json \<Rightarrow> exn + json \<Rightarrow> exn + unit" where
  "assert_eq left right = rbind left (\<lambda>x. rbind right (\<lambda>y. require (py_eq x y)))"

text \<open>Statements one after the other: the first that raises ends the script.\<close>

fun in_turn :: "(exn + unit) list \<Rightarrow> exn + unit" where
  "in_turn [] = Inr ()"
| "in_turn (r # rs) = rbind r (\<lambda>_. in_turn rs)"

section \<open>Contracts and pins\<close>

definition PERSISTENCE_PRODUCER_COMMIT :: string where
  "PERSISTENCE_PRODUCER_COMMIT = ''8246bcb53ff3f51a7a51bf5d18ff32bca91cb828''"

definition SCHEMA_TESTED_RUNTIME_COMMIT :: string where
  "SCHEMA_TESTED_RUNTIME_COMMIT = ''6d0425f908e01a446b040e2993045e2afe30460e''"

definition APPLICATION_RUNTIME_COMMIT :: string where
  "APPLICATION_RUNTIME_COMMIT = ''87c0d75ca457bd38b14e6ce6f713098a2b4c5e26''"

definition contract_asserts :: "tools \<Rightarrow> tree \<Rightarrow> json \<Rightarrow> json \<Rightarrow> json \<Rightarrow> json \<Rightarrow> string \<Rightarrow> json \<Rightarrow> (exn + unit) list" where
  "contract_asserts l t catalog_source persistence_source compatibility runtime_compatibility lockfile pyproject =
     [assert_eq (rbind (digest l t ''contracts/catalog-events/v1/contract.json'') (Inr \<circ> JStr)) (item catalog_source ''contract_sha256''),
      assert_eq (rbind (digest l t ''brainztableinator/catalog_contract.py'') (Inr \<circ> JStr)) (item catalog_source ''binding_sha256''),
      assert_eq (rbind (digest l t ''contracts/persistence/v1/compatibility.json'') (Inr \<circ> JStr)) (item persistence_source ''contract_sha256''),
      assert_eq (item persistence_source ''producer_commit'') (Inr (JStr PERSISTENCE_PRODUCER_COMMIT)),
      assert_eq (item compatibility ''contract'') (Inr (JStr ''groovemap.persistence'')),
      assert_eq (item compatibility ''version'') (Inr (JInt 1)),
      rbind (item compatibility ''graph_schema'') (\<lambda>g. rbind (contains ''property_graph'' g) (\<lambda>b. require (\<not> b))),
      assert_eq (path_of compatibility [''application_runtime'', ''tested_version'']) (Inr (JStr ''0.1.0'')),
      assert_eq (path_of compatibility [''application_runtime'', ''tested_commit'']) (Inr (JStr SCHEMA_TESTED_RUNTIME_COMMIT)),
      assert_eq (path_of pyproject [''tool'', ''uv'', ''sources'', ''groovemap-runtime'', ''rev'']) (Inr (JStr APPLICATION_RUNTIME_COMMIT)),
      assert_eq (item runtime_compatibility ''runtime_commit'') (Inr (JStr APPLICATION_RUNTIME_COMMIT)),
      assert_eq (item runtime_compatibility ''producer_contract_commit'') (item catalog_source ''producer_commit''),
      rbind (path_of pyproject [''tool'', ''uv'', ''override-dependencies'']) (\<lambda>deps. rbind (first_item deps)
        (\<lambda>dep. rbind (contains APPLICATION_RUNTIME_COMMIT dep) require)),
      require (occurs_in (''python-libraries.git?rev='' @ APPLICATION_RUNTIME_COMMIT @ ''#'' @ APPLICATION_RUNTIME_COMMIT) lockfile)]"

definition check_contracts :: "tools \<Rightarrow> tree \<Rightarrow> exn + unit" where
  "check_contracts l t =
     rbind (load_json l t ''contracts/catalog-events/v1/source.json'') (\<lambda>catalog_source.
     rbind (load_json l t ''contracts/persistence/v1/source.json'') (\<lambda>persistence_source.
     rbind (load_json l t ''contracts/persistence/v1/compatibility.json'') (\<lambda>compatibility.
     rbind (load_json l t ''contracts/runtime/compatibility.json'') (\<lambda>runtime_compatibility.
     rbind (read_text l t ''uv.lock'') (\<lambda>lockfile.
     rbind (load_toml l t ''pyproject.toml'') (\<lambda>pyproject.
     in_turn (contract_asserts l t catalog_source persistence_source compatibility runtime_compatibility lockfile pyproject)))))))"

section \<open>License and version\<close>

definition quote :: char where "quote = char_of (34 :: nat)"

definition version_prefix :: string where "version_prefix = ''__version__ = '' @ [quote]"

text \<open>\<open>re.search(r'^__version__ = "([^"]+)"$', text, re.MULTILINE)\<close>: at the start of a line, or of the text.\<close>

definition version_here :: "string \<Rightarrow> string option" where
  "version_here s =
     (let rest = drop (length version_prefix) s; version = takeWhile (\<lambda>c. c \<noteq> quote) rest;
          after = drop (Suc (length version)) rest
      in if take (length version_prefix) s = version_prefix \<and> version \<noteq> [] \<and> length version < length rest
            \<and> (after = [] \<or> hd after = newline)
         then Some version else None)"

fun version_search :: "bool \<Rightarrow> string \<Rightarrow> string option" where
  "version_search line_start [] = None"
| "version_search line_start (c # cs) =
     (case (if line_start then version_here (c # cs) else None) of
        Some v \<Rightarrow> Some v
      | None \<Rightarrow> version_search (c = newline) cs)"

definition check_license :: "tools \<Rightarrow> tree \<Rightarrow> exn + unit" where
  "check_license l t =
     rbind (load_toml l t ''pyproject.toml'') (\<lambda>pyproject.
     rbind (item pyproject ''project'') (\<lambda>project.
     rbind (read_text l t ''brainztableinator/__init__.py'') (\<lambda>init.
     (case version_search True init of
        None \<Rightarrow> require False
      | Some version \<Rightarrow> in_turn
          [assert_eq (item project ''license'') (Inr (JStr ''MIT'')),
           assert_eq (item project ''version'') (Inr (JStr version)),
           rbind (read_text l t ''LICENSE'') (\<lambda>s. require (take 12 s = ''MIT License'' @ [newline]))]))))"

section \<open>Build provenance\<close>

text \<open>The document that is written: its strings, lists and dictionaries.\<close>

datatype doc = Text string | Items "doc list" | Fields "(string \<times> doc) list"

text \<open>\<open>json.dumps(v, indent=2, sort_keys=True)\<close>; a character outside printable ASCII is escaped.\<close>

definition escape_char :: "char \<Rightarrow> string" where
  "escape_char c = (let n = of_char c :: nat in
     if n = 34 \<or> n = 92 then [char_of (92 :: nat), c]
     else if n = 10 then char_of (92 :: nat) # ''n''
     else if n = 13 then char_of (92 :: nat) # ''r''
     else if n = 9 then char_of (92 :: nat) # ''t''
     else if n = 12 then char_of (92 :: nat) # ''f''
     else if n = 8 then char_of (92 :: nat) # ''b''
     else if 32 \<le> n \<and> n \<le> 126 then [c]
     else char_of (92 :: nat) # ''u00'' @ [hex_char (n div 16), hex_char (n mod 16)])"

definition json_string :: "string \<Rightarrow> string" where
  "json_string s = [quote] @ concat (map escape_char s) @ [quote]"

definition on_lines :: "nat \<Rightarrow> char \<Rightarrow> char \<Rightarrow> string list \<Rightarrow> string" where
  "on_lines k left right xs = (if xs = [] then [left, right] else
     [left, newline] @ concat (map (\<lambda>x. replicate (2 * Suc k) CHR '' '' @ x @ '','' @ [newline]) (butlast xs))
       @ replicate (2 * Suc k) CHR '' '' @ last xs @ [newline] @ replicate (2 * k) CHR '' '' @ [right])"

fun dumps :: "nat \<Rightarrow> doc \<Rightarrow> string" where
  "dumps k (Text s) = json_string s"
| "dumps k (Items xs) = on_lines k CHR ''['' CHR '']'' (map (dumps (Suc k)) xs)"
| "dumps k (Fields d) = on_lines k CHR ''{'' CHR ''}''
     (map snd (sort_key fst (map (\<lambda>(key, v). (key, json_string key @ '': '' @ dumps (Suc k) v)) d)))"

text \<open>\<open>path.suffix\<close> of a name: what follows its last dot, with it, unless only dots stand before.\<close>

definition suffix_of :: "string \<Rightarrow> string" where
  "suffix_of name =
     (let ext = rev (takeWhile (\<lambda>c. c \<noteq> CHR ''.'') (rev name)); stem = take (length name - Suc (length ext)) name
      in if length ext < length name \<and> (\<exists>c \<in> set stem. c \<noteq> CHR ''.'') then CHR ''.'' # ext else [])"

text \<open>\<open>s.split()[0]\<close>.\<close>

definition first_word :: "string \<Rightarrow> exn + string" where
  "first_word s = (case dropWhile is_space s of
     [] \<Rightarrow> Inl (py_error ''IndexError'') | cs \<Rightarrow> Inr (takeWhile (\<lambda>c. \<not> is_space c) cs))"

text \<open>The entries of \<open>dist\<close>, in the order of the directory: a file with its bytes, or a directory.\<close>

type_synonym dist = "(string \<times> string option) list"

definition artifacts :: "dist \<Rightarrow> dist" where
  "artifacts d = filter (\<lambda>(name, _). suffix_of name \<in> {''.gz'', ''.whl''}) (sort_key fst d)"

definition artifact_entry :: "tools \<Rightarrow> string \<times> string option \<Rightarrow> exn + doc" where
  "artifact_entry l entry = (case entry of
     (name, None) \<Rightarrow> Inl (py_error ''IsADirectoryError'')
   | (name, Some b) \<Rightarrow> Inr (Fields [(''name'', Text name), (''sha256'', Text (tl_sha256 l b))]))"

definition metadata :: "doc list \<Rightarrow> string \<Rightarrow> string \<Rightarrow> doc" where
  "metadata entries commit python = Fields
     [(''artifacts'', Items entries), (''builder'', Text ''scripts/release-dry-run.sh''), (''commit'', Text commit),
      (''python'', Text python), (''repository'', Text ''https://github.com/groovemap-music/musicbrainz-sql-loader'')]"

text \<open>
  \<open>git\<close> is \<open>None\<close> when no \<open>git\<close> is on the path, else what \<open>git rev-parse HEAD\<close> prints or the exception of its run;
  \<open>version\<close> is \<open>sys.version\<close>; \<open>d\<close> is \<open>None\<close> when there is no \<open>dist\<close>.
\<close>

definition write_provenance :: "tools \<Rightarrow> (exn + string) option \<Rightarrow> string \<Rightarrow> dist option \<Rightarrow> exn + dist" where
  "write_provenance l git version d =
     (case git of None \<Rightarrow> Inl (py_error ''RuntimeError'') | Some run \<Rightarrow>
     rbind run (\<lambda>stdout. case d of None \<Rightarrow> Inl (py_error ''FileNotFoundError'') | Some entries \<Rightarrow>
     rbind (rmap (artifact_entry l) (artifacts entries)) (\<lambda>docs.
     rbind (first_word version) (\<lambda>python.
     if map_of entries ''provenance.json'' = Some None then Inl (py_error ''IsADirectoryError'')
     else Inr (AList.update ''provenance.json'' (Some (dumps 0 (metadata docs (strip stdout) python) @ [newline])) entries)))))"

section \<open>What an accepted tree satisfies\<close>

lemma require_Inr_iff [simp]: "require b = Inr () \<longleftrightarrow> b"
  by (simp add: require_def)

lemma assert_eq_Inr_iff [simp]: "assert_eq a b = Inr () \<longleftrightarrow> (\<exists>x y. a = Inr x \<and> b = Inr y \<and> py_eq x y)"
  by (simp add: assert_eq_def)

lemma in_turn_Inr_iff: "in_turn rs = Inr () \<longleftrightarrow> list_all (\<lambda>r. r = Inr ()) rs"
  by (induction rs) auto

lemma py_eq_JStr [simp]: "py_eq v (JStr s) \<longleftrightarrow> v = JStr s"
  by (cases v) auto

text \<open>The three files whose digest is recorded, with the record and its field.\<close>

definition recorded_digests :: "(string \<times> string \<times> string) list" where
  "recorded_digests =
     [(''contracts/catalog-events/v1/contract.json'', ''contracts/catalog-events/v1/source.json'', ''contract_sha256''),
      (''brainztableinator/catalog_contract.py'', ''contracts/catalog-events/v1/source.json'', ''binding_sha256''),
      (''contracts/persistence/v1/compatibility.json'', ''contracts/persistence/v1/source.json'', ''contract_sha256'')]"

lemma accepted_digests:
  assumes "check_contracts l t = Inr ()" and "(path, source, field) \<in> set recorded_digests"
  shows "\<exists>v b. load_json l t source = Inr v \<and> t path = Some b \<and> item v field = Inr (JStr (tl_sha256 l b))"
  using assms
  by (auto simp: check_contracts_def in_turn_Inr_iff contract_asserts_def recorded_digests_def digest_def read_bytes_def
      split: option.splits)

lemma load_json_other: "path \<noteq> source \<Longrightarrow> load_json l (t(path := b)) source = load_json l t source"
  by (simp add: load_json_def read_text_def read_bytes_def)

lemma recorded_elsewhere: "(path, source, field) \<in> set recorded_digests \<Longrightarrow> path \<noteq> source"
  by (auto simp: recorded_digests_def)

text \<open>
  C37.  A promoted contract, the binding generated from it and the persistence contract are sealed: in a tree the release
  check accepts, no one of these files can be replaced by contents with another digest, nor removed, without the
  check refusing the tree, whatever it would find in the new contents.
\<close>

theorem sealed_file_cannot_change:
  assumes accepted: "check_contracts l t = Inr ()" and sealed: "(path, source, field) \<in> set recorded_digests"
    and old: "t path = Some b" and changed: "new = None \<or> new = Some b' \<and> tl_sha256 l b' \<noteq> tl_sha256 l b"
  shows "check_contracts l (t(path := new)) \<noteq> Inr ()"
proof
  assume again: "check_contracts l (t(path := new)) = Inr ()"
  from accepted_digests [OF accepted sealed] old obtain v where
    "load_json l t source = Inr v" "item v field = Inr (JStr (tl_sha256 l b))" by auto
  moreover from accepted_digests [OF again sealed] obtain v' b2 where
    "load_json l t source = Inr v'" "new = Some b2" "item v' field = Inr (JStr (tl_sha256 l b2))"
    by (auto simp: load_json_other [OF recorded_elsewhere [OF sealed]])
  ultimately show False using changed by auto
qed

text \<open>One runtime commit is pinned in the dependency's source and in the runtime record.\<close>

lemma accepted_pins_agree:
  assumes "check_contracts l t = Inr ()"
  shows "\<exists>r p. load_json l t ''contracts/runtime/compatibility.json'' = Inr r \<and> load_toml l t ''pyproject.toml'' = Inr p
    \<and> item r ''runtime_commit'' = Inr (JStr APPLICATION_RUNTIME_COMMIT)
    \<and> path_of p [''tool'', ''uv'', ''sources'', ''groovemap-runtime'', ''rev''] = item r ''runtime_commit''"
  using assms by (auto simp: check_contracts_def in_turn_Inr_iff contract_asserts_def)

definition demo_compatibility :: json where
  "demo_compatibility = JObj [(''contract'', JStr ''groovemap.persistence''), (''version'', JInt 1), (''graph_schema'', JObj []),
     (''application_runtime'', JObj [(''tested_version'', JStr ''0.1.0''), (''tested_commit'', JStr SCHEMA_TESTED_RUNTIME_COMMIT)])]"

definition demo_pyproject :: json where
  "demo_pyproject = JObj [(''tool'', JObj [(''uv'', JObj [
     (''override-dependencies'', JList [JStr (CHR ''@'' # APPLICATION_RUNTIME_COMMIT)]),
     (''sources'', JObj [(''groovemap-runtime'', JObj [(''rev'', JStr APPLICATION_RUNTIME_COMMIT)])])])])]"

definition demo_documents :: "(string \<times> json) list" where
  "demo_documents =
     [(''c'', JObj [(''contract_sha256'', JStr ''k''), (''binding_sha256'', JStr ''b''), (''producer_commit'', JStr ''p'')]),
      (''s'', JObj [(''contract_sha256'', JStr ''m''), (''producer_commit'', JStr PERSISTENCE_PRODUCER_COMMIT)]),
      (''m'', demo_compatibility),
      (''r'', JObj [(''runtime_commit'', JStr APPLICATION_RUNTIME_COMMIT), (''producer_contract_commit'', JStr ''p'')])]"

definition demo_tools :: tools where
  "demo_tools = \<lparr>tl_sha256 = id, tl_decode = Inr, tl_json = (\<lambda>s. case map_of demo_documents s of None \<Rightarrow> Inl (py_error ''JSONDecodeError'') | Some v \<Rightarrow> Inr v),
     tl_toml = (\<lambda>_. Inr demo_pyproject)\<rparr>"

definition demo_tree :: tree where
  "demo_tree = map_of [(''contracts/catalog-events/v1/source.json'', ''c''), (''contracts/persistence/v1/source.json'', ''s''),
     (''contracts/persistence/v1/compatibility.json'', ''m''), (''contracts/runtime/compatibility.json'', ''r''),
     (''uv.lock'', ''python-libraries.git?rev='' @ APPLICATION_RUNTIME_COMMIT @ ''#'' @ APPLICATION_RUNTIME_COMMIT),
     (''pyproject.toml'', ''t''), (''contracts/catalog-events/v1/contract.json'', ''k''), (''brainztableinator/catalog_contract.py'', ''b'')]"

lemma demo_tree_accepted: "check_contracts demo_tools demo_tree = Inr ()"
  by code_simp

theorem sealed_file_cannot_change_witness:
  "check_contracts demo_tools demo_tree = Inr ()
   \<and> check_contracts demo_tools (demo_tree(''brainztableinator/catalog_contract.py'' \<mapsto> ''x'')) \<noteq> Inr ()"
proof -
  have "(''brainztableinator/catalog_contract.py'', ''contracts/catalog-events/v1/source.json'', ''binding_sha256'') \<in> set recorded_digests"
    by (simp add: recorded_digests_def)
  moreover have "demo_tree ''brainztableinator/catalog_contract.py'' = Some ''b''" by (simp add: demo_tree_def)
  moreover have "Some ''x'' = None \<or> Some ''x'' = Some ''x'' \<and> tl_sha256 demo_tools ''x'' \<noteq> tl_sha256 demo_tools ''b''"
    by (simp add: demo_tools_def)
  ultimately show ?thesis using sealed_file_cannot_change [OF demo_tree_accepted] demo_tree_accepted by blast
qed

section \<open>Reading back the version\<close>

text \<open>The line a version bump writes, wherever it stands behind lines that do not start like it, is the one that is read.\<close>

lemma version_here_line:
  assumes "v \<noteq> []" and "quote \<notin> set v"
  shows "version_here (version_prefix @ v @ quote # newline # rest) = Some v"
proof -
  have v: "takeWhile (\<lambda>c. c \<noteq> quote) (v @ quote # newline # rest) = v"
    using assms(2) by (induction v) auto
  show ?thesis using assms(1) by (simp add: version_here_def Let_def v)
qed

lemma version_search_skip:
  assumes "newline \<notin> set xs"
  shows "version_search False (xs @ newline # cs) = version_search True cs"
  using assms by (induction xs) auto

lemma newline_not_underscore: "newline \<noteq> CHR ''_''"
  by code_simp

lemma version_here_None: "take 2 s \<noteq> ''__'' \<Longrightarrow> version_here s = None"
proof -
  assume no: "take 2 s \<noteq> ''__''"
  have len: "length version_prefix = 15" and two: "take 2 version_prefix = ''__''" by (simp_all add: version_prefix_def)
  have "take 2 (take 15 s) = take 2 s" by (simp add: min_def)
  with no two have "take 15 s \<noteq> version_prefix" by metis
  with len show "version_here s = None" by (simp add: version_here_def Let_def)
qed

lemma version_search_line:
  assumes "newline \<notin> set xs" and "take 2 xs \<noteq> ''__''"
  shows "version_search True (xs @ newline # cs) = version_search True cs"
proof -
  have "take 2 (xs @ newline # cs) \<noteq> ''__''" using assms(2) newline_not_underscore by (cases xs rule: remdups_adj.cases) auto
  then have "version_here (xs @ newline # cs) = None" by (rule version_here_None)
  then show ?thesis using assms version_search_skip [of "tl xs" cs] by (cases xs) auto
qed

lemma version_read_back:
  assumes "\<forall>xs \<in> set lines. newline \<notin> set xs \<and> take 2 xs \<noteq> ''__''" and "v \<noteq> []" "quote \<notin> set v"
  shows "version_search True (concat (map (\<lambda>xs. xs @ [newline]) lines) @ version_prefix @ v @ quote # newline # rest) = Some v"
  using assms(1)
proof (induction lines)
  case Nil
  have "version_prefix @ v @ quote # newline # rest \<noteq> []" by simp
  then obtain c cs where "version_prefix @ v @ quote # newline # rest = c # cs" by (cases "version_prefix @ v @ quote # newline # rest") auto
  with version_here_line [OF assms(2,3), of rest] show ?case by simp
next
  case (Cons xs lines)
  then show ?case using version_search_line [of xs] by simp
qed

section \<open>The provenance document\<close>

text \<open>The document itself is no artifact, so a second run writes what the first one wrote.\<close>

lemma artifacts_update:
  "suffix_of name \<notin> {''.gz'', ''.whl''} \<Longrightarrow> artifacts (AList.update name x d) = artifacts d"
  unfolding artifacts_def filter_sort by (rule arg_cong [where f = "sort_key fst"]) (induction d; auto)

lemma update_again: "AList.update k x (AList.update k x d) = AList.update k x d"
  by (induction d) auto

lemma provenance_is_no_artifact: "suffix_of ''provenance.json'' \<notin> {''.gz'', ''.whl''}"
  by code_simp

lemma artifacts_sorted: "sorted (map fst (artifacts d))"
  unfolding artifacts_def filter_sort by simp

lemma rmap_Inr_map: "rmap f xs = Inr ys \<Longrightarrow> list_all2 (\<lambda>x y. f x = Inr y) xs ys"
  by (induction xs arbitrary: ys) auto

lemma provenance_rerun:
  assumes "write_provenance l git version (Some d) = Inr d'"
  shows "write_provenance l git version (Some d') = Inr d'"
  using assms
  by (auto simp: write_provenance_def artifacts_update [OF provenance_is_no_artifact] update_again update_conv
      split: option.splits if_splits)

end
