(* ===== verification/Write_Benchmark.thy ===== *)
theory Write_Benchmark
  imports Delivery "HOL-Library.Word"
begin

unbundle bit_operations_syntax

text \<open>
  The write benchmark \<open>scripts/bench-write.py\<close>: its record generator, its workers over one queue, and the
  refusal of a database that is not its own.

  The generator's \<open>random.Random\<close> is a parameter: its state and the three draws the script makes.  A record is
  written by the processors of \<open>Record_Processing\<close>, in a transaction on the worker's own connection; the
  workers run in any order.  The ceilings of the mix are read as the decimals they are written as.  Its entry point, with the URL, the proxy and the two statistics, is in \<open>Benchmark_Entry\<close>.
\<close>

section \<open>Random draws\<close>

text \<open>
  \<open>rng.random()\<close>, \<open>rng.getrandbits(k)\<close> and the draw below \<open>n\<close> that \<open>rng.choice\<close> and \<open>rng.randrange\<close> make.
\<close>

record 'g rng =
  rng_random :: "'g \<Rightarrow> rat \<times> 'g"
  rng_getrandbits :: "nat \<Rightarrow> 'g \<Rightarrow> nat \<times> 'g"
  rng_below :: "nat \<Rightarrow> 'g \<Rightarrow> nat \<times> 'g"

text \<open>What the documentation of \<open>random\<close> promises of them.\<close>

definition rng_ok :: "'g rng \<Rightarrow> bool" where
  "rng_ok r \<longleftrightarrow> (\<forall>g. 0 \<le> fst (rng_random r g) \<and> fst (rng_random r g) < 1)
     \<and> (\<forall>k g. fst (rng_getrandbits r k g) < 2 ^ k) \<and> (\<forall>n g. 0 < n \<longrightarrow> fst (rng_below r n g) < n)"

definition draw :: "('g \<Rightarrow> 'a \<times> 'g) \<Rightarrow> ('g, 'a) eff" where
  "draw f g = (case f g of (x, g') \<Rightarrow> (Inr x, g'))"

definition choice :: "'g rng \<Rightarrow> string list \<Rightarrow> ('g, json) eff" where
  "choice r xs = bnd (draw (rng_below r (length xs))) (\<lambda>i. ret (JStr (xs ! i)))"

fun collect :: "nat \<Rightarrow> ('s, 'a) eff \<Rightarrow> ('s, 'a list) eff" where
  "collect 0 m = ret []"
| "collect (Suc n) m = bnd m (\<lambda>x. bnd (collect n m) (\<lambda>xs. ret (x # xs)))"

section \<open>UUIDs\<close>

text \<open>\<open>uuid.UUID(int=n, version=4)\<close>: the variant and version bits are overwritten.\<close>

definition uuid4 :: "128 word \<Rightarrow> 128 word" where
  "uuid4 w =
     (let v = (w AND NOT (push_bit 48 0xc000)) OR push_bit 48 0x8000
      in (v AND NOT (push_bit 64 0xf000)) OR push_bit 76 4)"

text \<open>\<open>'%0kx' % n\<close> for a number below \<open>16 ^ k\<close>.\<close>

fun hex_padded :: "nat \<Rightarrow> nat \<Rightarrow> string" where
  "hex_padded 0 n = []"
| "hex_padded (Suc k) n = hex_padded k (n div 16) @ [hex_char (n mod 16)]"

definition uuid_str :: "128 word \<Rightarrow> string" where
  "uuid_str w = (let h = hex_padded 32 (unat w) in
     take 8 h @ ''-'' @ take 4 (drop 8 h) @ ''-'' @ take 4 (drop 12 h) @ ''-'' @ take 4 (drop 16 h) @ ''-'' @ drop 20 h)"

definition new_uuid :: "'g rng \<Rightarrow> ('g, string) eff" where
  "new_uuid r = bnd (draw (rng_getrandbits r 128)) (\<lambda>n. ret (uuid_str (uuid4 (of_nat n))))"

section \<open>Records\<close>

definition SHAPE :: "(string \<times> nat \<times> nat) list" where
  "SHAPE = [(''releases'', 12, 3), (''artists'', 25, 6), (''release_groups'', 3, 2), (''labels'', 5, 3)]"

definition MIX :: "(string \<times> rat) list" where
  "MIX = [(''releases'', 6 / 10), (''artists'', 85 / 100), (''release_groups'', 95 / 100), (''labels'', 1)]"

text \<open>\<open>next(name for name, ceiling in MIX if draw < ceiling)\<close>.\<close>

definition kind_of :: "rat \<Rightarrow> exn + string" where
  "kind_of d = (case find (\<lambda>(_, ceiling). d < ceiling) MIX of
     None \<Rightarrow> Inl (py_error ''StopIteration'') | Some (name, _) \<Rightarrow> Inr name)"

definition shape_of :: "string \<Rightarrow> nat \<times> nat" where
  "shape_of kind = the (map_of SHAPE kind)"

definition bench_relation :: "'g rng \<Rightarrow> ('g, json) eff" where
  "bench_relation r =
     bnd (new_uuid r) (\<lambda>target.
     bnd (choice r [''artist'', ''release'', ''label'', ''recording'']) (\<lambda>target_type.
     bnd (choice r [''member of band'', ''producer'', ''remixer'', ''vocal'']) (\<lambda>type.
     bnd (choice r [''forward'', ''backward'']) (\<lambda>direction.
     ret (JObj [(''target_mbid'', JStr target), (''target_type'', target_type), (''type'', type),
       (''direction'', direction), (''attributes'', JList []), (''begin_date'', JNull), (''end_date'', JNull),
       (''ended'', JBool False)])))))"

definition bench_link :: "'g rng \<Rightarrow> ('g, json) eff" where
  "bench_link r =
     bnd (new_uuid r) (\<lambda>u.
     bnd (choice r [''wikidata'', ''bandcamp'', ''discogs'', ''youtube'']) (\<lambda>service.
     ret (JObj [(''url'', JStr (''https://example.org/'' @ u)), (''service'', service)])))"

text \<open>The fields every record has; \<open>i\<close> is its position.\<close>

definition base_record :: "string \<Rightarrow> nat \<Rightarrow> string \<Rightarrow> json list \<Rightarrow> json list \<Rightarrow> obj" where
  "base_record kind i mbid rels links =
     [(''id'', JStr mbid), (''mbid'', JStr mbid), (''name'', JStr (kind @ '' '' @ show_nat i)),
      (''dump_version'', JStr ''bench''), (''relations'', JList rels), (''external_links'', JList links)]"

definition bench_media :: obj where
  "bench_media = [(''media'', JList [JObj [(''format'', JStr ''CD''), (''disc-count'', JInt 1)]]),
     (''status'', JStr ''Official'')]"

definition release_fields :: "'g rng \<Rightarrow> lib \<Rightarrow> nat \<Rightarrow> ('g, obj) eff" where
  "release_fields r l i =
     bnd (draw (rng_random r)) (\<lambda>d1.
     bnd (if d1 < 1 / 2 then bnd (draw (rng_below r (10 ^ 13 - 10 ^ 12))) (\<lambda>n. ret (JStr (show_nat (10 ^ 12 + n)))) else ret JNull) (\<lambda>barcode.
     bnd (draw (rng_random r)) (\<lambda>d2.
     bnd (if d2 < 1 / 2
          then bnd (draw (rng_below r (10 ^ 6))) (\<lambda>n. ret (JList [JObj [(''catalog_number'', JStr (''CAT-'' @ show_nat n))]]))
          else ret (JList [])) (\<lambda>catalog_numbers.
     bnd (of_result (lib_map_release l bench_media)) (\<lambda>media.
     ret ([(''barcode'', barcode), (''catalog_numbers'', catalog_numbers), (''status'', JStr ''Official'')]
        @ (if i mod 3 = 0 then [(''discogs_release_id'', JStr (show_nat (1000000 + i)))] else [])
        @ [(''media'', JObj media)]))))))"

definition kind_fields :: "'g rng \<Rightarrow> lib \<Rightarrow> nat \<Rightarrow> string \<Rightarrow> ('g, obj) eff" where
  "kind_fields r l i kind =
     (if kind = ''releases'' then release_fields r l i
      else if kind = ''artists'' \<and> i mod 4 = 0 then ret [(''discogs_artist_id'', JInt (2000000 + int i))]
      else ret [])"

definition make_record :: "'g rng \<Rightarrow> lib \<Rightarrow> nat \<Rightarrow> ('g, string \<times> obj) eff" where
  "make_record r l i =
     bnd (draw (rng_random r)) (\<lambda>d.
     bnd (of_result (kind_of d)) (\<lambda>kind.
     bnd (new_uuid r) (\<lambda>mbid.
     bnd (collect (fst (shape_of kind)) (bench_relation r)) (\<lambda>rels.
     bnd (collect (snd (shape_of kind)) (bench_link r)) (\<lambda>links.
     bnd (kind_fields r l i kind) (\<lambda>fields.
     ret (kind, base_record kind i mbid rels links @ fields)))))))"

fun records_from :: "'g rng \<Rightarrow> lib \<Rightarrow> nat \<Rightarrow> nat \<Rightarrow> ('g, (string \<times> obj) list) eff" where
  "records_from r l i 0 = ret []"
| "records_from r l i (Suc n) =
     bnd (make_record r l i) (\<lambda>entry. bnd (records_from r l (Suc i) n) (\<lambda>entries. ret (entry # entries)))"

text \<open>\<open>seeded\<close> is the generator \<open>random.Random(seed)\<close> starts from.\<close>

definition make_records :: "'g rng \<Rightarrow> lib \<Rightarrow> nat \<Rightarrow> 'g \<Rightarrow> exn + (string \<times> obj) list" where
  "make_records r l n seeded = fst (records_from r l 0 n seeded)"

section \<open>Workers\<close>

text \<open>\<open>handlers\<close> of \<open>run_records\<close>.\<close>

definition record_handler :: "env \<Rightarrow> string \<Rightarrow> (obj \<Rightarrow> ('z psess_scheme, unit) eff) option" where
  "record_handler e kind =
     (if kind = ''releases'' then Some (process_release e)
      else if kind = ''artists'' then Some (process_artist e)
      else if kind = ''release_groups'' then Some (process_release_group e)
      else if kind = ''labels'' then Some (process_label e)
      else None)"

text \<open>\<open>async with conn.transaction()\<close> on a connection that is open.\<close>

definition in_transaction :: "pg \<Rightarrow> ('z sess_scheme, 'a) eff \<Rightarrow> ('z sess_scheme, 'a) eff" where
  "in_transaction p body s =
     (case bnd body (\<lambda>x. andthen (exec p Commit) (ret x)) s of
        (Inl x, s') \<Rightarrow> (Inl x, s'\<lparr>s_db := s_db s\<rparr>)
      | (Inr x, s') \<Rightarrow> (Inr x, s'))"

definition write_record :: "env \<Rightarrow> string \<Rightarrow> obj \<Rightarrow> ('z psess_scheme, unit) eff" where
  "write_record e kind record_data = in_transaction (e_pg e) (case record_handler e kind of
     None \<Rightarrow> raise (py_error ''KeyError'') | Some f \<Rightarrow> f record_data)"

text \<open>
  Where a worker is between two of its waits, and what the run did to the database so far: connections opened and
  records written, in their order.
\<close>

datatype worker = Starting | Free | Holding string obj | Returned | Failed exn

datatype bench_action = Opened | Wrote string obj

record 's bench_run =
  bn_queue :: "(string \<times> obj) list"
  bn_workers :: "worker list"
  bn_log :: "bench_action list"
  bn_session :: 's

definition worker_step :: "env \<Rightarrow> nat \<Rightarrow> 'z psess_scheme bench_run \<Rightarrow> 'z psess_scheme bench_run" where
  "worker_step e i b = (if \<not> i < length (bn_workers b) then b else
     let becomes = (\<lambda>w. (bn_workers b)[i := w]) in
     case bn_workers b ! i of
       Starting \<Rightarrow> (case exec (e_pg e) Connect (bn_session b) of
         (Inl x, s) \<Rightarrow> b\<lparr>bn_workers := becomes (Failed x), bn_session := s\<rparr>
       | (Inr _, s) \<Rightarrow> b\<lparr>bn_workers := becomes Free, bn_log := bn_log b @ [Opened], bn_session := s\<rparr>)
     | Free \<Rightarrow> (case bn_queue b of
         [] \<Rightarrow> b\<lparr>bn_workers := becomes Returned\<rparr>
       | (kind, data) # queue \<Rightarrow> b\<lparr>bn_queue := queue, bn_workers := becomes (Holding kind data)\<rparr>)
     | Holding kind data \<Rightarrow> (case write_record e kind data (bn_session b) of
         (Inl x, s) \<Rightarrow> b\<lparr>bn_workers := becomes (Failed x), bn_session := s\<rparr>
       | (Inr _, s) \<Rightarrow> b\<lparr>bn_workers := becomes Free, bn_log := bn_log b @ [Wrote kind data], bn_session := s\<rparr>)
     | _ \<Rightarrow> b)"

text \<open>
  \<open>run_records\<close> under a schedule, the order in which the event loop runs the workers.  \<open>gather\<close> returns when
  every worker has returned and raises when one raised.
\<close>

definition start_run :: "(string \<times> obj) list \<Rightarrow> nat \<Rightarrow> 's \<Rightarrow> 's bench_run" where
  "start_run records workers s = \<lparr>bn_queue = records, bn_workers = replicate workers Starting, bn_log = [], bn_session = s\<rparr>"

definition run_records ::
  "env \<Rightarrow> nat list \<Rightarrow> (string \<times> obj) list \<Rightarrow> nat \<Rightarrow> 'z psess_scheme \<Rightarrow> 'z psess_scheme bench_run" where
  "run_records e schedule records workers s = fold (worker_step e) schedule (start_run records workers s)"

fun unfinished :: "worker \<Rightarrow> bool" where
  "unfinished Returned = False"
| "unfinished (Failed _) = False"
| "unfinished _ = True"

definition gathered :: "'s bench_run \<Rightarrow> bool" where
  "gathered b \<longleftrightarrow> list_all (\<lambda>w. w = Returned) (bn_workers b)"

section \<open>The benchmark\<close>

definition system_exit :: exn where
  "system_exit = py_error ''SystemExit''"

text \<open>The tables \<open>prepare\<close> counts, in its order.\<close>

definition row_counts :: "db \<Rightarrow> nat list" where
  "row_counts d = [length (db_artists d), length (db_labels d), length (db_releases d), length (db_release_groups d),
     length (db_relationships d), length (db_external_links d)]"

text \<open>
  \<open>prepare\<close>, given the host \<open>urlsplit\<close> finds in the URL.  \<open>create\<close> is the shared schema's \<open>create_postgres_schema\<close>: it
  raises, or answers how many of its statements failed with the tables it leaves.
\<close>

definition prepare :: "string option \<Rightarrow> (db \<Rightarrow> exn + nat \<times> db) \<Rightarrow> ('z sess_scheme, unit) eff" where
  "prepare host create =
     (if host \<notin> {Some ''127.0.0.1'', Some ''localhost'', Some ''::1''} then raise system_exit
      else bnd get_state (\<lambda>s. case create (s_db s) of
        Inl x \<Rightarrow> raise x
      | Inr (failures, d) \<Rightarrow> andthen (modify (\<lambda>s. s\<lparr>s_db := d\<rparr>))
          (if 0 < failures then raise system_exit
           else if \<exists>n \<in> set (row_counts d). 0 < n then raise system_exit else ret ())))"

text \<open>The \<open>TRUNCATE\<close> and the two \<open>DELETE\<close>s between the sequential and the concurrent run.\<close>

definition truncate_tables :: "db \<Rightarrow> db" where
  "truncate_tables d = d\<lparr>db_artists := [], db_labels := [], db_releases := [], db_release_groups := [],
     db_relationships := [], db_external_links := [], db_issued_on := [], db_link_events := [], db_aliases := []\<rparr>"

text \<open>A run to its end: what \<open>gather\<close> raises is what a worker raised.\<close>

definition timed_run :: "env \<Rightarrow> nat list \<Rightarrow> (string \<times> obj) list \<Rightarrow> nat \<Rightarrow> ('z psess_scheme, unit) eff" where
  "timed_run e schedule records workers s =
     (let b = run_records e schedule records workers s
      in case List.map_filter (\<lambda>w. case w of Failed x \<Rightarrow> Some x | _ \<Rightarrow> None) (bn_workers b) of
        x # _ \<Rightarrow> (Inl x, bn_session b) | [] \<Rightarrow> (Inr (), bn_session b))"

section \<open>Generated identifiers\<close>

definition hex_text :: "string \<Rightarrow> bool" where
  "hex_text s \<longleftrightarrow> (\<forall>c \<in> set s. \<exists>d < 16. c = hex_char d)"

lemma of_hex_char: "d < 16 \<Longrightarrow> (of_char (hex_char d) :: nat) = (if d < 10 then 48 + d else 87 + d)"
  by (simp add: hex_char_def of_char_of)

text \<open>A hexadecimal digit is none of the characters the readers treat specially.\<close>

lemma hex_char_plain:
  assumes "d < 16"
  shows "hex_char d \<noteq> CHR ''_''" "hex_char d \<noteq> CHR ''-''" "hex_char d \<noteq> CHR ''+''" "hex_char d \<noteq> CHR ''u''"
    "hex_char d \<noteq> CHR ''x''" "hex_char d \<noteq> CHR ''X''" "hex_char d \<noteq> CHR ''{''" "hex_char d \<noteq> CHR ''}''" "\<not> is_space (hex_char d)"
proof -
  have other: "hex_char d \<noteq> c" if "(of_char c :: nat) \<notin> {48..57} \<union> {97..102}" for c
    using that of_hex_char [OF assms] assms by (auto split: if_splits)
  show "hex_char d \<noteq> CHR ''_''" "hex_char d \<noteq> CHR ''-''" "hex_char d \<noteq> CHR ''+''" "hex_char d \<noteq> CHR ''u''"
    "hex_char d \<noteq> CHR ''x''" "hex_char d \<noteq> CHR ''X''" "hex_char d \<noteq> CHR ''{''" "hex_char d \<noteq> CHR ''}''"
    by (rule other; simp)+
  show "\<not> is_space (hex_char d)" using assms of_hex_char [OF assms] by (simp add: is_space_def Let_def split: if_splits)
qed

lemma digit_value_hex: "d < 16 \<Longrightarrow> digit_value (hex_char d) = Some d"
  using of_hex_char [of d] by (simp add: digit_value_def Let_def split: if_splits)

lemma hex_padded_text: "length (hex_padded k n) = k" "hex_text (hex_padded k n)"
proof -
  show "length (hex_padded k n) = k" by (induction k arbitrary: n) simp_all
  have "hex_text (hex_padded k m)" for m
  proof (induction k arbitrary: m)
    case (Suc k)
    have "m mod 16 < 16" by simp
    then have "\<exists>d < 16. hex_char (m mod 16) = hex_char d" by blast
    with Suc show ?case by (simp add: hex_text_def)
  qed (simp add: hex_text_def)
  then show "hex_text (hex_padded k n)" .
qed

lemma hex_text_without: "hex_text h \<Longrightarrow> (\<And>d. d < 16 \<Longrightarrow> hex_char d \<noteq> c) \<Longrightarrow> c \<notin> set h"
  unfolding hex_text_def by (metis (no_types))

lemma parse_hex_padded:
  "parse_digits 16 acc (b \<or> 0 < k) (hex_padded 0 m @ cs) = parse_digits 16 acc (b \<or> 0 < k) cs"
  "0 < k \<Longrightarrow> parse_digits 16 acc b (hex_padded k n @ cs) = parse_digits 16 (acc * 16 ^ k + n mod 16 ^ k) True cs"
proof -
  show "parse_digits 16 acc (b \<or> 0 < k) (hex_padded 0 m @ cs) = parse_digits 16 acc (b \<or> 0 < k) cs" by simp
  have digit: "parse_digits 16 a c (hex_char d # xs) = parse_digits 16 (a * 16 + d) True xs" if "d < 16" for a c d xs
    using that by (simp add: digit_value_hex hex_char_plain(1))
  have "parse_digits 16 acc b (hex_padded (Suc j) n @ cs) = parse_digits 16 (acc * 16 ^ Suc j + n mod 16 ^ Suc j) True cs" for j
  proof (induction j arbitrary: n cs)
    case 0
    show ?case using digit [of "n mod 16"] by simp
  next
    case (Suc j)
    have "n mod (16 * 16 ^ Suc j) = 16 * (n div 16 mod 16 ^ Suc j) + n mod 16" by (rule mod_mult2_eq)
    then have eq: "(acc * 16 ^ Suc j + n div 16 mod 16 ^ Suc j) * 16 + n mod 16 = acc * 16 ^ Suc (Suc j) + n mod 16 ^ Suc (Suc j)"
      by (simp only: power_Suc [of 16 "Suc j"] distrib_left distrib_right ac_simps)
    have "parse_digits 16 acc b (hex_padded (Suc (Suc j)) n @ cs)
        = parse_digits 16 acc b (hex_padded (Suc j) (n div 16) @ hex_char (n mod 16) # cs)"
      by (simp only: hex_padded.simps(2) [of "Suc j"] append_assoc append_Cons append_Nil)
    also have "\<dots> = parse_digits 16 ((acc * 16 ^ Suc j + n div 16 mod 16 ^ Suc j) * 16 + n mod 16) True cs"
      unfolding Suc by (rule digit) simp
    finally show ?case unfolding eq .
  qed
  then show "0 < k \<Longrightarrow> parse_digits 16 acc b (hex_padded k n @ cs) = parse_digits 16 (acc * 16 ^ k + n mod 16 ^ k) True cs"
    by (cases k) simp_all
qed

lemma strip_by_none: "\<forall>c \<in> set s. \<not> p c \<Longrightarrow> strip_by p s = s"
proof -
  have "dropWhile p xs = xs" if "\<forall>c \<in> set xs. \<not> p c" for xs using that by (cases xs) simp_all
  then show "\<forall>c \<in> set s. \<not> p c \<Longrightarrow> strip_by p s = s" unfolding strip_by_def by (metis rev_rev_ident set_rev)
qed

lemma remove_all_absent: "hd old \<notin> set s \<Longrightarrow> old \<noteq> [] \<Longrightarrow> remove_all old s = s"
proof (induction s)
  case (Cons c s)
  then have "take (length old) (c # s) \<noteq> old" by (cases old) auto
  with Cons show ?case by simp
qed simp

text \<open>A number below \<open>16 ^ k\<close> in \<open>k\<close> hexadecimal digits is read back.\<close>

lemma py_int_hex: "0 < k \<Longrightarrow> n < 16 ^ k \<Longrightarrow> py_int 16 (hex_padded k n) = Some (int n)"
proof -
  assume k: "0 < k" and n: "n < 16 ^ k"
  let ?h = "hex_padded k n"
  have hx: "\<forall>c \<in> set ?h. \<exists>d < 16. c = hex_char d" using hex_padded_text(2) [of k n] by (simp add: hex_text_def)
  then have "strip ?h = ?h" unfolding strip_def by (intro strip_by_none) (auto simp: hex_char_plain)
  moreover from k hex_padded_text(1) [of k n] obtain c cs where h: "?h = c # cs" by (cases ?h) auto
  moreover from hx h have "c \<noteq> CHR ''-''" "c \<noteq> CHR ''+''" by (auto simp: hex_char_plain)
  moreover have "take 2 ?h \<noteq> ''0x''" "take 2 ?h \<noteq> ''0X''"
  proof -
    have "CHR ''x'' \<notin> set ?h" "CHR ''X'' \<notin> set ?h" using hx by (metis hex_char_plain(5), metis hex_char_plain(6))
    then show "take 2 ?h \<noteq> ''0x''" "take 2 ?h \<noteq> ''0X''" by (metis in_set_takeD list.set_intros)+
  qed
  then have "parse_unsigned 16 ?h = Some n"
    using parse_hex_padded(2) [OF k, of 0 False n "[]"] n by (simp add: parse_unsigned_def)
  ultimately show ?thesis by (simp add: py_int_def)
qed

lemma dashes_removed: "take 8 h @ take 4 (drop 8 h) @ take 4 (drop 12 h) @ take 4 (drop 16 h) @ drop 20 h = h"
  using take_add [of 8 4 h] take_add [of 12 4 h] take_add [of 16 4 h] append_take_drop_id [of 20 h] by simp

lemma dashes_filtered:
  assumes "CHR ''-'' \<notin> set h"
  shows "filter (\<lambda>c. c \<noteq> CHR ''-'')
    (take 8 h @ ''-'' @ take 4 (drop 8 h) @ ''-'' @ take 4 (drop 12 h) @ ''-'' @ take 4 (drop 16 h) @ ''-'' @ drop 20 h) = h"
proof -
  have "filter (\<lambda>c. c \<noteq> CHR ''-'') (take m (drop n h)) = take m (drop n h)" "filter (\<lambda>c. c \<noteq> CHR ''-'') (take m h) = take m h"
    "filter (\<lambda>c. c \<noteq> CHR ''-'') (drop n h) = drop n h" for m n
    using assms by (auto intro!: filter_True dest: in_set_takeD in_set_dropD)
  with dashes_removed [of h] show ?thesis by simp
qed

lemma dashes_subset:
  "set (take 8 h @ ''-'' @ take 4 (drop 8 h) @ ''-'' @ take 4 (drop 12 h) @ ''-'' @ take 4 (drop 16 h) @ ''-'' @ drop 20 h)
     \<subseteq> insert (CHR ''-'') (set h)"
  by (auto dest: in_set_takeD in_set_dropD)

lemma uuid_text_plain:
  assumes "CHR ''u'' \<notin> set s" and "CHR ''{'' \<notin> set s" and "CHR ''}'' \<notin> set s"
  shows "uuid_text s = filter (\<lambda>c. c \<noteq> CHR ''-'') s"
proof -
  have "strip_by (\<lambda>c. c = CHR ''{'' \<or> c = CHR ''}'') s = s" using assms(2,3) by (intro strip_by_none) auto
  with assms(1) show ?thesis by (simp add: uuid_text_def remove_all_absent)
qed

lemma uuid_str_text: "uuid_text (uuid_str w) = hex_padded 32 (unat w)"
proof -
  let ?h = "hex_padded 32 (unat w)"
  have subs: "set (uuid_str w) \<subseteq> insert (CHR ''-'') (set ?h)" unfolding uuid_str_def Let_def by (rule dashes_subset)
  have no: "c \<notin> set (uuid_str w)" if "c \<noteq> CHR ''-''" and "\<And>d. d < 16 \<Longrightarrow> hex_char d \<noteq> c" for c
  proof
    assume "c \<in> set (uuid_str w)"
    with subs that(1) have "c \<in> set ?h" by (meson insertE subsetD)
    with hex_text_without [OF hex_padded_text(2) that(2)] show False by contradiction
  qed
  have plain: "CHR ''u'' \<notin> set (uuid_str w)" "CHR ''{'' \<notin> set (uuid_str w)" "CHR ''}'' \<notin> set (uuid_str w)"
    by (rule no; simp add: hex_char_plain)+
  from plain have "uuid_text (uuid_str w) = filter (\<lambda>c. c \<noteq> CHR ''-'') (uuid_str w)" by (rule uuid_text_plain)
  also have "CHR ''-'' \<notin> set ?h" by (rule hex_text_without [OF hex_padded_text(2) hex_char_plain(2)])
  then have "filter (\<lambda>c. c \<noteq> CHR ''-'') (uuid_str w) = ?h" unfolding uuid_str_def Let_def by (rule dashes_filtered)
  finally show ?thesis .
qed

lemma uuid_str_valid: "valid_uuid (JStr (uuid_str w))" "py_int 16 (uuid_text (uuid_str w)) = Some (int (unat w))"
proof -
  have "unat w < 16 ^ 32" using unsigned_less [of w] by simp
  then show int: "py_int 16 (uuid_text (uuid_str w)) = Some (int (unat w))" unfolding uuid_str_text by (intro py_int_hex) simp_all
  have "int (unat w) < 2 ^ 128" using unsigned_less [of w] by (simp flip: of_nat_less_iff)
  with int show "valid_uuid (JStr (uuid_str w))" by (simp add: valid_uuid_def uuid_str_text hex_padded_text)
qed

section \<open>What the generator yields\<close>

text \<open>The computation returns, from any state of the generator, with a value that has the property.\<close>

definition yields :: "('s, 'a) eff \<Rightarrow> ('a \<Rightarrow> bool) \<Rightarrow> bool" where
  "yields m P \<longleftrightarrow> (\<forall>s. \<exists>x s'. m s = (Inr x, s') \<and> P x)"

lemma yields_ret: "P x \<Longrightarrow> yields (ret x) P"
  by (simp add: yields_def)

lemma yields_bnd: "yields m P \<Longrightarrow> (\<And>x. P x \<Longrightarrow> yields (f x) Q) \<Longrightarrow> yields (bnd m f) Q"
  unfolding yields_def by (metis bnd_Inr)

lemma yields_result: "r = Inr x \<Longrightarrow> P x \<Longrightarrow> yields (of_result r) P"
  by (simp add: yields_def)

lemma yields_draw: "(\<And>g. P (fst (f g))) \<Longrightarrow> yields (draw f) P"
  unfolding yields_def draw_def by (metis (no_types, lifting) case_prod_beta fst_conv prod.exhaust_sel)

lemma yields_collect: "yields m P \<Longrightarrow> yields (collect n m) (\<lambda>xs. length xs = n \<and> list_all P xs)"
proof (induction n)
  case (Suc n)
  then show ?case by (auto intro!: yields_bnd [OF Suc.prems] yields_bnd [OF Suc.IH] yields_ret)
qed (auto intro: yields_ret)

lemma uuid_str_nonempty: "uuid_str w \<noteq> []"
  by (simp add: uuid_str_def Let_def)

lemma yields_uuid: "yields (new_uuid r) (\<lambda>u. u \<noteq> [] \<and> valid_uuid (JStr u))"
  unfolding new_uuid_def
  by (rule yields_bnd [where P = "\<lambda>_. True"]) (auto intro!: yields_draw yields_ret simp: uuid_str_valid uuid_str_nonempty)

lemma yields_choice:
  assumes "rng_ok r" and "xs \<noteq> []"
  shows "yields (choice r xs) (\<lambda>j. \<exists>x \<in> set xs. j = JStr x)"
  unfolding choice_def
  by (rule yields_bnd [where P = "\<lambda>i. i < length xs"]) (use assms in \<open>auto intro!: yields_draw yields_ret simp: rng_ok_def\<close>)

text \<open>A relation and a link that give a row each.\<close>

definition good_relation :: "json \<Rightarrow> bool" where
  "good_relation j \<longleftrightarrow> (\<exists>d. j = JObj d \<and> truthy (get_none d ''target_mbid'') \<and> truthy (get_none d ''target_type'')
     \<and> hashable (get_none d ''target_type'') \<and> truthy (get_none d ''type''))"

definition good_link :: "json \<Rightarrow> bool" where
  "good_link j \<longleftrightarrow> (\<exists>d. j = JObj d \<and> truthy (get_none d ''url'') \<and> truthy (get_none d ''service''))"

lemma yields_relation: "rng_ok r \<Longrightarrow> yields (bench_relation r) good_relation"
  unfolding bench_relation_def
  by (intro yields_bnd [OF yields_uuid] yields_bnd [OF yields_choice] yields_ret) (auto simp: good_relation_def)

lemma yields_link: "rng_ok r \<Longrightarrow> yields (bench_link r) good_link"
  unfolding bench_link_def
  by (intro yields_bnd [OF yields_uuid] yields_bnd [OF yields_choice] yields_ret) (auto simp: good_link_def)

lemma rmap_filter_all:
  "list_all (\<lambda>x. \<exists>y. f x = Inr (Some y)) xs \<Longrightarrow> \<exists>ys. rmap f xs = Inr (map Some ys) \<and> length ys = length xs"
proof (induction xs)
  case (Cons x xs)
  then obtain y ys where "f x = Inr (Some y)" "rmap f xs = Inr (map Some ys)" "length ys = length xs" by auto
  then show ?case by (intro exI [of _ "y # ys"]) (simp add: rbind_def)
qed simp

lemma map_filter_Some: "List.map_filter id (map Some ys) = ys"
  by (induction ys) (simp_all add: List.map_filter_def)

lemma good_relation_rows:
  assumes "list_all good_relation rels"
  shows "\<exists>rows. relationship_rows m t (JList rels) = Inr rows \<and> length rows = length rels"
proof -
  have "list_all (\<lambda>x. \<exists>y. relationship_entry m t x = Inr (Some y)) rels"
    using assms by (rule list.pred_mono_strong) (auto simp: good_relation_def relationship_entry_def canonical_entity_type_def rbind_def Let_def)
  from rmap_filter_all [OF this] show ?thesis by (auto simp: relationship_rows_def rbind_def map_filter_Some)
qed

lemma good_link_rows:
  assumes "list_all good_link links"
  shows "\<exists>rows. external_link_rows m t (JList links) = Inr rows \<and> length rows = length links"
proof -
  have "list_all (\<lambda>x. \<exists>y. external_link_entry m t x = Inr (Some y)) links"
    using assms by (rule list.pred_mono_strong) (auto simp: good_link_def external_link_entry_def rbind_def)
  from rmap_filter_all [OF this] show ?thesis by (auto simp: external_link_rows_def rbind_def map_filter_Some)
qed

text \<open>
  A generated record is of the audit's shape: its handler exists, its id is a UUID, and the processor finds in it
  exactly the relations and links of its kind.
\<close>

definition data_type_of :: "string \<Rightarrow> string" where
  "data_type_of kind = (if kind = ''release_groups'' then ''release-groups'' else kind)"

definition audit_shaped :: "lib \<Rightarrow> string \<times> obj \<Rightarrow> bool" where
  "audit_shaped l = (\<lambda>(kind, data). kind \<in> fst ` set SHAPE
     \<and> (\<exists>u. map_of data ''id'' = Some (JStr u) \<and> valid_uuid (JStr u)) \<and> well_shaped l (data_type_of kind) data
     \<and> (\<exists>rels links. rels_of (child_kind (data_type_of kind)) data = Inr rels \<and> length rels = fst (shape_of kind)
          \<and> links_of (child_kind (data_type_of kind)) data = Inr links \<and> length links = snd (shape_of kind)))"

text \<open>The shared mapper answers the benchmark's one medium with a block the media edges can be read from.\<close>

definition bench_media_ok :: "lib \<Rightarrow> bool" where
  "bench_media_ok l \<longleftrightarrow> \<not> isl (rbind (lib_map_release l bench_media) (media_edge_rows l))"

lemma kind_of_total: "0 \<le> d \<Longrightarrow> d < 1 \<Longrightarrow> \<exists>kind \<in> fst ` set SHAPE. kind_of d = Inr kind"
  by (simp add: kind_of_def MIX_def SHAPE_def)

lemma yields_below: "rng_ok r \<Longrightarrow> 0 < n \<Longrightarrow> yields (draw (rng_below r n)) (\<lambda>i. i < n)"
  by (rule yields_draw) (simp add: rng_ok_def)

lemma yields_random: "rng_ok r \<Longrightarrow> yields (draw (rng_random r)) (\<lambda>d. 0 \<le> d \<and> d < 1)"
  by (rule yields_draw) (simp add: rng_ok_def)

text \<open>The fields a kind adds keep those every record has, and give a release its media.\<close>

definition kind_extra :: "lib \<Rightarrow> string \<Rightarrow> obj \<Rightarrow> bool" where
  "kind_extra l kind adds \<longleftrightarrow> (kind = ''releases'' \<longrightarrow> (\<exists>media. lib_map_release l bench_media = Inr media
     \<and> map_of adds ''media'' = Some (JObj media)))"

lemma yields_kind_fields:
  assumes "rng_ok r" and "bench_media_ok l"
  shows "yields (kind_fields r l i kind) (kind_extra l kind)"
proof -
  from assms(2) obtain media where media: "lib_map_release l bench_media = Inr media"
    by (cases "lib_map_release l bench_media") (auto simp: bench_media_ok_def rbind_def)
  have opt: "yields (if c then bnd (draw (rng_below r n)) (\<lambda>n. ret (g n)) else ret y) (\<lambda>_. True)" if "0 < n" for c n g and y :: json
    using assms(1) that by (auto intro!: yields_bnd [OF yields_below] yields_ret)
  have "yields (release_fields r l i) (kind_extra l ''releases'')"
    unfolding release_fields_def
    by (intro yields_bnd [OF yields_random [OF assms(1)]] yields_bnd [OF opt] yields_bnd [OF yields_result [OF media]] yields_ret)
      (auto simp: kind_extra_def media)
  then show ?thesis by (auto simp: kind_fields_def kind_extra_def intro!: yields_ret)
qed

lemma base_record_audit_shaped:
  assumes kind: "kind \<in> fst ` set SHAPE" and u: "valid_uuid (JStr u)" and media: "bench_media_ok l"
    and rels: "length rels = fst (shape_of kind)" "list_all good_relation rels"
    and links: "length links = snd (shape_of kind)" "list_all good_link links"
    and extra: "kind_extra l kind adds"
  shows "audit_shaped l (kind, base_record kind i u rels links @ adds)" (is "audit_shaped l (kind, ?d)")
proof -
  let ?c = "child_kind (data_type_of kind)"
  have flds: "map_of ?d ''id'' = Some (JStr u)" "record_mbid ?d = JStr u"
    "get_default ?d ''relations'' (JList []) = JList rels" "get_default ?d ''external_links'' (JList []) = JList links"
    by (simp_all add: base_record_def record_mbid_def)
  obtain rs where rs: "rels_of ?c ?d = Inr rs" "length rs = fst (shape_of kind)"
    using good_relation_rows [OF rels(2), of "JStr u" "JStr ?c"] rels(1) by (auto simp: rels_of_def flds)
  obtain ls where ls: "links_of ?c ?d = Inr ls" "length ls = snd (shape_of kind)"
    using good_link_rows [OF links(2), of "JStr u" "JStr ?c"] links(1) by (auto simp: links_of_def flds)
  have "\<not> isl (rbind (release_media_block l ?d) (media_edge_rows l))" if rel: "data_type_of kind = ''releases''"
  proof -
    from rel kind have "kind = ''releases''" by (auto simp: data_type_of_def SHAPE_def)
    with extra obtain m where m: "lib_map_release l bench_media = Inr m" and f: "map_of adds ''media'' = Some (JObj m)"
      by (auto simp: kind_extra_def)
    have "get_none ?d ''media'' = JObj m" using f by (simp add: base_record_def get_none_def get_default_def)
    with m media show ?thesis by (simp add: release_media_block_def bench_media_ok_def rbind_def)
  qed
  then have "well_shaped l (data_type_of kind) ?d" using rs(1) ls(1) by (simp add: well_shaped_def flds)
  with kind u rs ls flds(1) show ?thesis by (auto simp: audit_shaped_def)
qed

lemma yields_record:
  assumes "rng_ok r" and "bench_media_ok l"
  shows "yields (make_record r l i) (audit_shaped l)"
  unfolding make_record_def
proof (rule yields_bnd [OF yields_random [OF assms(1)]])
  fix d :: rat
  assume d: "0 \<le> d \<and> d < 1"
  then obtain kind where k: "kind_of d = Inr kind" "kind \<in> fst ` set SHAPE" using kind_of_total by blast
  show "yields (bnd (of_result (kind_of d)) (\<lambda>kind. bnd (new_uuid r) (\<lambda>mbid.
      bnd (collect (fst (shape_of kind)) (bench_relation r)) (\<lambda>rels.
      bnd (collect (snd (shape_of kind)) (bench_link r)) (\<lambda>links.
      bnd (kind_fields r l i kind) (\<lambda>adds. ret (kind, base_record kind i mbid rels links @ adds))))))) (audit_shaped l)"
    by (intro yields_bnd [OF yields_result [where P = "\<lambda>x. x = kind", OF k(1)]] yields_bnd [OF yields_uuid]
        yields_bnd [OF yields_collect [OF yields_relation [OF assms(1)]]] yields_bnd [OF yields_collect [OF yields_link [OF assms(1)]]]
        yields_bnd [OF yields_kind_fields [OF assms]] yields_ret)
      (use k(2) assms(2) in \<open>auto intro!: base_record_audit_shaped\<close>)
qed

lemma yields_records:
  assumes "rng_ok r" and "bench_media_ok l"
  shows "yields (records_from r l i n) (\<lambda>recs. length recs = n \<and> list_all (audit_shaped l) recs)"
proof (induction n arbitrary: i)
  case (Suc n)
  show ?case by (auto intro!: yields_bnd [OF yields_record [OF assms]] yields_bnd [OF Suc] yields_ret)
qed (auto intro: yields_ret)

lemma make_records_shaped:
  assumes "rng_ok r" and "bench_media_ok l"
  obtains recs where "make_records r l n seeded = Inr recs" and "length recs = n" and "list_all (audit_shaped l) recs"
  using yields_records [OF assms, of 0 n] unfolding yields_def make_records_def by (metis fst_conv)

section \<open>Every schedule\<close>

text \<open>What an action did to the session, the records an order of actions wrote, and those a worker holds.\<close>

fun replay_action :: "env \<Rightarrow> bench_action \<Rightarrow> ('z psess_scheme, unit) eff" where
  "replay_action e Opened = exec (e_pg e) Connect"
| "replay_action e (Wrote kind data) = write_record e kind data"

fun written :: "bench_action list \<Rightarrow> (string \<times> obj) list" where
  "written [] = []"
| "written (Opened # acts) = written acts"
| "written (Wrote kind data # acts) = (kind, data) # written acts"

fun held :: "worker \<Rightarrow> (string \<times> obj) multiset" where
  "held (Holding kind data) = {#(kind, data)#}"
| "held _ = {#}"

text \<open>The steps a worker has left besides those for the records still queued.\<close>

fun weight :: "worker \<Rightarrow> nat" where
  "weight Starting = 2"
| "weight Free = 1"
| "weight (Holding _ _) = 2"
| "weight _ = 0"

definition work :: "'s bench_run \<Rightarrow> nat" where
  "work b = 2 * length (bn_queue b) + sum_list (map weight (bn_workers b))"

definition run_inv :: "env \<Rightarrow> (string \<times> obj) list \<Rightarrow> 'z psess_scheme \<Rightarrow> 'z psess_scheme bench_run \<Rightarrow> bool" where
  "run_inv e records s b \<longleftrightarrow>
     mset (bn_queue b) + sum_list (map held (bn_workers b)) + mset (written (bn_log b)) = mset records
     \<and> (\<forall>x. Failed x \<notin> set (bn_workers b)) \<and> (Returned \<in> set (bn_workers b) \<longrightarrow> bn_queue b = [])
     \<and> for_each (replay_action e) (bn_log b) s = (Inr (), bn_session b)"

lemma sum_list_update_at:
  fixes f :: "'a \<Rightarrow> 'b::comm_monoid_add"
  shows "i < length xs \<Longrightarrow> sum_list (map f (xs[i := x])) + f (xs ! i) = sum_list (map f xs) + f x"
proof (induction xs arbitrary: i)
  case (Cons y ys)
  show ?case
  proof (cases i)
    case 0
    then show ?thesis by (simp add: ac_simps)
  next
    case (Suc j)
    with Cons have "sum_list (map f (ys[j := x])) + f (ys ! j) = sum_list (map f ys) + f x" by simp
    then show ?thesis using Suc by (simp add: ac_simps)
  qed
qed simp

lemma for_each_snoc: "for_each f xs s = (Inr (), s') \<Longrightarrow> f x s' = (Inr (), s'') \<Longrightarrow> for_each f (xs @ [x]) s = (Inr (), s'')"
  by (induction xs arbitrary: s) (auto elim!: andthen_InrE)

lemma written_snoc: "written (acts @ [a]) = written acts @ (case a of Opened \<Rightarrow> [] | Wrote kind data \<Rightarrow> [(kind, data)])"
  by (induction acts rule: written.induct) (auto split: bench_action.split)

lemma write_record_succeeds:
  fixes s :: "'z psess_scheme"
  assumes p: "no_faults (e_pg e)" and l: "lib_total (e_lib e)" and shape: "audit_shaped (e_lib e) (kind, data)"
  obtains s' where "write_record e kind data s = (Inr (), s')"
proof -
  have "record_handler e kind = (PROCESSORS e (data_type_of kind) :: (obj \<Rightarrow> ('z psess_scheme, unit) eff) option)"
    using shape by (auto simp: audit_shaped_def record_handler_def PROCESSORS_def data_type_of_def SHAPE_def)
  moreover obtain f where f: "PROCESSORS e (data_type_of kind) = Some (f :: obj \<Rightarrow> ('z psess_scheme, unit) eff)"
    using shape by (auto simp: audit_shaped_def PROCESSORS_def data_type_of_def SHAPE_def)
  ultimately have h: "record_handler e kind = Some f" by simp
  have "succeeds (f data)" using shape by (intro processor_succeeds [OF f p l]) (simp add: audit_shaped_def)
  then have "succeeds (bnd (f data) (\<lambda>x. andthen (exec (e_pg e) Commit) (ret x)))"
    using p by (intro succeeds_bnd succeeds_andthen exec_succeeds) auto
  then obtain x s' where "bnd (f data) (\<lambda>x. andthen (exec (e_pg e) Commit) (ret x)) s = (Inr x, s')"
    unfolding succeeds_def by blast
  then show thesis by (intro that) (simp add: write_record_def in_transaction_def h)
qed

lemma worker_step_runs:
  assumes p: "no_faults (e_pg e)" and l: "lib_total (e_lib e)" and shape: "list_all (audit_shaped (e_lib e)) records"
    and inv: "run_inv e records s b" and i: "i < length (bn_workers b)" "unfinished (bn_workers b ! i)"
  shows "run_inv e records s (worker_step e i b) \<and> Suc (work (worker_step e i b)) = work b"
proof -
  let ?ws = "bn_workers b"
  note held = sum_list_update_at [OF i(1), of held] and weight = sum_list_update_at [OF i(1), of weight]
  have ok: "(\<forall>x. Failed x \<notin> set ?ws) \<Longrightarrow> (\<And>x. w \<noteq> Failed x) \<Longrightarrow> \<forall>x. Failed x \<notin> set (?ws[i := w])" for w
    using set_update_subset_insert [of ?ws i w] by auto
  have ret: "Returned \<in> set (?ws[i := w]) \<Longrightarrow> w = Returned \<or> Returned \<in> set ?ws" for w
    using set_update_subset_insert [of ?ws i w] by auto
  show ?thesis
  proof (cases "?ws ! i")
    case Starting
    obtain s' where "exec (e_pg e) Connect (bn_session b) = (Inr (), s')"
      using exec_succeeds [OF p, of Connect] unfolding succeeds_def by (metis (full_types) old.unit.exhaust plain_insert.simps(2))
    then show ?thesis
      using inv i Starting held [of Free] weight [of Free] ok [of Free] ret [of Free]
      by (auto simp: worker_step_def run_inv_def work_def written_snoc for_each_snoc)
  next
    case Free
    show ?thesis
    proof (cases "bn_queue b")
      case Nil
      then show ?thesis
        using inv i Free held [of Returned] weight [of Returned] ok [of Returned] ret [of Returned]
        by (auto simp: worker_step_def run_inv_def work_def)
    next
      case (Cons x q)
      then show ?thesis
        using inv i Free held [of "Holding (fst x) (snd x)"] weight [of "Holding (fst x) (snd x)"] ok [of "Holding (fst x) (snd x)"]
          ret [of "Holding (fst x) (snd x)"]
        by (cases x) (auto simp: worker_step_def run_inv_def work_def)
    qed
  next
    case (Holding kind data)
    have "held (?ws ! i) \<subseteq># sum_list (map held ?ws)"
      using held [of Free] by (metis add.right_neutral held.simps(3) mset_subset_eq_add_right)
    then have "(kind, data) \<in># sum_list (map held ?ws)" using Holding by simp
    then have "(kind, data) \<in># mset records" using inv unfolding run_inv_def by (metis union_iff)
    with shape have "audit_shaped (e_lib e) (kind, data)" by (simp add: list_all_iff)
    then obtain s' where w: "write_record e kind data (bn_session b) = (Inr (), s')" by (rule write_record_succeeds [OF p l])
    have step: "worker_step e i b = b\<lparr>bn_workers := ?ws[i := Free], bn_log := bn_log b @ [Wrote kind data], bn_session := s'\<rparr>"
      using i(1) Holding w by (simp add: worker_step_def)
    have "sum_list (map held ?ws) = sum_list (map held (?ws[i := Free])) + {#(kind, data)#}"
      using held [of Free] Holding by simp
    moreover have "for_each (replay_action e) (bn_log b @ [Wrote kind data]) s = (Inr (), s')"
      using inv w by (intro for_each_snoc) (simp_all add: run_inv_def)
    ultimately show ?thesis
      using inv weight [of Free] ok [of Free] ret [of Free] Holding
      by (simp add: step run_inv_def work_def written_snoc ac_simps)
  qed (use i(2) in simp_all)
qed

text \<open>A schedule that wastes no turn: it names a worker that has not finished, every time.\<close>

fun busy :: "env \<Rightarrow> nat list \<Rightarrow> 'z psess_scheme bench_run \<Rightarrow> bool" where
  "busy e [] b = True"
| "busy e (i # turns) b = (i < length (bn_workers b) \<and> unfinished (bn_workers b ! i) \<and> busy e turns (worker_step e i b))"

lemma busy_runs:
  assumes "no_faults (e_pg e)" and "lib_total (e_lib e)" and "list_all (audit_shaped (e_lib e)) records"
    and "run_inv e records s b" and "busy e schedule b"
  shows "run_inv e records s (fold (worker_step e) schedule b) \<and> length schedule + work (fold (worker_step e) schedule b) = work b
    \<and> length (bn_workers (fold (worker_step e) schedule b)) = length (bn_workers b)"
  using assms(4,5)
proof (induction schedule arbitrary: b)
  case (Cons i turns)
  from Cons.prems(2) have i: "i < length (bn_workers b)" "unfinished (bn_workers b ! i)" "busy e turns (worker_step e i b)" by simp_all
  from worker_step_runs [OF assms(1-3) Cons.prems(1) i(1,2)] have inv: "run_inv e records s (worker_step e i b)"
    and less: "Suc (work (worker_step e i b)) = work b" by simp_all
  have "length (bn_workers (worker_step e i b)) = length (bn_workers b)"
    by (auto simp: worker_step_def Let_def split: worker.split list.split prod.split sum.split)
  with Cons.IH [OF inv i(3)] less show ?case by simp
qed simp

lemma start_inv: "run_inv e records s (start_run records workers s)" "work (start_run records workers s) = 2 * (length records + workers)"
proof -
  have "sum_list (map held (replicate workers Starting)) = {#}" by (induction workers) simp_all
  then show "run_inv e records s (start_run records workers s)" by (auto simp: run_inv_def start_run_def)
  have "sum_list (map weight (replicate workers Starting)) = 2 * workers" by (induction workers) simp_all
  then show "work (start_run records workers s) = 2 * (length records + workers)" by (simp add: work_def start_run_def)
qed

lemma done_iff_gathered:
  assumes "run_inv e records s b" and "bn_workers b \<noteq> []"
  shows "work b = 0 \<longleftrightarrow> gathered b"
proof
  assume "work b = 0"
  then have "\<forall>w \<in> set (bn_workers b). weight w = 0" by (simp add: work_def)
  moreover have "weight w = 0 \<Longrightarrow> w = Returned \<or> (\<exists>x. w = Failed x)" for w by (cases w) simp_all
  ultimately show "gathered b" using assms(1) unfolding gathered_def run_inv_def list_all_iff by metis
next
  assume g: "gathered b"
  then have "Returned \<in> set (bn_workers b)" using assms(2) by (cases "bn_workers b") (simp_all add: gathered_def)
  with assms(1) have "bn_queue b = []" by (simp add: run_inv_def)
  moreover have "map weight (bn_workers b) = replicate (length (bn_workers b)) 0"
    using g by (intro replicate_eqI) (auto simp: gathered_def list_all_iff)
  ultimately show "work b = 0" by (simp add: work_def sum_list_replicate)
qed

lemma gathered_held: "gathered b \<Longrightarrow> sum_list (map held (bn_workers b)) = {#}"
proof -
  have "sum_list (map held ws) = {#}" if "list_all (\<lambda>w. w = Returned) ws" for ws using that by (induction ws) simp_all
  then show "gathered b \<Longrightarrow> sum_list (map held (bn_workers b)) = {#}" by (simp add: gathered_def)
qed

text \<open>A linear congruential generator, for concrete runs.\<close>

definition demo_rng :: "nat rng" where
  "demo_rng = \<lparr>rng_random = (\<lambda>g. (of_nat (g mod 100) / 100, (g * 37 + 11) mod 10007)),
     rng_getrandbits = (\<lambda>k g. (g mod 2 ^ k, (g * 37 + 11) mod 10007)),
     rng_below = (\<lambda>n g. (g mod n, (g * 37 + 11) mod 10007))\<rparr>"

lemma demo_rng_ok: "rng_ok demo_rng"
  by (simp add: rng_ok_def demo_rng_def divide_simps)

lemma demo_bench_media: "bench_media_ok (e_lib (demo_env now))"
  by (simp add: bench_media_ok_def demo_env_def demo_lib_def rbind_def media_edge_rows_def py_or_def)

section \<open>Properties\<close>


text \<open>
  The generator delivers the shape it documents: for every count and seed it returns that many records, each
  with a valid id and a handler, and the processors find in each exactly the relations and links of its kind.
\<close>

theorem generated_records_have_audit_shape:
  assumes "rng_ok r" and "bench_media_ok l"
  shows "\<exists>records. make_records r l n seeded = Inr records \<and> length records = n \<and> (\<forall>x \<in> set records. audit_shaped l x)"
proof -
  from make_records_shaped [OF assms] obtain records where "make_records r l n seeded = Inr records"
    and "length records = n" and "list_all (audit_shaped l) records" .
  then show ?thesis by (auto simp: list_all_iff)
qed

theorem generated_records_have_audit_shape_witness:
  "\<exists>records. make_records demo_rng demo_lib 3 42 = Inr records \<and> length records = 3"
  using generated_records_have_audit_shape [OF demo_rng_ok demo_bench_media [of 0], of 3 42] by (auto simp: demo_env_def)



end
