(* ===== verification/Benchmark_Entry.thy ===== *)
theory Benchmark_Entry
  imports Write_Benchmark Loader_Config
begin

text \<open>
  The entry point of \<open>scripts/bench-write.py\<close>: its arguments, the database URL and the guard on its host, the latency
  proxy, the two statistics and \<open>main\<close>.

  \<open>urllib.parse\<close> is written out as far as the script uses it; \<open>lawful\<close> stands for its check of an authority's brackets
  and characters (\<open>ipaddress\<close>, Unicode normalisation).  The command line is what \<open>argparse\<close> found of each option.
\<close>

section \<open>URLs\<close>

record split_url =
  ul_scheme :: string
  ul_netloc :: string
  ul_path :: string
  ul_query :: string
  ul_fragment :: string

definition lower_char :: "char \<Rightarrow> char" where
  "lower_char c = (let n = of_char c :: nat in
     if 65 \<le> n \<and> n \<le> 90 \<or> 192 \<le> n \<and> n \<le> 222 \<and> n \<noteq> 215 then char_of (n + 32) else c)"

definition ascii_alpha :: "char \<Rightarrow> bool" where
  "ascii_alpha c \<longleftrightarrow> (let n = of_char c :: nat in 65 \<le> n \<and> n \<le> 90 \<or> 97 \<le> n \<and> n \<le> 122)"

definition ascii_digit :: "char \<Rightarrow> bool" where
  "ascii_digit c \<longleftrightarrow> (let n = of_char c :: nat in 48 \<le> n \<and> n \<le> 57)"

text \<open>\<open>s.partition(c)\<close> without the separator, and what \<open>s.rpartition(c)\<close> and \<open>s.rsplit(c, 1)\<close> cut at the last one.\<close>

definition cut_at :: "char \<Rightarrow> string \<Rightarrow> string \<times> string" where
  "cut_at c s = (takeWhile (\<lambda>x. x \<noteq> c) s, drop 1 (dropWhile (\<lambda>x. x \<noteq> c) s))"

definition after_last :: "char \<Rightarrow> string \<Rightarrow> string" where
  "after_last c s = rev (takeWhile (\<lambda>x. x \<noteq> c) (rev s))"

definition before_last :: "char \<Rightarrow> string \<Rightarrow> string" where
  "before_last c s = take (length s - Suc (length (after_last c s))) s"

definition split_scheme :: "string \<Rightarrow> string \<times> string" where
  "split_scheme url = (let (scheme, rest) = cut_at CHR '':'' url in
     if scheme \<noteq> [] \<and> CHR '':'' \<in> set url \<and> ascii_alpha (hd scheme)
        \<and> list_all (\<lambda>c. ascii_alpha c \<or> ascii_digit c \<or> c \<in> set ''+-.'') scheme
     then (map lower_char scheme, rest) else ([], url))"

definition urlsplit :: "(string \<Rightarrow> bool) \<Rightarrow> string \<Rightarrow> exn + split_url" where
  "urlsplit lawful url =
     (let clean = filter (\<lambda>c. (of_char c :: nat) \<notin> {9, 10, 13}) (dropWhile (\<lambda>c. (of_char c :: nat) \<le> 32) url);
          (scheme, rest) = split_scheme clean;
          (netloc, rest) = (if take 2 rest = ''//''
             then (takeWhile (\<lambda>c. c \<notin> set ''/?#'') (drop 2 rest), dropWhile (\<lambda>c. c \<notin> set ''/?#'') (drop 2 rest)) else ([], rest));
          (rest, fragment) = cut_at CHR ''#'' rest;
          (path, query) = cut_at CHR ''?'' rest
      in if (CHR ''['' \<in> set netloc) \<noteq> (CHR '']'' \<in> set netloc) \<or> \<not> lawful netloc then Inl value_error
         else Inr \<lparr>ul_scheme = scheme, ul_netloc = netloc, ul_path = path, ul_query = query, ul_fragment = fragment\<rparr>)"

text \<open>\<open>_hostinfo\<close>, and the properties \<open>hostname\<close> and \<open>port\<close> of a split URL.\<close>

definition host_and_port :: "string \<Rightarrow> string \<times> string" where
  "host_and_port netloc = (let hostinfo = after_last CHR ''@'' netloc in
     if CHR ''['' \<in> set hostinfo
     then (let (host, rest) = cut_at CHR '']'' (snd (cut_at CHR ''['' hostinfo)) in (host, snd (cut_at CHR '':'' rest)))
     else cut_at CHR '':'' hostinfo)"

definition hostname :: "string \<Rightarrow> string option" where
  "hostname netloc = (let host = fst (host_and_port netloc) in
     if host = [] then None
     else Some (map lower_char (takeWhile (\<lambda>c. c \<noteq> CHR ''%'') host) @ dropWhile (\<lambda>c. c \<noteq> CHR ''%'') host))"

definition url_port :: "string \<Rightarrow> exn + int option" where
  "url_port netloc = (let port = snd (host_and_port netloc) in
     if port = [] then Inr None
     else if \<not> list_all ascii_digit port then Inl value_error
     else (case py_int 10 port of
        None \<Rightarrow> Inl value_error
      | Some n \<Rightarrow> if 0 \<le> n \<and> n \<le> 65535 then Inr (Some n) else Inl value_error))"

text \<open>\<open>geturl\<close> of a URL with an authority.\<close>

definition geturl :: "split_url \<Rightarrow> string" where
  "geturl u =
     (let path = (if ul_path u \<noteq> [] \<and> hd (ul_path u) \<noteq> CHR ''/'' then CHR ''/'' # ul_path u else ul_path u)
      in (if ul_scheme u = [] then [] else ul_scheme u @ '':'') @ ''//'' @ ul_netloc u @ path
         @ (if ul_query u = [] then [] else CHR ''?'' # ul_query u)
         @ (if ul_fragment u = [] then [] else CHR ''#'' # ul_fragment u))"

section \<open>The latency proxy\<close>

text \<open>
  \<open>_delay_pipe\<close> between one reader and one writer: what the reader delivers or raises, one read after the other, and the
  exception of \<open>drain\<close> after each write, if any.  The result has the bytes handed to the writer, which is closed in every case.
\<close>

fun delay_pipe :: "(exn + string) list \<Rightarrow> exn option list \<Rightarrow> (exn + unit) \<times> string" where
  "delay_pipe [] fails = (Inr (), [])"
| "delay_pipe (Inl x # reads) fails = (Inl x, [])"
| "delay_pipe (Inr d # reads) fails = (if d = [] then (Inr (), []) else case fails of
     Some x # _ \<Rightarrow> (Inl x, d)
   | _ \<Rightarrow> (case delay_pipe reads (drop 1 fails) of (r, out) \<Rightarrow> (r, d @ out)))"

definition proxied_netloc :: "string \<Rightarrow> nat \<Rightarrow> string" where
  "proxied_netloc netloc port =
     (if CHR ''@'' \<in> set netloc then before_last CHR ''@'' netloc @ ''@127.0.0.1:'' @ show_nat port
      else ''127.0.0.1:'' @ show_nat port)"

text \<open>Where the proxy connects to, and the URL its clients use, when it listens on \<open>port\<close>.\<close>

definition start_latency_proxy :: "(string \<Rightarrow> bool) \<Rightarrow> nat \<Rightarrow> string \<Rightarrow> exn + (string \<times> int) \<times> string" where
  "start_latency_proxy lawful port url =
     rbind (urlsplit lawful url) (\<lambda>parts.
     rbind (url_port (ul_netloc parts)) (\<lambda>given.
     Inr ((case hostname (ul_netloc parts) of None \<Rightarrow> ''127.0.0.1'' | Some h \<Rightarrow> h,
           case given of None \<Rightarrow> 5432 | Some n \<Rightarrow> if n = 0 then 5432 else n),
          geturl (parts\<lparr>ul_netloc := proxied_netloc (ul_netloc parts) port\<rparr>))))"

section \<open>Statistics\<close>

definition FINGERPRINT_QUERIES :: "(string \<times> string) list" where
  "FINGERPRINT_QUERIES = [
     (''artists'', ''SELECT mbid::text, name, discogs_artist_id, aliases, tags, data - 'relations' - 'external_links' FROM musicbrainz.artists ORDER BY 1''),
     (''labels'', ''SELECT mbid::text, name, data - 'relations' - 'external_links' FROM musicbrainz.labels ORDER BY 1''),
     (''releases'', ''SELECT mbid::text, name, barcode, discogs_release_id, media, data - 'relations' - 'external_links' FROM musicbrainz.releases ORDER BY 1''),
     (''release_groups'', ''SELECT mbid::text, name, data - 'relations' - 'external_links' FROM musicbrainz.release_groups ORDER BY 1''),
     (''relationships'', ''SELECT source_mbid::text, source_entity_type, target_mbid::text, target_entity_type, relationship_type, attributes, begin_date, end_date, ended FROM musicbrainz.relationships ORDER BY 1, 2, 3, 4, 5, 6::text, 7, 8''),
     (''external_links'', ''SELECT mbid::text, entity_type, url, service_name FROM musicbrainz.external_links ORDER BY 1, 2, 3, 4''),
     (''issued_on'', ''SELECT release_id, medium_id, source, qty FROM graph.issued_on ORDER BY 1, 2, 3''),
     (''provider_aliases'', ''SELECT provider, entity_kind, external_id FROM public.provider_aliases ORDER BY 1, 2, 3''),
     (''identity_link_events'', ''SELECT provider, entity_kind, external_id, event, discogs_id_before, discogs_id_after FROM public.identity_link_events ORDER BY 1, 2, 3, 4'')]"

text \<open>\<open>answer\<close> is the database's answer to a query; \<open>sha\<close> the hexadecimal digest of its rows in JSON.\<close>

definition fingerprints :: "(string \<Rightarrow> 'r list) \<Rightarrow> ('r list \<Rightarrow> string) \<Rightarrow> (string \<times> nat \<times> string) list" where
  "fingerprints answer sha =
     map (\<lambda>(name, query). (name, length (answer query), take 16 (sha (answer query)))) FINGERPRINT_QUERIES"

text \<open>\<open>stats\<close> is the row \<open>pg_stat_user_tables\<close> has for a table: inserts, updates, HOT updates, bytes.\<close>

definition storage :: "(string \<Rightarrow> (int \<times> int \<times> int \<times> int) option) \<Rightarrow> (string \<times> int \<times> int \<times> int \<times> int) list" where
  "storage stats = List.map_filter (\<lambda>table. map_option (Pair table) (stats table))
     [''artists'', ''labels'', ''releases'', ''release_groups'', ''relationships'', ''external_links'']"

section \<open>Main\<close>

text \<open>What the command line gives, and the arguments it is read into: a default is evaluated even when it is not used.\<close>

record command_line =
  cl_records :: "int option"
  cl_workers :: "int option"
  cl_seed :: "int option"
  cl_latency_ms :: "rat option"
  cl_skip_sequential :: bool

record bench_args =
  ba_records :: int
  ba_workers :: int
  ba_seed :: int
  ba_latency_ms :: rat
  ba_skip_sequential :: bool

record ('g, 'r) bench_world =
  bw_getenv :: environ
  bw_float :: "string \<Rightarrow> exn + rat"
  bw_lawful :: "string \<Rightarrow> bool"
  bw_rng :: "'g rng"
  bw_seeded :: "int \<Rightarrow> 'g"
  bw_create :: "db \<Rightarrow> exn + nat \<times> db"
  bw_proxy_port :: nat
  bw_schedules :: "nat \<Rightarrow> nat list"
  bw_stats :: "db \<Rightarrow> string \<Rightarrow> (int \<times> int \<times> int \<times> int) option"
  bw_answer :: "db \<Rightarrow> string \<Rightarrow> 'r list"
  bw_sha :: "'r list \<Rightarrow> string"

definition or_default :: "'a option \<Rightarrow> 'a \<Rightarrow> 'a" where
  "or_default given def = (case given of None \<Rightarrow> def | Some x \<Rightarrow> x)"

definition parse_args :: "environ \<Rightarrow> (string \<Rightarrow> exn + rat) \<Rightarrow> command_line \<Rightarrow> exn + bench_args" where
  "parse_args getenv float_of cl =
     rbind (env_int ''BENCH_RECORDS'' 2000 getenv) (\<lambda>records.
     rbind (env_int ''BENCH_WORKERS'' 12 getenv) (\<lambda>workers.
     rbind (env_int ''BENCH_SEED'' 42 getenv) (\<lambda>seed.
     rbind (case getenv ''BENCH_LATENCY_MS'' of None \<Rightarrow> Inr 0 | Some s \<Rightarrow> float_of s) (\<lambda>latency.
     Inr \<lparr>ba_records = or_default (cl_records cl) records, ba_workers = or_default (cl_workers cl) workers,
          ba_seed = or_default (cl_seed cl) seed, ba_latency_ms = or_default (cl_latency_ms cl) latency,
          ba_skip_sequential = cl_skip_sequential cl\<rparr>))))"

definition database_url :: "environ \<Rightarrow> exn + string" where
  "database_url getenv =
     (case getenv ''BENCH_DATABASE_URL'' of
        Some (c # cs) \<Rightarrow> Inr (c # cs)
      | _ \<Rightarrow> (case getenv ''TEST_DATABASE_URL'' of Some (c # cs) \<Rightarrow> Inr (c # cs) | _ \<Rightarrow> Inl system_exit))"

text \<open>\<open>host = urlsplit(url).hostname\<close> of \<open>prepare\<close>.\<close>

definition url_host :: "(string \<Rightarrow> bool) \<Rightarrow> string \<Rightarrow> exn + string option" where
  "url_host lawful url = rbind (urlsplit lawful url) (\<lambda>parts. Inr (hostname (ul_netloc parts)))"

text \<open>The URL the runs connect to.\<close>

definition run_target :: "('g, 'r) bench_world \<Rightarrow> bench_args \<Rightarrow> string \<Rightarrow> exn + string" where
  "run_target w args url =
     (if 0 < ba_latency_ms args then rbind (start_latency_proxy (bw_lawful w) (bw_proxy_port w) url) (\<lambda>(_, target). Inr target)
      else Inr url)"

definition bench_runs ::
  "env \<Rightarrow> (nat \<Rightarrow> nat list) \<Rightarrow> bench_args \<Rightarrow> (string \<times> obj) list \<Rightarrow> ('z psess_scheme, unit) eff" where
  "bench_runs e schedules args records =
     andthen (if ba_skip_sequential args then ret ()
              else andthen (timed_run e (schedules 0) records 1) (modify (\<lambda>s. s\<lparr>s_db := truncate_tables (s_db s)\<rparr>)))
     (andthen (timed_run e (schedules 1) records (nat (ba_workers args)))
       (timed_run e (schedules 2) records (nat (ba_workers args))))"

definition bench_main :: "env \<Rightarrow> ('g, 'r) bench_world \<Rightarrow> command_line \<Rightarrow>
    ('z psess_scheme, (string \<times> int \<times> int \<times> int \<times> int) list \<times> (string \<times> nat \<times> string) list) eff" where
  "bench_main e w cl =
     bnd (of_result (parse_args (bw_getenv w) (bw_float w) cl)) (\<lambda>args.
     bnd (of_result (database_url (bw_getenv w))) (\<lambda>url.
     bnd (of_result (url_host (bw_lawful w) url)) (\<lambda>host.
     andthen (prepare host (bw_create w))
     (bnd (of_result (run_target w args url)) (\<lambda>target.
     bnd (of_result (make_records (bw_rng w) (e_lib e) (nat (ba_records args)) (bw_seeded w (ba_seed args)))) (\<lambda>records.
     andthen (bench_runs e (bw_schedules w) args records)
     (bnd get_state (\<lambda>s. ret (storage (bw_stats w (s_db s)), fingerprints (bw_answer w (s_db s)) (bw_sha w))))))))))"

section \<open>The guard\<close>

text \<open>
  The benchmark writes to no database but an empty one on this machine: with another host in the authority of its URL it
  ends before anything is touched, and on a database that holds a row after the schema was created it ends with
  exactly what the schema left.
\<close>

theorem benchmark_refuses_other_databases:
  fixes s :: "'z psess_scheme"
  assumes args: "parse_args (bw_getenv w) (bw_float w) cl = Inr args" and url: "database_url (bw_getenv w) = Inr url"
    and host: "url_host (bw_lawful w) url = Inr host"
  shows "(host \<notin> {Some ''127.0.0.1'', Some ''localhost'', Some ''::1''} \<longrightarrow> bench_main e w cl s = (Inl system_exit, s))
    \<and> (\<forall>failures d. bw_create w (s_db s) = Inr (failures, d) \<and> (0 < failures \<or> (\<exists>n \<in> set (row_counts d). 0 < n))
      \<and> host \<in> {Some ''127.0.0.1'', Some ''localhost'', Some ''::1''} \<longrightarrow> bench_main e w cl s = (Inl system_exit, s\<lparr>s_db := d\<rparr>))"
  by (auto simp: bench_main_def args url host prepare_def andthen_def bnd_def raise_def of_result_def get_state_def modify_def)

definition demo_world :: "string \<Rightarrow> (nat, string) bench_world" where
  "demo_world url = \<lparr>bw_getenv = [''BENCH_DATABASE_URL'' \<mapsto> url, ''BENCH_RECORDS'' \<mapsto> ''1''], bw_float = (\<lambda>_. Inl value_error), bw_lawful = (\<lambda>_. True),
     bw_rng = demo_rng, bw_seeded = nat, bw_create = (\<lambda>d. Inr (0, d)), bw_proxy_port = 6000, bw_schedules = (\<lambda>_. []),
     bw_stats = (\<lambda>_ _. None), bw_answer = (\<lambda>_ _. []), bw_sha = (\<lambda>_. [])\<rparr>"

definition demo_line :: command_line where
  "demo_line = \<lparr>cl_records = None, cl_workers = Some 1, cl_seed = None, cl_latency_ms = None, cl_skip_sequential = True\<rparr>"

lemma demo_world_args:
  "parse_args (bw_getenv (demo_world url)) (bw_float (demo_world url)) demo_line =
     Inr \<lparr>ba_records = 1, ba_workers = 1, ba_seed = 42, ba_latency_ms = 0, ba_skip_sequential = True\<rparr>"
proof -
  have "py_int 10 ''1'' = Some 1" by code_simp
  then show ?thesis by (simp add: parse_args_def env_int_def demo_world_def demo_line_def or_default_def)
qed

lemma demo_world_url: "url \<noteq> [] \<Longrightarrow> database_url (bw_getenv (demo_world url)) = Inr url"
  by (cases url) (simp_all add: database_url_def demo_world_def)

theorem benchmark_refuses_other_databases_witness:
  "bench_main (demo_env 9) (demo_world ''postgresql://u:p@127.0.0.1:5432@db.example/m'') demo_line (demo_sess demo_db)
      = (Inl system_exit, demo_sess demo_db)
   \<and> bench_main (demo_env 9) (demo_world ''postgresql://u:p@LocalHost/m'') demo_line (demo_sess demo_db)
      = (Inl system_exit, demo_sess demo_db)"
proof -
  have counts: "row_counts (s_db (demo_sess demo_db)) = [0, 0, 0, 0, 2, 0]"
    by (simp add: row_counts_def demo_sess_def demo_db_def empty_db_def)
  have hosts: "url_host (\<lambda>_. True) ''postgresql://u:p@127.0.0.1:5432@db.example/m'' = Inr (Some ''db.example'')"
    "url_host (\<lambda>_. True) ''postgresql://u:p@LocalHost/m'' = Inr (Some ''localhost'')" by code_simp+
  have lawful: "bw_lawful (demo_world url) = (\<lambda>_. True)" "bw_create (demo_world url) = (\<lambda>d. Inr (0, d))" for url
    by (simp_all add: demo_world_def)
  let ?w1 = "demo_world ''postgresql://u:p@127.0.0.1:5432@db.example/m''" and ?w2 = "demo_world ''postgresql://u:p@LocalHost/m''"
  have "database_url (bw_getenv ?w1) = Inr ''postgresql://u:p@127.0.0.1:5432@db.example/m''"
    "database_url (bw_getenv ?w2) = Inr ''postgresql://u:p@LocalHost/m''" by (rule demo_world_url; simp)+
  note url = this
  have "bench_main (demo_env 9) ?w2 demo_line (demo_sess demo_db) = (Inl system_exit, (demo_sess demo_db)\<lparr>s_db := s_db (demo_sess demo_db)\<rparr>)"
    using benchmark_refuses_other_databases [OF demo_world_args url(2) hosts(2) [folded lawful(1) [of "''postgresql://u:p@LocalHost/m''"]],
      THEN conjunct2, THEN spec, THEN spec, of "demo_sess demo_db" 0 "s_db (demo_sess demo_db)"] counts
    by (simp add: lawful)
  moreover have "bench_main (demo_env 9) ?w1 demo_line (demo_sess demo_db) = (Inl system_exit, demo_sess demo_db)"
    using benchmark_refuses_other_databases [OF demo_world_args url(1) hosts(1) [folded lawful(1) [of "''postgresql://u:p@127.0.0.1:5432@db.example/m''"]]]
    by simp
  ultimately show ?thesis by (simp add: demo_sess_def)
qed

lemma cut_at_absent: "c \<notin> set s \<Longrightarrow> cut_at c s = (s, [])"
  unfolding cut_at_def by (induction s) auto

lemma urlsplit_query_host:
  assumes h: "\<forall>c \<in> set h. 32 < (of_char c :: nat) \<and> c \<noteq> CHR ''#''" and ok: "lawful ''localhost''"
  shows "urlsplit lawful (''postgresql://localhost/m?host='' @ h) = Inr \<lparr>ul_scheme = ''postgresql'', ul_netloc = ''localhost'',
     ul_path = ''/m'', ul_query = ''host='' @ h, ul_fragment = []\<rparr>"
proof -
  let ?p = "''postgresql://localhost/m?host=''"
  have "filter (\<lambda>c. (of_char c :: nat) \<notin> {9, 10, 13}) ?p = ?p" by code_simp
  moreover have "dropWhile (\<lambda>c. (of_char c :: nat) \<le> 32) (?p @ h) = ?p @ h" by simp
  moreover have "filter (\<lambda>c. (of_char c :: nat) \<notin> {9, 10, 13}) h = h"
  proof (rule filter_True, rule ballI)
    fix c assume "c \<in> set h"
    with h have "32 < (of_char c :: nat)" by blast
    then show "(of_char c :: nat) \<notin> {9, 10, 13}" by simp
  qed
  ultimately have clean: "filter (\<lambda>c. (of_char c :: nat) \<notin> {9, 10, 13}) (dropWhile (\<lambda>c. (of_char c :: nat) \<le> 32) (?p @ h)) = ?p @ h"
    by (simp only: filter_append)
  have scheme: "split_scheme (?p @ h) = (''postgresql'', ''//localhost/m?host='' @ h)"
    by (simp add: split_scheme_def cut_at_def ascii_alpha_def lower_char_def)
  have authority: "take 2 (''//localhost/m?host='' @ h) = ''//''"
    "takeWhile (\<lambda>c. c \<notin> set ''/?#'') (drop 2 (''//localhost/m?host='' @ h)) = ''localhost''"
    "dropWhile (\<lambda>c. c \<notin> set ''/?#'') (drop 2 (''//localhost/m?host='' @ h)) = ''/m?host='' @ h" by simp_all
  have parts: "cut_at CHR ''#'' (''/m?host='' @ h) = (''/m?host='' @ h, [])"
    by (rule cut_at_absent) (use h in auto)
  have query: "cut_at CHR ''?'' (''/m?host='' @ h) = (''/m'', ''host='' @ h)" by (simp add: cut_at_def)
  have "(CHR ''['' \<in> set ''localhost'') = (CHR '']'' \<in> set ''localhost'')" by simp
  then show ?thesis by (simp only: urlsplit_def Let_def clean scheme authority parts query prod.case if_True refl ok simp_thms if_False)
qed

text \<open>
  C35.  The guard of the benchmark reads the authority of its URL alone.  A PostgreSQL URL may also name its host in the
  query, which the client library prefers: with any host there, the URL passes the guard as \<open>localhost\<close>, and the runs
  connect to a URL with that query, through the latency proxy as well.
\<close>

theorem guard_misses_query_host:
  assumes h: "\<forall>c \<in> set h. 32 < (of_char c :: nat) \<and> c \<noteq> CHR ''#''" and ok: "lawful ''localhost''"
    and url: "url = ''postgresql://localhost/m?host='' @ h"
  shows "url_host lawful url = Inr (Some ''localhost'')
    \<and> start_latency_proxy lawful port url
      = Inr ((''localhost'', 5432), ''postgresql://127.0.0.1:'' @ show_nat port @ ''/m?host='' @ h)"
proof -
  have "hostname ''localhost'' = Some ''localhost''" "url_port ''localhost'' = Inr None" by code_simp+
  moreover note urlsplit_query_host [OF h, of lawful, OF ok, folded url]
  ultimately show ?thesis by (simp add: url_host_def start_latency_proxy_def geturl_def proxied_netloc_def)
qed

theorem guard_misses_query_host_witness:
  "url_host (\<lambda>_. True) ''postgresql://localhost/m?host=db.example'' = Inr (Some ''localhost'')"
proof -
  have "\<forall>c \<in> set ''db.example''. 32 < (of_char c :: nat) \<and> c \<noteq> CHR ''#''" by code_simp
  from guard_misses_query_host [OF this, of "\<lambda>_. True" "''postgresql://localhost/m?host=db.example''"] show ?thesis by simp
qed

section \<open>The proxied authority\<close>

lemma after_last_append: "c \<notin> set t \<Longrightarrow> after_last c (s @ c # t) = t"
proof -
  assume "c \<notin> set t"
  then have "takeWhile (\<lambda>x. x \<noteq> c) (rev t @ c # rev s) = rev t" by (subst takeWhile_append2) auto
  then show ?thesis by (simp add: after_last_def)
qed

lemma after_last_none: "c \<notin> set s \<Longrightarrow> after_last c s = s"
proof -
  assume "c \<notin> set s"
  then have all: "takeWhile (\<lambda>x. x \<noteq> c) (rev s) = rev s" by auto
  show ?thesis unfolding after_last_def all by simp
qed

lemma show_nat_plain: "c \<in> set (show_nat n) \<Longrightarrow> ascii_digit c"
  using show_nat_digits [of c n] by (auto simp: ascii_digit_def of_char_of)

text \<open>The clients of the proxy reach this machine, with the user and the password of the original URL.\<close>

lemma proxied_netloc_loopback:
  "hostname (proxied_netloc netloc port) = Some ''127.0.0.1''"
  "CHR ''@'' \<in> set netloc \<Longrightarrow> before_last CHR ''@'' (proxied_netloc netloc port) = before_last CHR ''@'' netloc"
proof -
  let ?t = "''127.0.0.1:'' @ show_nat port"
  have other: "c \<notin> set (show_nat port)" if "\<not> ascii_digit c" for c using that show_nat_plain by blast
  have "\<not> ascii_digit CHR ''@''" "\<not> ascii_digit CHR ''[''" by code_simp+
  then have "CHR ''@'' \<notin> set ?t" "CHR ''['' \<notin> set ?t" using other by auto
  then have last: "after_last CHR ''@'' (proxied_netloc netloc port) = ?t" and no: "CHR ''['' \<notin> set ?t"
    using after_last_append [of "CHR ''@''" ?t "before_last CHR ''@'' netloc"] after_last_none [of "CHR ''@''" ?t]
    by (auto simp: proxied_netloc_def)
  have "fst (host_and_port (proxied_netloc netloc port)) = ''127.0.0.1''"
    using no by (simp add: host_and_port_def last Let_def cut_at_def)
  moreover have "map lower_char ''127.0.0.1'' = ''127.0.0.1''" by code_simp
  ultimately show "hostname (proxied_netloc netloc port) = Some ''127.0.0.1''" by (simp add: hostname_def)
  show "before_last CHR ''@'' (proxied_netloc netloc port) = before_last CHR ''@'' netloc" if at: "CHR ''@'' \<in> set netloc"
    unfolding before_last_def [of _ "proxied_netloc netloc port"] last using at by (simp add: proxied_netloc_def)
qed

text \<open>A direction of the proxy forwards every byte in its order until the end of its stream.\<close>

lemma delay_pipe_forwards:
  "\<forall>d \<in> set chunks. d \<noteq> [] \<Longrightarrow> delay_pipe (map Inr chunks @ [Inr []]) [] = (Inr (), concat chunks)"
  by (induction chunks) simp_all

end
