(* ===== verification/Spec2Isabelle.thy ===== *)
theory Spec2Isabelle
  imports Lifecycle Progress Redelivery Interleaving Telemetry Release_Checks Benchmark_Entry
begin

text \<open>
  The MusicBrainz SQL loader consumes four RabbitMQ streams (artists, labels, release groups, releases),
  writes each record into PostgreSQL in one transaction, and at the end of an extraction deletes the
  relationships and external links the new dump no longer contains.  This library models the Python of
  \<open>src/brainztableinator/\<close> and the scripts of \<open>src/scripts/\<close>.

  \<^bold>\<open>How the parts interact.\<close>  A delivery enters through \<open>data_handler\<close> and \<open>on_data_message\<close>.  Its handler decodes
  the body; a record is mapped to rows and written by a processor inside one transaction, a completion
  signal goes to the purge object, which latches when every stream has signalled the same extraction, gathers
  vetoes (dead letters, recorded vetoes, its own marks) and then deletes or refuses.  Consumers are registered,
  cancelled by timers, lost and recovered; a queue checker and a progress reporter run beside them; \<open>main\<close>
  starts and ends all of it.

  \<^bold>\<open>Theories and sources.\<close>
  \<^item> \<open>Loader_Prelude\<close>, \<open>Py_Values\<close>: effects with exceptions as values, Python strings and decoded JSON.
  \<^item> \<open>Catalog_Names\<close>: \<open>catalog_contract.py\<close>, \<open>queue_names.py\<close>.  \<open>Loader_Config\<close>: \<open>config.py\<close>.
  \<^item> \<open>Persistence\<close>: \<open>_persistence.py\<close>, one constructor of \<open>stmt\<close> per SQL statement and its effect on the tables.
  \<^item> \<open>Record_Mapping\<close>, \<open>Record_Processing\<close>: \<open>_record_processing.py\<close>, the pure mapping and the processors.
  \<^item> \<open>Reconciliation\<close>: \<open>_reconciliation.py\<close>, the class \<open>StaleChildRowPurge\<close>.  \<open>Purge_Veto\<close>: \<open>_purge_veto.py\<close>.
  \<^item> \<open>Service_State\<close>, \<open>Delivery\<close>, \<open>Consumers\<close>, \<open>Interleaving\<close>, \<open>Progress\<close>, \<open>Telemetry\<close>, \<open>Lifecycle\<close>:
    \<open>brainztableinator.py\<close>, by subject: module globals and health; a delivery; subscriptions and recovery; a
    reconciliation cut at its awaits; the reporter; metrics and spans; \<open>main\<close>.
  \<^item> \<open>Redelivery\<close>: what a second delivery of a record does to the tables, from the laws of the upserts.
  \<^item> \<open>Repository_Tools\<close>: \<open>audit_test_assertions.py\<close>, \<open>check_bump_preview.py\<close>.  \<open>Release_Checks\<close>:
    \<open>check-contracts.py\<close>, \<open>check-license.py\<close>, \<open>write-build-provenance.py\<close>, over a tree of files.
  \<^item> \<open>Write_Benchmark\<close>, \<open>Benchmark_Entry\<close>: \<open>bench-write.py\<close>, its generator and its workers under any schedule, over the
    same processors as the service; its arguments, URL, proxy, statistics and runs.

  The state is one record that grows along the imports: the database session (\<open>sess\<close>: tables and statements
  sent), the processor's (\<open>psess\<close>), the module globals (\<open>svc\<close>), and what only \<open>main\<close> touches (\<open>life\<close>).  An operation
  is a function of that state, named as in the source, that returns its outcome with the state it leaves, so that a
  raise keeps what happened before it.

  \<^bold>\<open>What the lemmas show.\<close>  Keyed tables obey the laws of \<open>INSERT ... ON CONFLICT\<close> (locale \<open>keyed_table\<close>), which
  carry the statements, the processors and the latch; \<open>settling_table\<close> extends them to a batch that is sent again.  Frame relations (\<open>keeps\<close>) say what an operation leaves
  alone; the locale \<open>handler_frame\<close> lifts one from the local changes of a handler to a whole delivery and is
  interpreted for the registrations and for the counters; \<open>batch_observer\<close> does it for the calls of a batch.  The
  properties: an acknowledged record is committed, survives the purge and may be delivered again without effect on its
  child rows, the purge refines its specification
  and respects every veto, an interleaved reconciliation keeps the marks it finds unless a purge is already in its
  transaction, the registrations and the gauge stay in order under any interleaving of
  \<open>service_step\<close>, recovery heals, and \<open>main\<close> releases what it opened.

  \<^bold>\<open>Parameters.\<close>  What is not in the repository is an argument: PostgreSQL and the schema (\<open>pg\<close>, with \<open>pg_fault\<close> by which
  any statement may fail), the shared runtime (\<open>lib\<close>, \<open>config_lib\<close>, and \<open>authority\<close> for \<open>run_delivery\<close>, assumed to do
  what \<open>documented\<close> states), the broker (\<open>broker\<close>, \<open>closing\<close>), OpenTelemetry (\<open>otel\<close>), the random draws of the
  benchmark (\<open>rng\<close>), the digest, decoders and parsers of the release checks (\<open>tools\<close>),
  the answers the benchmark gets (\<open>bench_world\<close>), clock and environment.

  \<^bold>\<open>Bounds.\<close>  The one loop that is not a recursion on its data, the connection loop, counts up to its five attempts
  and has a termination proof; no fuel is used.  Strings are code points below 256; times and floats are
  rationals; the delete fraction is compared exactly, which agrees with the rounded quotient below \<open>10 ^ 14\<close> rows.

  \<^bold>\<open>Not modelled.\<close>  The wording of log lines and the set-up of logging, signals and telemetry; \<open>conn.pipeline()\<close>,
  which only batches round trips; the event loop of the benchmark's proxy, of which one direction is modelled.
  A record handler, a close and a recovery run as one step; a reconciliation is also modelled cut at its awaits
  (\<open>Interleaving\<close>, which proves the one-step handler to be one of its schedules), and timers and the reporter are
  cut where they sleep.
\<close>

section \<open>A loaded record and the purge\<close>



end
